(* ===== verification/Prelude.thy ===== *)
theory Prelude
  imports Main "HOL-Library.Word" "HOL-Library.List_Lexorder"
begin

text \<open>
  The prelude of the development: the types the model shares (instants, durations, bytes), Go's
  64-bit integer arithmetic with its wrap-around, the parts of Go's \<open>strings\<close>, \<open>strconv\<close>,
  \<open>fmt\<close> and \<open>encoding/binary\<close> packages the program uses, and the generic lemmas on lists and
  byte strings that the component theories share.

  A Go string is a sequence of bytes, as is a HOL \<open>string\<close>; \<open>len\<close> counts bytes in both.
\<close>

named_theorems go_consts \<open>the literal behind each named constant of the source\<close>
named_theorems op_defs \<open>definitions of the operations a component exports\<close>

section \<open>Shared types\<close>

text \<open>
  A \<open>time.Time\<close> is the number of nanoseconds since Go's zero time, so that \<open>IsZero\<close> is
  equality with 0; a \<open>time.Duration\<close> is a number of nanoseconds.
\<close>

type_synonym gotime = int
type_synonym duration = int
type_synonym byte = "8 word"
type_synonym bytes = "byte list"

definition IsZero :: "gotime \<Rightarrow> bool" where
  "IsZero t \<longleftrightarrow> t = 0"

definition Second :: duration where
  "Second = 1000000000"

section \<open>Go's 64-bit integers\<close>

text \<open>
  Go's \<open>int\<close> (on the 64-bit platforms the agent is built for), \<open>int64\<close> and \<open>time.Duration\<close> are
  HOL integers in the range of a signed 64-bit word; arithmetic that can leave the range is
  followed by \<open>wrap64\<close>.
\<close>

definition wrap64 :: "int \<Rightarrow> int" where
  "wrap64 x = (x + 2 ^ 63) mod 2 ^ 64 - 2 ^ 63"

definition wrap32 :: "int \<Rightarrow> int" where
  "wrap32 x = (x + 2 ^ 31) mod 2 ^ 32 - 2 ^ 31"

definition is_int64 :: "int \<Rightarrow> bool" where
  "is_int64 x \<longleftrightarrow> - (2 ^ 63) \<le> x \<and> x < 2 ^ 63"

lemma wrap64_id: "is_int64 x \<Longrightarrow> wrap64 x = x"
  by (simp add: wrap64_def is_int64_def)

lemma wrap64_range: "is_int64 (wrap64 x)"
proof -
  define m where "m = (x + 2 ^ 63) mod 2 ^ 64"
  have "0 \<le> m" "m < 2 ^ 64"
    unfolding m_def by (rule pos_mod_sign, simp, rule pos_mod_bound, simp)
  then show ?thesis
    unfolding wrap64_def is_int64_def m_def [symmetric] by simp
qed

lemma wrap32_id: "- (2 ^ 31) \<le> x \<Longrightarrow> x < 2 ^ 31 \<Longrightarrow> wrap32 x = x"
  by (simp add: wrap32_def)

section \<open>Strings\<close>

fun itoa_nat :: "nat \<Rightarrow> string" where
  "itoa_nat n = (if n < 10 then [''0123456789'' ! n]
                 else itoa_nat (n div 10) @ [''0123456789'' ! (n mod 10)])"

declare itoa_nat.simps [simp del]

text \<open>\<open>strconv.Itoa\<close> and the verb \<^verbatim>\<open>%d\<close>.\<close>

definition itoa :: "int \<Rightarrow> string" where
  "itoa i = (if i < 0 then ''-'' @ itoa_nat (nat (- i)) else itoa_nat (nat i))"

definition digit_val :: "char \<Rightarrow> nat option" where
  "digit_val c = map_of (zip ''0123456789'' [0..<10]) c"

fun digits_val :: "nat \<Rightarrow> string \<Rightarrow> nat option" where
  "digits_val acc [] = Some acc"
| "digits_val acc (c # cs) =
     (case digit_val c of None \<Rightarrow> None | Some d \<Rightarrow> digits_val (10 * acc + d) cs)"

text \<open>
  \<open>strconv.Atoi\<close>: an optional sign and at least one decimal digit, within the range of
  \<open>int\<close>; \<open>None\<close> is its error.
\<close>

definition atoi :: "string \<Rightarrow> int option" where
  "atoi s =
     (let (neg, ds) = (case s of c # cs \<Rightarrow> if c = CHR ''-'' then (True, cs)
                                          else if c = CHR ''+'' then (False, cs) else (False, s)
                       | [] \<Rightarrow> (False, s))
      in if ds = [] then None
         else case digits_val 0 ds of
                None \<Rightarrow> None
              | Some n \<Rightarrow>
                  let i = (if neg then - int n else int n)
                  in if is_int64 i then Some i else None)"

definition has_prefix :: "string \<Rightarrow> string \<Rightarrow> bool" where
  "has_prefix s p \<longleftrightarrow> take (length p) s = p"

definition trim_prefix :: "string \<Rightarrow> string \<Rightarrow> string" where
  "trim_prefix s p = (if has_prefix s p then drop (length p) s else s)"

fun contains_str :: "string \<Rightarrow> string \<Rightarrow> bool" where
  "contains_str [] p \<longleftrightarrow> p = []"
| "contains_str (c # cs) p \<longleftrightarrow> has_prefix (c # cs) p \<or> contains_str cs p"

text \<open>\<open>strings.Split\<close> with a one-byte separator.\<close>

fun split_str :: "char \<Rightarrow> string \<Rightarrow> string list" where
  "split_str sep [] = [[]]"
| "split_str sep (c # cs) =
     (if c = sep then [] # split_str sep cs
      else case split_str sep cs of [] \<Rightarrow> [[c]] | w # ws \<Rightarrow> (c # w) # ws)"

text \<open>\<open>strings.ToLower\<close> on ASCII; bytes outside ASCII are kept.\<close>

definition lower_char :: "char \<Rightarrow> char" where
  "lower_char c = (let n = of_char c :: nat in
     if 65 \<le> n \<and> n \<le> 90 then char_of (n + 32) else c)"

definition to_lower :: "string \<Rightarrow> string" where
  "to_lower s = map lower_char s"

text \<open>The bytes of a string, \<open>[]byte(s)\<close>.\<close>

definition bytes_of :: "string \<Rightarrow> bytes" where
  "bytes_of s = map of_char s"

definition string_of :: "bytes \<Rightarrow> string" where
  "string_of bs = map (\<lambda>b. char_of (unat b)) bs"

lemma length_bytes_of [simp]: "length (bytes_of s) = length s"
  by (simp add: bytes_of_def)

lemma bytes_of_Nil_iff [simp]: "bytes_of s = [] \<longleftrightarrow> s = []"
  by (simp add: bytes_of_def)

lemma unat_of_char_word: "unat (of_char c :: byte) = of_char c"
proof -
  have "unat (of_nat (of_char c) :: byte) = of_char c mod 256"
    by (simp add: unat_of_nat del: of_nat_of_char)
  then show ?thesis by (simp add: of_nat_of_char)
qed

lemma string_of_bytes_of [simp]: "string_of (bytes_of s) = s"
  by (simp add: string_of_def bytes_of_def unat_of_char_word o_def)

lemma split_str_not_Nil [simp]: "split_str sep s \<noteq> []"
  by (induction s) (auto split: list.splits)

lemma split_str_no_sep: "w \<in> set (split_str sep s) \<Longrightarrow> sep \<notin> set w"
  by (induction s arbitrary: w) (auto split: if_splits list.splits)

lemma contains_str_iff: "contains_str s p \<longleftrightarrow> (\<exists>u v. s = u @ p @ v)"
proof (induction s)
  case Nil
  then show ?case by auto
next
  case (Cons c cs)
  have "has_prefix (c # cs) p \<longleftrightarrow> (\<exists>v. c # cs = p @ v)"
    unfolding has_prefix_def by (metis append_eq_conv_conj append_take_drop_id)
  with Cons.IH show ?case
    by (auto simp: Cons_eq_append_conv)
qed

lemma has_prefix_append [simp]: "has_prefix (p @ s) p"
  by (simp add: has_prefix_def)

lemma trim_prefix_append [simp]: "trim_prefix (p @ s) p = s"
  by (simp add: trim_prefix_def)

subsection \<open>Decimal numbers read back\<close>

lemma digit_val_nth [simp]: "n < 10 \<Longrightarrow> digit_val (''0123456789'' ! n) = Some n"
  by (auto simp: less_Suc_eq numeral_eq_Suc digit_val_def)

lemma digits_val_snoc:
  "digits_val acc (xs @ [c]) =
     Option.bind (digits_val acc xs) (\<lambda>v. map_option (\<lambda>d. 10 * v + d) (digit_val c))"
  by (induction xs arbitrary: acc) (auto split: option.splits)

lemma digits_val_itoa_nat: "digits_val 0 (itoa_nat n) = Some n"
proof (induction n rule: less_induct)
  case (less n)
  show ?case
  proof (cases "n < 10")
    case True
    then show ?thesis by (simp add: itoa_nat.simps)
  next
    case False
    then have "digits_val 0 (itoa_nat (n div 10)) = Some (n div 10)" by (intro less.IH) simp
    with False show ?thesis by (simp add: itoa_nat.simps [of n] digits_val_snoc)
  qed
qed

lemma itoa_nat_not_Nil [simp]: "itoa_nat n \<noteq> []"
  by (simp add: itoa_nat.simps)

lemma digits_val_digits: "digits_val acc xs = Some v \<Longrightarrow> c \<in> set xs \<Longrightarrow> digit_val c \<noteq> None"
  by (induction xs arbitrary: acc) (auto split: option.splits)

lemma itoa_nat_digits: "c \<in> set (itoa_nat n) \<Longrightarrow> digit_val c \<noteq> None"
  by (rule digits_val_digits [OF digits_val_itoa_nat])

lemma itoa_of_nat: "itoa (int n) = itoa_nat n"
  by (simp add: itoa_def)

text \<open>\<open>Atoi\<close> reads back what \<open>Itoa\<close> wrote.\<close>

lemma atoi_itoa: "is_int64 i \<Longrightarrow> atoi (itoa i) = Some i"
proof -
  assume r: "is_int64 i"
  have h: "hd (itoa_nat n) \<notin> {CHR ''-'', CHR ''+''}" for n
    using itoa_nat_digits [OF hd_in_set [of "itoa_nat n"]] by (auto simp: digit_val_def)
  show ?thesis
  proof (cases "i < 0")
    case True
    with r show ?thesis by (simp add: atoi_def itoa_def digits_val_itoa_nat)
  next
    case False
    obtain c cs where c: "itoa_nat (nat i) = c # cs" by (cases "itoa_nat (nat i)") auto
    with h [of "nat i"] have "c \<noteq> CHR ''-''" "c \<noteq> CHR ''+''" by auto
    with False r c digits_val_itoa_nat [of "nat i"] show ?thesis
      by (simp add: atoi_def itoa_def)
  qed
qed

section \<open>Fixed-width big-endian integers\<close>

text \<open>
  \<open>be_bytes n v\<close> is what \<open>binary.BigEndian.PutUint16/32/64\<close> writes for \<open>n\<close> = 2, 4, 8: the
  \<open>n\<close> low bytes of \<open>v\<close>, the most significant first. \<open>be_val\<close> reads such a byte string back.
\<close>

fun be_bytes :: "nat \<Rightarrow> nat \<Rightarrow> bytes" where
  "be_bytes 0 v = []"
| "be_bytes (Suc n) v = be_bytes n (v div 256) @ [of_nat (v mod 256)]"

definition be_val :: "bytes \<Rightarrow> nat" where
  "be_val bs = foldl (\<lambda>acc b. 256 * acc + unat b) 0 bs"

lemma length_be_bytes [simp]: "length (be_bytes n v) = n"
  by (induction n arbitrary: v) auto

lemma be_val_snoc [simp]: "be_val (bs @ [b]) = 256 * be_val bs + unat b"
  by (simp add: be_val_def)

lemma be_val_Nil [simp]: "be_val [] = 0"
  by (simp add: be_val_def)

lemma be_val_be_bytes: "be_val (be_bytes n v) = v mod 256 ^ n"
proof (induction n arbitrary: v)
  case 0
  then show ?case by simp
next
  case (Suc n)
  have "unat (of_nat (v mod 256) :: byte) = v mod 256"
    by (simp add: unat_of_nat)
  with Suc show ?case
    by (simp add: mod_mult2_eq)
qed

lemma unat_byte_less [simp]: "unat (b :: byte) < 256"
  using unsigned_less [of b, where 'a = nat] by simp

lemma be_val_bound: "be_val bs < 256 ^ length bs"
proof (induction bs rule: rev_induct)
  case Nil
  then show ?case by simp
next
  case (snoc b bs)
  then show ?case using unat_byte_less [of b] by (simp del: unat_byte_less)
qed

lemma be_val_Cons: "be_val (b # bs) = unat b * 256 ^ length bs + be_val bs"
  by (induction bs rule: rev_induct) (simp_all add: be_val_def algebra_simps)

text \<open>
  On byte strings of one length the lexicographic order, which is the order a B+tree keeps its
  keys in, is the order of the numbers they encode.
\<close>

lemma be_val_less_iff:
  "length xs = length ys \<Longrightarrow> xs < ys \<longleftrightarrow> be_val xs < be_val ys"
proof (induction xs ys rule: list_induct2)
  case Nil
  then show ?case by simp
next
  case (Cons x xs y ys)
  let ?B = "256 ^ length ys :: nat"
  have bx: "be_val xs < ?B" and yB: "be_val ys < ?B"
    using be_val_bound [of xs] be_val_bound [of ys] Cons.hyps by simp_all
  consider "unat x < unat y" | "unat x = unat y" | "unat y < unat x" by linarith
  then show ?case
  proof cases
    case 1
    then have "(unat x + 1) * ?B \<le> unat y * ?B"
      by (intro mult_le_mono1) simp
    then have "unat x * ?B + be_val xs < unat y * ?B + be_val ys"
      using bx by (simp add: algebra_simps)
    with 1 Cons.hyps show ?thesis
      by (simp add: be_val_Cons word_less_nat_alt)
  next
    case 2
    then show ?thesis using Cons by (simp add: be_val_Cons word_unat_eq_iff word_less_nat_alt)
  next
    case 3
    then have "(unat y + 1) * ?B \<le> unat x * ?B"
      by (intro mult_le_mono1) simp
    then have "unat y * ?B + be_val ys < unat x * ?B + be_val xs"
      using yB by (simp add: algebra_simps)
    with 3 Cons.hyps show ?thesis
      by (auto simp: be_val_Cons word_less_nat_alt)
  qed
qed

section \<open>Hexadecimal\<close>

text \<open>The verb \<^verbatim>\<open>%02x\<close> on a byte.\<close>

definition hex_byte :: "byte \<Rightarrow> string" where
  "hex_byte b = [''0123456789abcdef'' ! (unat b div 16), ''0123456789abcdef'' ! (unat b mod 16)]"

lemma length_hex_byte [simp]: "length (hex_byte b) = 2"
  by (simp add: hex_byte_def)

section \<open>Addresses\<close>

text \<open>\<^verbatim>\<open>fmt.Sprintf("%s:%d", host, port)\<close>.\<close>

definition host_port :: "string \<Rightarrow> int \<Rightarrow> string" where
  "host_port host port = host @ '':'' @ itoa port"

section \<open>Lists\<close>

text \<open>Removing the first element that satisfies a predicate, and what is left.\<close>

fun remove_first :: "('a \<Rightarrow> bool) \<Rightarrow> 'a list \<Rightarrow> 'a list" where
  "remove_first p [] = []"
| "remove_first p (x # xs) = (if p x then xs else x # remove_first p xs)"

lemma remove_first_split:
  "\<forall>x \<in> set us. \<not> p x \<Longrightarrow> p y \<Longrightarrow> remove_first p (us @ y # vs) = us @ vs"
  by (induction us) auto

lemma length_remove_first: "length (remove_first p xs) \<le> length xs"
  by (induction xs) auto

lemma set_remove_first: "set (remove_first p xs) \<subseteq> set xs"
  by (induction xs) auto

lemma find_split:
  "List.find p xs = Some y \<Longrightarrow>
     \<exists>us vs. xs = us @ y # vs \<and> (\<forall>x \<in> set us. \<not> p x) \<and> p y"
proof (induction xs)
  case Nil
  then show ?case by simp
next
  case (Cons x xs)
  show ?case
  proof (cases "p x")
    case True
    with Cons.prems have "x # xs = [] @ y # xs" "p y" by auto
    then show ?thesis by (intro exI [of _ "[]"] exI [of _ xs]) simp
  next
    case False
    with Cons obtain us vs where "xs = us @ y # vs" "\<forall>x \<in> set us. \<not> p x" "p y" by auto
    with False show ?thesis by (intro exI [of _ "x # us"] exI [of _ vs]) auto
  qed
qed

end
