(* ===== verification/Domain.thy ===== *)
theory Domain
  imports Prelude
begin

text \<open>
  The domain objects of \<^verbatim>\<open>src/internal/domain/domain.go\<close>. Go declares the enumerations as string
  types with named constants and decodes any string from JSON, so the model keeps them as strings
  with one definition per constant (collected in \<open>go_consts\<close>); the structs are records whose fields
  carry the struct's initial.
\<close>

section \<open>Enumerations\<close>

type_synonym Protocol = string

definition ProtocolRAW :: Protocol where [go_consts]: "ProtocolRAW = ''RAW''"
definition ProtocolLPR :: Protocol where [go_consts]: "ProtocolLPR = ''LPR''"
definition ProtocolIPP :: Protocol where [go_consts]: "ProtocolIPP = ''IPP''"
definition ProtocolCUPS :: Protocol where [go_consts]: "ProtocolCUPS = ''CUPS''"
definition ProtocolUnknown :: Protocol where [go_consts]: "ProtocolUnknown = ''UNKNOWN''"

type_synonym DeviceStatus = string

definition DeviceStatusOnline :: DeviceStatus where [go_consts]: "DeviceStatusOnline = ''ONLINE''"
definition DeviceStatusOffline :: DeviceStatus where [go_consts]: "DeviceStatusOffline = ''OFFLINE''"
definition DeviceStatusProbeFailed :: DeviceStatus where
  [go_consts]: "DeviceStatusProbeFailed = ''PROBE_FAILED''"

type_synonym TaskStatus = string

definition TaskStatusPending :: TaskStatus where [go_consts]: "TaskStatusPending = ''PENDING''"
definition TaskStatusRunning :: TaskStatus where [go_consts]: "TaskStatusRunning = ''RUNNING''"
definition TaskStatusSuccess :: TaskStatus where [go_consts]: "TaskStatusSuccess = ''SUCCESS''"
definition TaskStatusFailed :: TaskStatus where [go_consts]: "TaskStatusFailed = ''FAILED''"
definition TaskStatusRetrying :: TaskStatus where [go_consts]: "TaskStatusRetrying = ''RETRYING''"
definition TaskStatusCancelled :: TaskStatus where [go_consts]: "TaskStatusCancelled = ''CANCELLED''"

definition TaskStatus_IsTerminal :: "TaskStatus \<Rightarrow> bool" where
  "TaskStatus_IsTerminal s \<longleftrightarrow>
     s = TaskStatusSuccess \<or> s = TaskStatusFailed \<or> s = TaskStatusCancelled"

type_synonym NetClass = string

definition NetClassOK :: NetClass where [go_consts]: "NetClassOK = ''OK''"
definition NetClassLocalNetFail :: NetClass where [go_consts]: "NetClassLocalNetFail = ''LOCAL_NET_FAIL''"
definition NetClassCloudGatewayUnreachable :: NetClass where
  [go_consts]: "NetClassCloudGatewayUnreachable = ''CLOUD_GATEWAY_UNREACHABLE''"
definition NetClassDNSResolveFail :: NetClass where
  [go_consts]: "NetClassDNSResolveFail = ''DNS_RESOLVE_FAIL''"

definition NetClass_IsOK :: "NetClass \<Rightarrow> bool" where
  "NetClass_IsOK c \<longleftrightarrow> c = NetClassOK"

definition NetClass_IsLocalFail :: "NetClass \<Rightarrow> bool" where
  "NetClass_IsLocalFail c \<longleftrightarrow> c = NetClassLocalNetFail"

type_synonym CloudProtocol = string

definition CloudProtocolWSS :: CloudProtocol where [go_consts]: "CloudProtocolWSS = ''wss''"
definition CloudProtocolHTTPS :: CloudProtocol where [go_consts]: "CloudProtocolHTTPS = ''https''"

section \<open>Devices and print tasks\<close>

record Device =
  d_DeviceID :: string
  d_Name :: string
  d_IP :: string
  d_Hostname :: string
  d_Model :: string
  d_Protocol :: Protocol
  d_Status :: DeviceStatus
  d_Factory :: string
  d_Port :: int
  d_LastProbeAt :: gotime
  d_CreatedAt :: gotime
  d_UpdatedAt :: gotime

definition DefaultPort :: "Device \<Rightarrow> int" where
  "DefaultPort d =
     (if 0 < d_Port d then d_Port d
      else if d_Protocol d = ProtocolRAW then 9100
      else if d_Protocol d = ProtocolLPR then 515
      else if d_Protocol d = ProtocolIPP then 631
      else if d_Protocol d = ProtocolCUPS then 0
      else 0)"

record PrintParams =
  pp_Copies :: int
  pp_Orientation :: string
  pp_Extra :: "string \<rightharpoonup> string"

record PrintTask =
  t_TaskID :: string
  t_DeviceID :: string
  t_DocumentRef :: string
  t_Checksum :: string
  t_Params :: PrintParams
  t_Status :: TaskStatus
  t_RetryCount :: int
  t_TraceID :: string
  t_ReceivedAt :: gotime
  t_StartedAt :: gotime
  t_FinishedAt :: gotime
  t_NextRetryAt :: gotime
  t_ErrorCode :: string
  t_ErrorMsg :: string
  t_SeqNo :: int
  t_Content :: bytes

text \<open>The zero values a Go declaration \<open>var x T\<close> starts from.\<close>

definition zero_Device :: Device where
  "zero_Device = \<lparr>d_DeviceID = [], d_Name = [], d_IP = [], d_Hostname = [], d_Model = [],
     d_Protocol = [], d_Status = [], d_Factory = [], d_Port = 0, d_LastProbeAt = 0,
     d_CreatedAt = 0, d_UpdatedAt = 0\<rparr>"

definition zero_PrintTask :: PrintTask where
  "zero_PrintTask = \<lparr>t_TaskID = [], t_DeviceID = [], t_DocumentRef = [], t_Checksum = [],
     t_Params = \<lparr>pp_Copies = 0, pp_Orientation = [], pp_Extra = Map.empty\<rparr>, t_Status = [],
     t_RetryCount = 0, t_TraceID = [], t_ReceivedAt = 0, t_StartedAt = 0, t_FinishedAt = 0,
     t_NextRetryAt = 0, t_ErrorCode = [], t_ErrorMsg = [], t_SeqNo = 0, t_Content = []\<rparr>"

section \<open>Configuration\<close>

record CloudConfig =
  cc_Endpoint :: string
  cc_Protocol :: CloudProtocol
  cc_DerivedURL :: string
  cc_AgentID :: string

record OpsConfig =
  oc_Port :: int

record StorageConfig =
  sc_DataDir :: string
  sc_LogDir :: string

record LogConfig =
  lc_Level :: string
  lc_RetentionDays :: int
  lc_MaxSizeMB :: int

record AgentConfig =
  c_ConfigVersion :: int
  c_Cloud :: CloudConfig
  c_Ops :: OpsConfig
  c_Storage :: StorageConfig
  c_Log :: LogConfig
  c_Devices :: "Device list"
  c_HeartbeatInterval :: duration
  c_MaxRetry :: int
  c_RetryInitDelay :: duration
  c_QueueCapacity :: int
  c_RetryMaxBackoff :: duration
  c_PrintSendTimeout :: duration
  c_CloudOutboundPort :: int

definition ApplyFixedDefaults :: "AgentConfig \<Rightarrow> AgentConfig" where
  "ApplyFixedDefaults c = c\<lparr>
     c_HeartbeatInterval := 30 * Second,
     c_MaxRetry := 3,
     c_RetryInitDelay := 5 * Second,
     c_QueueCapacity := 100,
     c_RetryMaxBackoff := 300 * Second,
     c_PrintSendTimeout := 60 * Second,
     c_CloudOutboundPort := 443\<rparr>"

definition DeriveCloudURL :: "AgentConfig \<Rightarrow> string" where
  "DeriveCloudURL c = cc_Protocol (c_Cloud c) @ ''://'' @ cc_Endpoint (c_Cloud c)"

record Credentials =
  cr_DeviceToken :: string
  cr_MTLSCert :: string
  cr_MTLSKey :: string

record NetTopology =
  nt_Endpoint :: string
  nt_ResolvedIP :: string
  nt_DNSLatencyMs :: int
  nt_GatewayIP :: string
  nt_GatewayReach :: bool
  nt_LocalNetReach :: bool
  nt_NetClass :: NetClass
  nt_LastCheckAt :: gotime

section \<open>Messages to and from the cloud\<close>

record HeartbeatPayload =
  hp_AgentID :: string
  hp_Version :: string
  hp_OnlineDevices :: int
  hp_PendingTasks :: int
  hp_CloudEndpoint :: string
  hp_NetClass :: NetClass
  hp_Timestamp :: gotime

record TaskResultPayload =
  tr_TaskID :: string
  tr_DeviceID :: string
  tr_Status :: TaskStatus
  tr_RetryCount :: int
  tr_ErrorCode :: string
  tr_ErrorMsg :: string
  tr_FinishedAt :: gotime

record DeviceStatusPayload =
  ds_DeviceID :: string
  ds_Status :: DeviceStatus
  ds_Protocol :: Protocol
  ds_LastProbeAt :: gotime

record NetEventPayload =
  ne_Class :: NetClass
  ne_Endpoint :: string
  ne_Detail :: string
  ne_TS :: gotime

record ConfigAckPayload =
  ca_Applied :: bool
  ca_Reason :: string
  ca_Field :: string

record TaskAckPayload =
  ta_TaskID :: string
  ta_Accepted :: bool
  ta_Reason :: string

text \<open>
  An outgoing payload is the struct that is marshalled; a payload that came from the cloud is raw
  JSON, which the handlers decode.
\<close>

datatype Payload =
    PHeartbeat HeartbeatPayload
  | PTaskResult TaskResultPayload
  | PDeviceStatus DeviceStatusPayload
  | PNetEvent NetEventPayload
  | PConfigAck ConfigAckPayload
  | PTaskAck TaskAckPayload
  | PRaw bytes

record Envelope =
  e_Type :: string
  e_TraceID :: string
  e_TS :: gotime
  e_Payload :: Payload

definition Version :: string where [go_consts]: "Version = ''0.1.0''"

section \<open>Properties\<close>

lemma TaskStatus_terminal_simps [simp]:
  "TaskStatus_IsTerminal TaskStatusSuccess"
  "TaskStatus_IsTerminal TaskStatusFailed"
  "TaskStatus_IsTerminal TaskStatusCancelled"
  "\<not> TaskStatus_IsTerminal TaskStatusPending"
  "\<not> TaskStatus_IsTerminal TaskStatusRunning"
  "\<not> TaskStatus_IsTerminal TaskStatusRetrying"
  "\<not> TaskStatus_IsTerminal []"
  by (simp_all add: TaskStatus_IsTerminal_def go_consts)

lemma TaskStatus_distinct [simp]:
  "distinct [TaskStatusPending, TaskStatusRunning, TaskStatusSuccess, TaskStatusFailed,
             TaskStatusRetrying, TaskStatusCancelled]"
  by (simp add: go_consts)

lemma NetClass_distinct [simp]:
  "NetClassOK \<noteq> NetClassLocalNetFail" "NetClassOK \<noteq> NetClassDNSResolveFail"
  "NetClassOK \<noteq> NetClassCloudGatewayUnreachable"
  "NetClassLocalNetFail \<noteq> NetClassDNSResolveFail"
  "NetClassLocalNetFail \<noteq> NetClassCloudGatewayUnreachable"
  "NetClassDNSResolveFail \<noteq> NetClassCloudGatewayUnreachable"
  "NetClassOK \<noteq> []" "NetClassLocalNetFail \<noteq> []" "NetClassDNSResolveFail \<noteq> []"
  "NetClassCloudGatewayUnreachable \<noteq> []"
  by (simp_all add: go_consts)

lemma DefaultPort_configured: "0 < d_Port d \<Longrightarrow> DefaultPort d = d_Port d"
  by (simp add: DefaultPort_def)

lemma DefaultPort_nonneg: "0 \<le> DefaultPort d"
  by (simp add: DefaultPort_def)

lemma ApplyFixedDefaults_idem: "ApplyFixedDefaults (ApplyFixedDefaults c) = ApplyFixedDefaults c"
  by (simp add: ApplyFixedDefaults_def)

end
