(* ===== verification/Errs.thy ===== *)
theory Errs
  imports Domain
begin

text \<open>
  \<^verbatim>\<open>src/internal/errs/errs.go\<close>: the agent's error codes, the error type \<open>AgentError\<close> with its
  cause chain, and the classifications the other components ask for. A Go \<open>error\<close> is a value of
  \<open>goerror\<close>: an \<open>AgentError\<close>, an error that wraps another with \<^verbatim>\<open>fmt.Errorf("...: %w", err)\<close>, or any
  error of the runtime or a library, of which only the text is known.
\<close>

section \<open>Error codes\<close>

datatype ErrorCode =
    ErrAuthInvalid | ErrAuthMissing
  | ErrDNSResolveFail | ErrCloudGatewayUnreachable | ErrLocalNetFail | ErrTLSVerifyFail
  | ErrDomainUpdateFail | ErrWSSHandshakeFail | ErrCloudDisconnected
  | ErrTaskDataInvalid | ErrTaskNotFound | ErrTaskCancelFail | ErrTaskTimeout
  | ErrDeviceNotFound | ErrDeviceOffline | ErrDeviceIDConflict | ErrDeviceFieldInvalid
  | ErrQueueFull | ErrQueueEmpty
  | ErrConfigInvalid | ErrConfigMissing | ErrConfigVersion
  | ErrCredentialInvalid | ErrCredentialMissing
  | ErrStorageIO | ErrStorageCorrupt
  | ErrProtocolProbeFail | ErrProtocolSendFail
  | ErrOpsAccessDenied
  | ErrUpgradeDownload | ErrUpgradeVerify | ErrUpgradeRollback

text \<open>The string behind each constant, as \<open>string(code)\<close> gives it.\<close>

fun ErrorCode_string :: "ErrorCode \<Rightarrow> string" where
  "ErrorCode_string ErrAuthInvalid = ''AUTH_INVALID''"
| "ErrorCode_string ErrAuthMissing = ''AUTH_MISSING''"
| "ErrorCode_string ErrDNSResolveFail = ''DNS_RESOLVE_FAIL''"
| "ErrorCode_string ErrCloudGatewayUnreachable = ''CLOUD_GATEWAY_UNREACHABLE''"
| "ErrorCode_string ErrLocalNetFail = ''LOCAL_NET_FAIL''"
| "ErrorCode_string ErrTLSVerifyFail = ''TLS_VERIFY_FAIL''"
| "ErrorCode_string ErrDomainUpdateFail = ''DOMAIN_UPDATE_FAIL''"
| "ErrorCode_string ErrWSSHandshakeFail = ''WSS_HANDSHAKE_FAIL''"
| "ErrorCode_string ErrCloudDisconnected = ''CLOUD_DISCONNECTED''"
| "ErrorCode_string ErrTaskDataInvalid = ''TASK_DATA_INVALID''"
| "ErrorCode_string ErrTaskNotFound = ''TASK_NOT_FOUND''"
| "ErrorCode_string ErrTaskCancelFail = ''TASK_CANCEL_FAIL''"
| "ErrorCode_string ErrTaskTimeout = ''TASK_TIMEOUT''"
| "ErrorCode_string ErrDeviceNotFound = ''DEVICE_NOT_FOUND''"
| "ErrorCode_string ErrDeviceOffline = ''DEVICE_OFFLINE''"
| "ErrorCode_string ErrDeviceIDConflict = ''DEVICE_ID_CONFLICT''"
| "ErrorCode_string ErrDeviceFieldInvalid = ''DEVICE_FIELD_INVALID''"
| "ErrorCode_string ErrQueueFull = ''QUEUE_FULL''"
| "ErrorCode_string ErrQueueEmpty = ''QUEUE_EMPTY''"
| "ErrorCode_string ErrConfigInvalid = ''CONFIG_INVALID''"
| "ErrorCode_string ErrConfigMissing = ''CONFIG_MISSING''"
| "ErrorCode_string ErrConfigVersion = ''CONFIG_VERSION''"
| "ErrorCode_string ErrCredentialInvalid = ''CREDENTIAL_INVALID''"
| "ErrorCode_string ErrCredentialMissing = ''CREDENTIAL_MISSING''"
| "ErrorCode_string ErrStorageIO = ''STORAGE_IO''"
| "ErrorCode_string ErrStorageCorrupt = ''STORAGE_CORRUPT''"
| "ErrorCode_string ErrProtocolProbeFail = ''PROTOCOL_PROBE_FAIL''"
| "ErrorCode_string ErrProtocolSendFail = ''PROTOCOL_SEND_FAIL''"
| "ErrorCode_string ErrOpsAccessDenied = ''OPS_ACCESS_DENIED''"
| "ErrorCode_string ErrUpgradeDownload = ''UPGRADE_DOWNLOAD''"
| "ErrorCode_string ErrUpgradeVerify = ''UPGRADE_VERIFY''"
| "ErrorCode_string ErrUpgradeRollback = ''UPGRADE_ROLLBACK''"

section \<open>Errors and their cause chain\<close>

datatype goerror =
    AgentError (err_Code: ErrorCode) (err_Message: string) (err_Cause: "goerror option")
      (err_NetClass: NetClass)
  | FmtError string goerror
  | PlainError string

text \<open>\<open>Error()\<close>: the text of an error.\<close>

fun Error :: "goerror \<Rightarrow> string" where
  "Error (AgentError c m None nc) = ''['' @ ErrorCode_string c @ ''] '' @ m"
| "Error (AgentError c m (Some e) nc) = ''['' @ ErrorCode_string c @ ''] '' @ m @ '': '' @ Error e"
| "Error (FmtError m e) = m @ '': '' @ Error e"
| "Error (PlainError m) = m"

fun Unwrap :: "goerror \<Rightarrow> goerror option" where
  "Unwrap (AgentError c m e nc) = e"
| "Unwrap (FmtError m e) = Some e"
| "Unwrap (PlainError m) = None"

text \<open>\<open>errors.As(err, &ae)\<close>: the first \<open>AgentError\<close> on the chain, as its code and class.\<close>

fun errors_As :: "goerror \<Rightarrow> (ErrorCode \<times> NetClass) option" where
  "errors_As (AgentError c m e nc) = Some (c, nc)"
| "errors_As (FmtError m e) = errors_As e"
| "errors_As (PlainError m) = None"

text \<open>The method \<open>Is\<close> of \<open>AgentError\<close>; \<open>False\<close> for an error without it.\<close>

fun AgentError_Is :: "goerror \<Rightarrow> goerror \<Rightarrow> bool" where
  "AgentError_Is (AgentError c m e nc) target =
     (case errors_As target of Some (c', _) \<Rightarrow> c = c' | None \<Rightarrow> False)"
| "AgentError_Is _ target = False"

section \<open>Constructors\<close>

definition New :: "ErrorCode \<Rightarrow> string \<Rightarrow> goerror" where
  "New code msg = AgentError code msg None []"

definition Wrap :: "ErrorCode \<Rightarrow> string \<Rightarrow> goerror \<Rightarrow> goerror" where
  "Wrap code msg cause = AgentError code msg (Some cause) []"

fun WithNetClass :: "goerror \<Rightarrow> NetClass \<Rightarrow> goerror" where
  "WithNetClass (AgentError c m e nc) cls = AgentError c m e cls"
| "WithNetClass e cls = e"

definition NewNetError :: "ErrorCode \<Rightarrow> string \<Rightarrow> NetClass \<Rightarrow> goerror" where
  "NewNetError code msg cls = AgentError code msg None cls"

definition WrapNetError :: "ErrorCode \<Rightarrow> string \<Rightarrow> goerror \<Rightarrow> NetClass \<Rightarrow> goerror" where
  "WrapNetError code msg cause cls = AgentError code msg (Some cause) cls"

section \<open>Classification\<close>

definition IsRetryable :: "goerror \<Rightarrow> bool" where
  "IsRetryable err =
     (case errors_As err of
        None \<Rightarrow> False
      | Some (code, _) \<Rightarrow>
          code \<in> {ErrCloudGatewayUnreachable, ErrDNSResolveFail, ErrLocalNetFail, ErrWSSHandshakeFail,
                  ErrCloudDisconnected, ErrDeviceOffline, ErrTaskTimeout, ErrProtocolSendFail,
                  ErrStorageIO})"

definition IsTerminal :: "goerror \<Rightarrow> bool" where
  "IsTerminal err =
     (case errors_As err of
        None \<Rightarrow> False
      | Some (code, _) \<Rightarrow>
          code \<in> {ErrAuthInvalid, ErrAuthMissing, ErrTaskDataInvalid, ErrTaskNotFound,
                  ErrTaskCancelFail, ErrDeviceNotFound, ErrDeviceIDConflict, ErrDeviceFieldInvalid,
                  ErrQueueFull, ErrConfigInvalid, ErrConfigMissing, ErrCredentialInvalid,
                  ErrCredentialMissing, ErrStorageCorrupt, ErrProtocolProbeFail, ErrOpsAccessDenied,
                  ErrTLSVerifyFail})"

definition IsNetError :: "goerror \<Rightarrow> bool" where
  "IsNetError err =
     (case errors_As err of
        None \<Rightarrow> False
      | Some (code, _) \<Rightarrow>
          code \<in> {ErrDNSResolveFail, ErrCloudGatewayUnreachable, ErrLocalNetFail,
                  ErrCloudDisconnected, ErrWSSHandshakeFail})"

definition NetClassFromErr :: "goerror \<Rightarrow> NetClass" where
  "NetClassFromErr err =
     (case errors_As err of
        None \<Rightarrow> NetClassOK
      | Some (code, nc) \<Rightarrow>
          if nc \<noteq> [] then nc
          else if code = ErrDNSResolveFail then NetClassDNSResolveFail
          else if code = ErrCloudGatewayUnreachable then NetClassCloudGatewayUnreachable
          else if code = ErrLocalNetFail then NetClassLocalNetFail
          else NetClassOK)"

text \<open>\<open>CodeFromErr\<close>: the code, or \<open>None\<close> for the empty string the source returns.\<close>

definition CodeFromErr :: "goerror \<Rightarrow> ErrorCode option" where
  "CodeFromErr err = map_option fst (errors_As err)"

definition CodeFromErr_string :: "goerror \<Rightarrow> string" where
  "CodeFromErr_string err = (case CodeFromErr err of None \<Rightarrow> [] | Some c \<Rightarrow> ErrorCode_string c)"

lemmas err_defs = New_def Wrap_def NewNetError_def WrapNetError_def

section \<open>Properties\<close>

lemma errors_As_simps [simp]:
  "errors_As (New c m) = Some (c, [])"
  "errors_As (Wrap c m e) = Some (c, [])"
  "errors_As (NewNetError c m nc) = Some (c, nc)"
  "errors_As (WrapNetError c m e nc) = Some (c, nc)"
  by (simp_all add: err_defs)

lemma CodeFromErr_simps [simp]:
  "CodeFromErr (New c m) = Some c"
  "CodeFromErr (Wrap c m e) = Some c"
  "CodeFromErr (NewNetError c m nc) = Some c"
  "CodeFromErr (FmtError m e) = CodeFromErr e"
  "CodeFromErr (PlainError m) = None"
  by (simp_all add: CodeFromErr_def)

lemma Error_simps [simp]:
  "Error (New c m) = ''['' @ ErrorCode_string c @ ''] '' @ m"
  "Error (Wrap c m e) = ''['' @ ErrorCode_string c @ ''] '' @ m @ '': '' @ Error e"
  by (simp_all add: err_defs)

lemma ErrorCode_string_nonempty [simp]: "ErrorCode_string c \<noteq> []"
  by (cases c) simp_all

lemma CodeFromErr_string_empty_iff: "CodeFromErr_string e = [] \<longleftrightarrow> CodeFromErr e = None"
  by (simp add: CodeFromErr_string_def split: option.splits)

lemma NetClassFromErr_simps [simp]:
  "NetClassFromErr (New ErrCloudDisconnected m) = NetClassOK"
  "NetClassFromErr (NewNetError c m nc) = (if nc \<noteq> [] then nc else NetClassFromErr (New c m))"
  by (simp_all add: NetClassFromErr_def)

text \<open>
  Retryable and terminal are disjoint: no error, however deep the code sits in its cause
  chain, is both worth retrying and final. The codes that are in neither class are exactly the
  cloud-configuration, queue-empty, config-version and upgrade codes, and an error with no
  \<open>AgentError\<close> on its chain is in neither class.
\<close>

theorem retryable_terminal_partition:
  "\<not> (IsRetryable e \<and> IsTerminal e) \<and>
   (IsRetryable e \<or> IsTerminal e \<longleftrightarrow>
      (\<exists>c. CodeFromErr e = Some c \<and>
           c \<notin> {ErrDomainUpdateFail, ErrQueueEmpty, ErrConfigVersion, ErrUpgradeDownload,
                 ErrUpgradeVerify, ErrUpgradeRollback}))"
proof (cases "errors_As e")
  case None
  then show ?thesis by (simp add: IsRetryable_def IsTerminal_def CodeFromErr_def)
next
  case (Some p)
  obtain c nc where p: "p = (c, nc)" by (cases p)
  show ?thesis
    unfolding IsRetryable_def IsTerminal_def CodeFromErr_def Some p
    by (cases c) simp_all
qed

end
