(* ===== verification/Interfaces.thy ===== *)
theory Interfaces
  imports Errs
begin

text \<open>
  The interfaces between the components, as locales: the operations a client calls with the laws it
  relies on. The Go source names them as interface types (\<open>queueOps\<close>, \<open>deviceMutator\<close>,
  \<open>pendingCounter\<close>, \<open>deviceLister\<close>, \<open>PrintAdapter\<close>). Each is interpreted on the model of its
  provider, and the clients' lemmas are proved once, from the laws alone.
\<close>

section \<open>The queue as the dispatcher sees it\<close>

text \<open>
  \<open>queueOps\<close> of \<^verbatim>\<open>dispatcher.go\<close>: a rejected call leaves every pending list as it was; an accepted
  task joins the end of its device's list, with its identity kept; an accepted cancellation removes
  one pending task with the id.
\<close>

locale queue_ops =
  fixes enqueue :: "'q \<Rightarrow> PrintTask \<Rightarrow> goerror option \<times> 'q"
    and cancel :: "'q \<Rightarrow> string \<Rightarrow> string \<Rightarrow> goerror option \<times> 'q"
    and pending :: "'q \<Rightarrow> string \<Rightarrow> PrintTask list"
    and stored :: "PrintTask \<Rightarrow> PrintTask"
    and inv :: "'q \<Rightarrow> bool"
  assumes enqueue_inv: "inv q \<Longrightarrow> inv (snd (enqueue q t))"
    and cancel_inv: "inv q \<Longrightarrow> inv (snd (cancel q d i))"
    and enqueue_rejected: "inv q \<Longrightarrow> enqueue q t = (Some e, q') \<Longrightarrow> pending q' = pending q"
    and enqueue_accepted: "inv q \<Longrightarrow> enqueue q t = (None, q') \<Longrightarrow>
          pending q' = (pending q)(t_DeviceID t := pending q (t_DeviceID t) @ [stored t])"
    and stored_ids: "t_TaskID (stored t) = t_TaskID t" "t_DeviceID (stored t) = t_DeviceID t"
    and cancel_rejected: "inv q \<Longrightarrow> cancel q d i = (Some e, q') \<Longrightarrow> pending q' = pending q"
    and cancel_accepted: "inv q \<Longrightarrow> cancel q d i = (None, q') \<Longrightarrow>
          \<exists>us t vs. pending q d = us @ t # vs \<and> t_TaskID t = i \<and> t_Status t = TaskStatusPending \<and>
                    pending q' = (pending q)(d := us @ vs)"

section \<open>The device manager as the dispatcher and the heartbeat see it\<close>

text \<open>
  \<open>deviceMutator\<close> of \<^verbatim>\<open>dispatcher.go\<close>: a rejected call changes nothing; an accepted \<open>Add\<close> is about an
  unknown id, an accepted \<open>Update\<close> or \<open>Remove\<close> about a known one, and each changes that entry only.
\<close>

locale device_mutator =
  fixes add :: "'m \<Rightarrow> Device \<Rightarrow> goerror option \<times> 'm"
    and update :: "'m \<Rightarrow> Device \<Rightarrow> goerror option \<times> 'm"
    and remove :: "'m \<Rightarrow> string \<Rightarrow> goerror option \<times> 'm"
    and lookup :: "'m \<Rightarrow> string \<Rightarrow> Device option"
    and inv :: "'m \<Rightarrow> bool"
  assumes add_inv: "inv m \<Longrightarrow> inv (snd (add m d))"
    and update_inv: "inv m \<Longrightarrow> inv (snd (update m d))"
    and remove_inv: "inv m \<Longrightarrow> inv (snd (remove m i))"
    and add_rejected: "add m d = (Some e, m') \<Longrightarrow> m' = m"
    and update_rejected: "update m d = (Some e, m') \<Longrightarrow> m' = m"
    and remove_rejected: "remove m i = (Some e, m') \<Longrightarrow> m' = m"
    and add_accepted: "inv m \<Longrightarrow> add m d = (None, m') \<Longrightarrow> lookup m (d_DeviceID d) = None \<and>
          (\<exists>x. d_DeviceID x = d_DeviceID d \<and> lookup m' = (lookup m)(d_DeviceID d \<mapsto> x))"
    and update_accepted: "inv m \<Longrightarrow> update m d = (None, m') \<Longrightarrow> lookup m (d_DeviceID d) \<noteq> None \<and>
          (\<exists>x. d_DeviceID x = d_DeviceID d \<and> lookup m' = (lookup m)(d_DeviceID d \<mapsto> x))"
    and remove_accepted: "inv m \<Longrightarrow> remove m i = (None, m') \<Longrightarrow> lookup m i \<noteq> None \<and>
          lookup m' = (lookup m)(i := None)"
begin

text \<open>One call changes at most the entry it names.\<close>

lemma add_frame: "inv m \<Longrightarrow> i \<noteq> d_DeviceID d \<Longrightarrow> lookup (snd (add m d)) i = lookup m i"
  using add_accepted [of m d "snd (add m d)"] add_rejected [of m d _ "snd (add m d)"]
  by (cases "add m d"; cases "fst (add m d)") auto

lemma update_frame: "inv m \<Longrightarrow> i \<noteq> d_DeviceID d \<Longrightarrow> lookup (snd (update m d)) i = lookup m i"
  using update_accepted [of m d "snd (update m d)"] update_rejected [of m d _ "snd (update m d)"]
  by (cases "update m d"; cases "fst (update m d)") auto

lemma remove_frame: "inv m \<Longrightarrow> i \<noteq> j \<Longrightarrow> lookup (snd (remove m j)) i = lookup m i"
  using remove_accepted [of m j "snd (remove m j)"] remove_rejected [of m j _ "snd (remove m j)"]
  by (cases "remove m j"; cases "fst (remove m j)") auto

end

text \<open>
  \<open>deviceLister\<close> and \<open>pendingCounter\<close> of \<^verbatim>\<open>heartbeat.go\<close>: the devices are listed once each, in some
  order; a count is the length of the pending list.
\<close>

locale device_lister =
  fixes lister :: "'m \<Rightarrow> Device list"
    and lookup :: "'m \<Rightarrow> string \<Rightarrow> Device option"
    and inv :: "'m \<Rightarrow> bool"
  assumes list_ids: "inv m \<Longrightarrow> distinct (map d_DeviceID (lister m))"
    and list_mem: "inv m \<Longrightarrow> d \<in> set (lister m) \<longleftrightarrow> lookup m (d_DeviceID d) = Some d"

locale pending_counter =
  fixes count :: "'q \<Rightarrow> string \<Rightarrow> int"
    and pending :: "'q \<Rightarrow> string \<Rightarrow> PrintTask list"
  assumes count_length: "count q d = int (length (pending q d))"

section \<open>A print adapter as the executor sees it\<close>

text \<open>
  \<open>PrintAdapter\<close> of \<^verbatim>\<open>adapter.go\<close>: a send that fails reports that it could not send, or that the
  time was over. The executor decides on the code alone.
\<close>

locale print_adapter =
  fixes send :: "'env \<Rightarrow> string \<Rightarrow> int \<Rightarrow> goerror + bytes \<Rightarrow> PrintParams \<Rightarrow> goerror option"
  assumes send_code: "send env ip port data params = Some e \<Longrightarrow>
            CodeFromErr e = Some ErrProtocolSendFail \<or> CodeFromErr e = Some ErrTaskTimeout"
begin

lemma send_retryable:
  "send env ip port data params = Some e \<Longrightarrow> IsRetryable e \<and> \<not> IsTerminal e"
  using send_code [of env ip port data params e]
  by (auto simp: IsRetryable_def IsTerminal_def CodeFromErr_def split: option.splits)

end

end
