(* ===== verification/Storage.thy ===== *)
theory Storage
  imports Errs
begin

text \<open>
  \<^verbatim>\<open>src/internal/storage\<close>: the persistent task repository over the embedded key-value store bbolt.
  bbolt is a third-party package and a parameter of the model: the record \<open>bbolt\<close> holds the
  operations the repository calls, on a database of any type, and \<open>bbolt_laws\<close> states the behaviour
  bbolt documents for them. The codec of \<open>encoding/gob\<close> is a parameter with its round-trip law.
  The properties show that a saved task is loaded back, that a bucket is read in the order of the
  sequence numbers, what saving twice under one number does, and that recovery finds exactly the
  interrupted tasks and leaves none behind.
\<close>

section \<open>The key-value store and the codec\<close>

text \<open>
  \<open>bb_View db\<close> is the error of opening a read transaction, if any; \<open>bb_Update db f\<close> runs \<open>f\<close> in a
  write transaction and returns its error and the database after it; \<open>bb_buckets\<close> lists the
  bucket names and \<open>bb_pairs\<close> the entries of a bucket in the order of \<open>ForEach\<close> and of a cursor.
\<close>

record 'db bbolt =
  bb_View :: "'db \<Rightarrow> goerror option"
  bb_Update :: "'db \<Rightarrow> ('db \<Rightarrow> goerror + 'db) \<Rightarrow> goerror option \<times> 'db"
  bb_buckets :: "'db \<Rightarrow> bytes list"
  bb_pairs :: "'db \<Rightarrow> bytes \<Rightarrow> (bytes \<times> bytes) list"
  bb_create :: "'db \<Rightarrow> bytes \<Rightarrow> goerror + 'db"
  bb_put :: "'db \<Rightarrow> bytes \<Rightarrow> bytes \<Rightarrow> bytes \<Rightarrow> goerror + 'db"
  bb_delete :: "'db \<Rightarrow> bytes \<Rightarrow> bytes \<Rightarrow> goerror + 'db"

text \<open>
  What bbolt documents: a failed \<open>Update\<close> rolls everything back and a successful one commits what
  its function returned; keys are unique and iterated in byte order; \<open>CreateBucketIfNotExists\<close>,
  \<open>Put\<close> and \<open>Delete\<close> change only what they name.
\<close>

definition update_law :: "'db bbolt \<Rightarrow> bool" where
  "update_law b \<longleftrightarrow>
     (\<forall>db f db'. bb_Update b db f = (None, db') \<longrightarrow> f db = Inr db') \<and>
     (\<forall>db f e db'. bb_Update b db f = (Some e, db') \<longrightarrow> db' = db)"

definition order_law :: "'db bbolt \<Rightarrow> bool" where
  "order_law b \<longleftrightarrow>
     (\<forall>db n. sorted_wrt (<) (map fst (bb_pairs b db n))) \<and> (\<forall>db. distinct (bb_buckets b db))"

definition create_law :: "'db bbolt \<Rightarrow> bool" where
  "create_law b \<longleftrightarrow> (\<forall>db n db'. bb_create b db n = Inr db' \<longrightarrow>
     set (bb_buckets b db') = insert n (set (bb_buckets b db)) \<and>
     bb_pairs b db' n = (if n \<in> set (bb_buckets b db) then bb_pairs b db n else []) \<and>
     (\<forall>m. m \<noteq> n \<longrightarrow> bb_pairs b db' m = bb_pairs b db m))"

definition put_law :: "'db bbolt \<Rightarrow> bool" where
  "put_law b \<longleftrightarrow> (\<forall>db n k v db'. n \<in> set (bb_buckets b db) \<longrightarrow> bb_put b db n k v = Inr db' \<longrightarrow>
     bb_buckets b db' = bb_buckets b db \<and>
     map_of (bb_pairs b db' n) = (map_of (bb_pairs b db n))(k \<mapsto> v) \<and>
     (\<forall>m. m \<noteq> n \<longrightarrow> bb_pairs b db' m = bb_pairs b db m))"

definition delete_law :: "'db bbolt \<Rightarrow> bool" where
  "delete_law b \<longleftrightarrow> (\<forall>db n k db'. n \<in> set (bb_buckets b db) \<longrightarrow> bb_delete b db n k = Inr db' \<longrightarrow>
     bb_buckets b db' = bb_buckets b db \<and>
     map_of (bb_pairs b db' n) = (map_of (bb_pairs b db n))(k := None) \<and>
     (\<forall>m. m \<noteq> n \<longrightarrow> bb_pairs b db' m = bb_pairs b db m))"

definition bbolt_laws :: "'db bbolt \<Rightarrow> bool" where
  "bbolt_laws b \<longleftrightarrow> update_law b \<and> order_law b \<and> create_law b \<and> put_law b \<and> delete_law b"

lemma bbolt_lawsD:
  assumes "bbolt_laws b"
  shows "update_law b" "order_law b" "create_law b" "put_law b" "delete_law b"
  using assms by (simp_all add: bbolt_laws_def)

record gob =
  gob_encode :: "PrintTask \<Rightarrow> goerror + bytes"
  gob_decode :: "bytes \<Rightarrow> goerror + PrintTask"

definition gob_laws :: "gob \<Rightarrow> bool" where
  "gob_laws g \<longleftrightarrow> (\<forall>t v. gob_encode g t = Inr v \<longrightarrow> gob_decode g v = Inr t)"

section \<open>The wrapper of the store\<close>

definition Bucket_Put :: "'db bbolt \<Rightarrow> bytes \<Rightarrow> 'db \<Rightarrow> bytes \<Rightarrow> bytes \<Rightarrow> goerror option \<times> 'db" where
  "Bucket_Put b name db key value =
     bb_Update b db (\<lambda>tx. case bb_create b tx name of
                            Inl err \<Rightarrow> Inl err
                          | Inr tx' \<Rightarrow> bb_put b tx' name key value)"

definition Bucket_Get :: "'db bbolt \<Rightarrow> bytes \<Rightarrow> 'db \<Rightarrow> bytes \<Rightarrow> goerror + bytes option" where
  "Bucket_Get b name db key =
     (case bb_View b db of
        Some err \<Rightarrow> Inl err
      | None \<Rightarrow> if name \<notin> set (bb_buckets b db) then Inr None
                else Inr (map_of (bb_pairs b db name) key))"

definition Bucket_Delete :: "'db bbolt \<Rightarrow> bytes \<Rightarrow> 'db \<Rightarrow> bytes \<Rightarrow> goerror option \<times> 'db" where
  "Bucket_Delete b name db key =
     bb_Update b db (\<lambda>tx. if name \<notin> set (bb_buckets b tx) then Inr tx
                          else bb_delete b tx name key)"

text \<open>\<open>ForEach\<close> with a callback that updates an accumulator and may fail.\<close>

fun foreach_pairs :: "(bytes \<Rightarrow> bytes \<Rightarrow> 'a \<Rightarrow> goerror + 'a) \<Rightarrow> (bytes \<times> bytes) list \<Rightarrow> 'a \<Rightarrow> goerror + 'a"
where
  "foreach_pairs fn [] acc = Inr acc"
| "foreach_pairs fn ((k, v) # ps) acc =
     (case fn k v acc of Inl err \<Rightarrow> Inl err | Inr acc' \<Rightarrow> foreach_pairs fn ps acc')"

definition Bucket_ForEach ::
  "'db bbolt \<Rightarrow> bytes \<Rightarrow> 'db \<Rightarrow> (bytes \<Rightarrow> bytes \<Rightarrow> 'a \<Rightarrow> goerror + 'a) \<Rightarrow> 'a \<Rightarrow> goerror + 'a" where
  "Bucket_ForEach b name db fn acc =
     (case bb_View b db of
        Some err \<Rightarrow> Inl err
      | None \<Rightarrow> if name \<notin> set (bb_buckets b db) then Inr acc
                else foreach_pairs fn (bb_pairs b db name) acc)"

definition Bucket_CreateIfNotExists :: "'db bbolt \<Rightarrow> bytes \<Rightarrow> 'db \<Rightarrow> goerror option \<times> 'db" where
  "Bucket_CreateIfNotExists b name db = bb_Update b db (\<lambda>tx. bb_create b tx name)"

section \<open>The task repository\<close>

definition taskBucketPrefix :: string where [go_consts]: "taskBucketPrefix = ''tasks:''"

definition taskBucketName :: "string \<Rightarrow> string" where
  "taskBucketName deviceID = taskBucketPrefix @ deviceID"

text \<open>\<open>taskKey\<close>: the eight bytes of \<open>uint64(seqNo)\<close>, the most significant first.\<close>

definition taskKey :: "int \<Rightarrow> bytes" where
  "taskKey seqNo = be_bytes 8 (nat (seqNo mod 2 ^ 64))"

definition encodeTask :: "gob \<Rightarrow> PrintTask \<Rightarrow> goerror + bytes" where
  "encodeTask g task =
     (case gob_encode g task of
        Inl err \<Rightarrow> Inl (Wrap ErrStorageIO ''encode task'' err)
      | Inr val \<Rightarrow> Inr val)"

definition decodeTask :: "gob \<Rightarrow> bytes \<Rightarrow> goerror + PrintTask" where
  "decodeTask g raw =
     (case gob_decode g raw of
        Inl err \<Rightarrow> Inl (Wrap ErrStorageCorrupt ''decode task'' err)
      | Inr task \<Rightarrow> Inr task)"

definition TaskRepo_SaveTask ::
  "'db bbolt \<Rightarrow> gob \<Rightarrow> 'db \<Rightarrow> string \<Rightarrow> PrintTask \<Rightarrow> goerror option \<times> 'db" where
  "TaskRepo_SaveTask b g db deviceID task =
     (case encodeTask g task of
        Inl err \<Rightarrow> (Some err, db)
      | Inr val \<Rightarrow>
          bb_Update b db (\<lambda>tx.
            let name = bytes_of (taskBucketName deviceID)
            in case bb_create b tx name of
                 Inl err \<Rightarrow> Inl (Wrap ErrStorageIO ''create task bucket'' err)
               | Inr tx' \<Rightarrow> bb_put b tx' name (taskKey (t_SeqNo task)) val))"

definition TaskRepo_LoadTasks :: "'db bbolt \<Rightarrow> gob \<Rightarrow> 'db \<Rightarrow> string \<Rightarrow> goerror + PrintTask list" where
  "TaskRepo_LoadTasks b g db deviceID =
     (case bb_View b db of
        Some err \<Rightarrow> Inl err
      | None \<Rightarrow>
          let name = bytes_of (taskBucketName deviceID)
          in if name \<notin> set (bb_buckets b db) then Inr []
             else foreach_pairs
                    (\<lambda>_ v tasks. case decodeTask g v of Inl err \<Rightarrow> Inl err | Inr t \<Rightarrow> Inr (tasks @ [t]))
                    (bb_pairs b db name) [])"

text \<open>The cursor loop of \<open>DeleteTask\<close>: the key of the first entry with the task id, if any.\<close>

fun delete_scan :: "gob \<Rightarrow> string \<Rightarrow> (bytes \<times> bytes) list \<Rightarrow> goerror + bytes option" where
  "delete_scan g taskID [] = Inr None"
| "delete_scan g taskID ((k, v) # ps) =
     (case decodeTask g v of
        Inl err \<Rightarrow> Inl err
      | Inr t \<Rightarrow> if t_TaskID t = taskID then Inr (Some k) else delete_scan g taskID ps)"

definition TaskRepo_DeleteTask ::
  "'db bbolt \<Rightarrow> gob \<Rightarrow> 'db \<Rightarrow> string \<Rightarrow> string \<Rightarrow> goerror option \<times> 'db" where
  "TaskRepo_DeleteTask b g db deviceID taskID =
     bb_Update b db (\<lambda>tx.
       let name = bytes_of (taskBucketName deviceID)
       in if name \<notin> set (bb_buckets b tx) then Inr tx
          else case delete_scan g taskID (bb_pairs b tx name) of
                 Inl err \<Rightarrow> Inl err
               | Inr None \<Rightarrow> Inr tx
               | Inr (Some k) \<Rightarrow> bb_delete b tx name k)"

definition TaskRepo_ListDeviceBuckets :: "'db bbolt \<Rightarrow> 'db \<Rightarrow> goerror + string list" where
  "TaskRepo_ListDeviceBuckets b db =
     (case bb_View b db of
        Some err \<Rightarrow> Inl err
      | None \<Rightarrow> Inr (map (\<lambda>n. trim_prefix n taskBucketPrefix)
                        (filter (\<lambda>n. has_prefix n taskBucketPrefix)
                           (map string_of (bb_buckets b db)))))"

section \<open>Recovery\<close>

definition needsRecover :: "TaskStatus \<Rightarrow> bool" where
  "needsRecover status \<longleftrightarrow> status = TaskStatusRunning \<or> status = TaskStatusRetrying"

text \<open>The record \<open>RecoverAll\<close> writes back for an interrupted task.\<close>

definition recovered :: "PrintTask \<Rightarrow> PrintTask" where
  "recovered t = t\<lparr>t_Status := TaskStatusPending, t_StartedAt := t_ReceivedAt t\<rparr>"

fun recover_tasks ::
  "'db bbolt \<Rightarrow> gob \<Rightarrow> string \<Rightarrow> PrintTask list \<Rightarrow> PrintTask list \<Rightarrow> 'db \<Rightarrow> (goerror + PrintTask list) \<times> 'db"
where
  "recover_tasks b g deviceID [] acc db = (Inr acc, db)"
| "recover_tasks b g deviceID (task # tasks) acc db =
     (if \<not> needsRecover (t_Status task) then recover_tasks b g deviceID tasks acc db
      else case TaskRepo_SaveTask b g db deviceID (recovered task) of
             (Some err, db') \<Rightarrow> (Inl err, db')
           | (None, db') \<Rightarrow> recover_tasks b g deviceID tasks (acc @ [recovered task]) db')"

text \<open>
  The result map is a list of the devices with at least one recovered task, in the order the
  buckets are listed.
\<close>

fun recover_devices ::
  "'db bbolt \<Rightarrow> gob \<Rightarrow> string list \<Rightarrow> (string \<times> PrintTask list) list \<Rightarrow> 'db \<Rightarrow>
     (goerror + (string \<times> PrintTask list) list) \<times> 'db"
where
  "recover_devices b g [] acc db = (Inr acc, db)"
| "recover_devices b g (deviceID # devices) acc db =
     (case TaskRepo_LoadTasks b g db deviceID of
        Inl err \<Rightarrow> (Inl err, db)
      | Inr tasks \<Rightarrow>
          (case recover_tasks b g deviceID tasks [] db of
             (Inl err, db') \<Rightarrow> (Inl err, db')
           | (Inr ts, db') \<Rightarrow>
               recover_devices b g devices (if ts = [] then acc else acc @ [(deviceID, ts)]) db'))"

definition RecoverAll ::
  "'db bbolt \<Rightarrow> gob \<Rightarrow> 'db \<Rightarrow> (goerror + (string \<times> PrintTask list) list) \<times> 'db" where
  "RecoverAll b g db =
     (case TaskRepo_ListDeviceBuckets b db of
        Inl err \<Rightarrow> (Inl err, db)
      | Inr devices \<Rightarrow> recover_devices b g devices [] db)"

section \<open>Keys\<close>

lemma length_taskKey [simp]: "length (taskKey n) = 8"
  by (simp add: taskKey_def)

lemma be_val_taskKey: "be_val (taskKey n) = nat (n mod 2 ^ 64)"
proof -
  have "n mod 2 ^ 64 < 2 ^ 64" by simp
  then have "nat (n mod 2 ^ 64) < 256 ^ 8" by (simp add: nat_less_iff)
  then show ?thesis by (simp add: taskKey_def be_val_be_bytes)
qed

lemma taskKey_less_iff:
  assumes "0 \<le> m" "m < 2 ^ 63" "0 \<le> n" "n < 2 ^ 63"
  shows "taskKey m < taskKey n \<longleftrightarrow> m < n"
proof -
  have "m mod 2 ^ 64 = m" "n mod 2 ^ 64 = n"
    using assms by simp_all
  then show ?thesis
    using assms by (auto simp: be_val_less_iff be_val_taskKey)
qed

lemma taskKey_inj:
  assumes "is_int64 m" "is_int64 n" "taskKey m = taskKey n"
  shows "m = n"
proof -
  have "nat (m mod 2 ^ 64) = nat (n mod 2 ^ 64)"
    using assms(3) be_val_taskKey by metis
  then have "m mod 2 ^ 64 = n mod 2 ^ 64"
    by (simp add: nat_eq_iff2)
  then have "wrap64 m = wrap64 n"
    unfolding wrap64_def by (metis mod_add_left_eq)
  with assms(1,2) show ?thesis by (simp add: wrap64_id)
qed

lemma taskBucketName_inj [simp]: "taskBucketName a = taskBucketName c \<longleftrightarrow> a = c"
  by (simp add: taskBucketName_def)

lemma bytes_of_inj [simp]: "bytes_of s = bytes_of s' \<longleftrightarrow> s = s'"
  by (metis string_of_bytes_of)

section \<open>The contract of the repository\<close>

text \<open>
  The entries of a device's bucket, and the map from keys to tasks they stand for. A repository is
  well-formed when every entry decodes to a task stored under its own sequence number.
\<close>

definition entries :: "'db bbolt \<Rightarrow> 'db \<Rightarrow> string \<Rightarrow> (bytes \<times> bytes) list" where
  "entries b db deviceID =
     (let name = bytes_of (taskBucketName deviceID)
      in if name \<in> set (bb_buckets b db) then bb_pairs b db name else [])"

definition decoded :: "gob \<Rightarrow> bytes \<Rightarrow> PrintTask option" where
  "decoded g v = (case gob_decode g v of Inl _ \<Rightarrow> None | Inr t \<Rightarrow> Some t)"

definition repo_map :: "'db bbolt \<Rightarrow> gob \<Rightarrow> 'db \<Rightarrow> string \<Rightarrow> bytes \<rightharpoonup> PrintTask" where
  "repo_map b g db deviceID k = Option.bind (map_of (entries b db deviceID) k) (decoded g)"

definition repo_ok :: "'db bbolt \<Rightarrow> gob \<Rightarrow> 'db \<Rightarrow> bool" where
  "repo_ok b g db \<longleftrightarrow>
     (\<forall>deviceID. \<forall>(k, v) \<in> set (entries b db deviceID).
        \<exists>t. gob_decode g v = Inr t \<and> k = taskKey (t_SeqNo t))"

lemma Update_ok:
  "bbolt_laws b \<Longrightarrow> bb_Update b db f = (None, db') \<Longrightarrow> f db = Inr db'"
  using bbolt_lawsD(1) by (auto simp: update_law_def)

lemma Update_failed:
  "bbolt_laws b \<Longrightarrow> bb_Update b db f = (Some e, db') \<Longrightarrow> db' = db"
  using bbolt_lawsD(1) unfolding update_law_def by blast

lemma entries_sorted:
  "bbolt_laws b \<Longrightarrow> sorted_wrt (<) (map fst (entries b db deviceID))"
  using bbolt_lawsD(2) [of b] by (simp add: order_law_def entries_def Let_def)

lemma entries_distinct: "bbolt_laws b \<Longrightarrow> distinct (map fst (entries b db deviceID))"
  using entries_sorted [of b db deviceID] strict_sorted_iff by blast

lemma create_then_put:
  assumes laws: "bbolt_laws b"
    and cr: "bb_create b db n = Inr db1" and pt: "bb_put b db1 n k v = Inr db'"
  shows "set (bb_buckets b db') = insert n (set (bb_buckets b db))"
    and "map_of (bb_pairs b db' n) =
           (map_of (if n \<in> set (bb_buckets b db) then bb_pairs b db n else []))(k \<mapsto> v)"
    and "m \<noteq> n \<Longrightarrow> bb_pairs b db' m = bb_pairs b db m"
proof -
  note c = bbolt_lawsD(3) [OF laws, unfolded create_law_def, rule_format, OF cr]
  have "n \<in> set (bb_buckets b db1)" using c by blast
  note p = bbolt_lawsD(4) [OF laws, unfolded put_law_def, rule_format, OF this pt]
  show "set (bb_buckets b db') = insert n (set (bb_buckets b db))" using c p by simp
  show "map_of (bb_pairs b db' n) =
          (map_of (if n \<in> set (bb_buckets b db) then bb_pairs b db n else []))(k \<mapsto> v)"
    using c p by simp
  show "m \<noteq> n \<Longrightarrow> bb_pairs b db' m = bb_pairs b db m" using c p by simp
qed

lemma SaveTask_entries:
  assumes laws: "bbolt_laws b" and save: "TaskRepo_SaveTask b g db dev t = (None, db')"
  shows "\<exists>v. gob_encode g t = Inr v \<and>
     map_of (entries b db' dev) = (map_of (entries b db dev))(taskKey (t_SeqNo t) \<mapsto> v)"
    and "dev' \<noteq> dev \<Longrightarrow> entries b db' dev' = entries b db dev'"
    and "set (bb_buckets b db') =
           insert (bytes_of (taskBucketName dev)) (set (bb_buckets b db))"
proof -
  let ?n = "bytes_of (taskBucketName dev)"
  obtain v where v: "gob_encode g t = Inr v"
    using save by (auto simp: TaskRepo_SaveTask_def encodeTask_def split: sum.splits)
  have "bb_Update b db (\<lambda>tx. case bb_create b tx ?n of
            Inl err \<Rightarrow> Inl (Wrap ErrStorageIO ''create task bucket'' err)
          | Inr tx' \<Rightarrow> bb_put b tx' ?n (taskKey (t_SeqNo t)) v) = (None, db')"
    using save v by (simp add: TaskRepo_SaveTask_def encodeTask_def Let_def)
  from Update_ok [OF laws this] obtain db1
    where "bb_create b db ?n = Inr db1" "bb_put b db1 ?n (taskKey (t_SeqNo t)) v = Inr db'"
    by (auto split: sum.splits)
  note c = create_then_put [OF laws this]
  show "\<exists>v. gob_encode g t = Inr v \<and>
     map_of (entries b db' dev) = (map_of (entries b db dev))(taskKey (t_SeqNo t) \<mapsto> v)"
    using v c(1,2) by (auto simp: entries_def Let_def)
  show "dev' \<noteq> dev \<Longrightarrow> entries b db' dev' = entries b db dev'"
    using c(1,3) by (simp add: entries_def Let_def)
  show "set (bb_buckets b db') = insert ?n (set (bb_buckets b db))" by (rule c(1))
qed

lemma SaveTask_failed:
  "bbolt_laws b \<Longrightarrow> TaskRepo_SaveTask b g db dev t = (Some e, db') \<Longrightarrow> db' = db"
  by (auto simp: TaskRepo_SaveTask_def dest: Update_failed split: sum.splits)

lemma SaveTask_repo_map:
  assumes "bbolt_laws b" "gob_laws g" and save: "TaskRepo_SaveTask b g db dev t = (None, db')"
  shows "repo_map b g db' = (repo_map b g db)(dev := (repo_map b g db dev)(taskKey (t_SeqNo t) \<mapsto> t))"
proof -
  obtain v where v: "gob_encode g t = Inr v"
      "map_of (entries b db' dev) = (map_of (entries b db dev))(taskKey (t_SeqNo t) \<mapsto> v)"
    using SaveTask_entries(1) [OF assms(1) save] by blast
  have "decoded g v = Some t"
    using assms(2) v(1) by (simp add: gob_laws_def decoded_def)
  with v(2) SaveTask_entries(2) [OF assms(1) save] show ?thesis
    by (auto simp: repo_map_def fun_eq_iff)
qed

lemma repo_okD:
  assumes "repo_ok b g db" "map_of (entries b db dev) k = Some v"
  shows "\<exists>t. gob_decode g v = Inr t \<and> k = taskKey (t_SeqNo t)"
  using assms(1) map_of_SomeD [OF assms(2)] unfolding repo_ok_def by blast

lemma SaveTask_repo_ok:
  assumes "bbolt_laws b" "gob_laws g" "repo_ok b g db"
    and save: "TaskRepo_SaveTask b g db dev t = (None, db')"
  shows "repo_ok b g db'"
  unfolding repo_ok_def
proof (intro allI ballI, clarify)
  fix dev' k v
  assume kv: "(k, v) \<in> set (entries b db' dev')"
  show "\<exists>t. gob_decode g v = Inr t \<and> k = taskKey (t_SeqNo t)"
  proof (cases "dev' = dev")
    case True
    obtain w where w: "gob_encode g t = Inr w"
        "map_of (entries b db' dev) = (map_of (entries b db dev))(taskKey (t_SeqNo t) \<mapsto> w)"
      using SaveTask_entries(1) [OF assms(1) save] by blast
    have "map_of (entries b db' dev) k = Some v"
      using kv True entries_distinct [OF assms(1)] by simp
    then have old: "((map_of (entries b db dev))(taskKey (t_SeqNo t) \<mapsto> w)) k = Some v"
      unfolding w(2) .
    show ?thesis
    proof (cases "k = taskKey (t_SeqNo t)")
      case True
      with old have "v = w" by simp
      with True w(1) assms(2) show ?thesis by (auto simp: gob_laws_def)
    next
      case False
      with old show ?thesis using repo_okD [OF assms(3)] by simp
    qed
  next
    case False
    then have "(k, v) \<in> set (entries b db dev')"
      using kv SaveTask_entries(2) [OF assms(1) save] by simp
    then show ?thesis using assms(3) unfolding repo_ok_def by blast
  qed
qed

lemma decode_foreach:
  "\<forall>(k, v) \<in> set ps. decoded g v \<noteq> None \<Longrightarrow>
     foreach_pairs (\<lambda>_ v tasks. case decodeTask g v of Inl err \<Rightarrow> Inl err | Inr t \<Rightarrow> Inr (tasks @ [t])) ps acc
       = Inr (acc @ map (\<lambda>(k, v). the (decoded g v)) ps)"
  by (induction ps arbitrary: acc) (auto simp: decodeTask_def decoded_def split: sum.splits)

lemma LoadTasks_entries:
  assumes "bb_View b db = None" "repo_ok b g db"
  shows "TaskRepo_LoadTasks b g db dev = Inr (map (\<lambda>(k, v). the (decoded g v)) (entries b db dev))"
proof -
  have "\<forall>(k, v) \<in> set (entries b db dev). decoded g v \<noteq> None"
    using assms(2) unfolding repo_ok_def decoded_def by fastforce
  from decode_foreach [OF this, of "[]"] show ?thesis
    using assms(1) by (auto simp: TaskRepo_LoadTasks_def entries_def Let_def)
qed

lemma LoadTasks_map:
  assumes "bbolt_laws b" "repo_ok b g db" "TaskRepo_LoadTasks b g db dev = Inr ts"
  shows "t \<in> set ts \<longleftrightarrow> repo_map b g db dev (taskKey (t_SeqNo t)) = Some t"
    and "map (\<lambda>t. taskKey (t_SeqNo t)) ts = map fst (entries b db dev)"
proof -
  have "bb_View b db = None"
    using assms(3) by (auto simp: TaskRepo_LoadTasks_def split: option.splits)
  then have ts: "ts = map (\<lambda>(k, v). the (decoded g v)) (entries b db dev)"
    using LoadTasks_entries [OF _ assms(2)] assms(3) by simp
  have dec: "\<exists>t. decoded g v = Some t \<and> k = taskKey (t_SeqNo t)" if "(k, v) \<in> set (entries b db dev)" for k v
    using that assms(2) by (fastforce simp: repo_ok_def decoded_def)
  then show "map (\<lambda>t. taskKey (t_SeqNo t)) ts = map fst (entries b db dev)"
    unfolding ts by (force intro!: map_cong)
  show "t \<in> set ts \<longleftrightarrow> repo_map b g db dev (taskKey (t_SeqNo t)) = Some t"
  proof
    assume "t \<in> set ts"
    then obtain k v where kv: "(k, v) \<in> set (entries b db dev)" "t = the (decoded g v)"
      unfolding ts by auto
    with dec have "decoded g v = Some t" "k = taskKey (t_SeqNo t)" by fastforce+
    with kv(1) show "repo_map b g db dev (taskKey (t_SeqNo t)) = Some t"
      using entries_distinct [OF assms(1)] by (simp add: repo_map_def)
  next
    assume "repo_map b g db dev (taskKey (t_SeqNo t)) = Some t"
    then obtain v where "map_of (entries b db dev) (taskKey (t_SeqNo t)) = Some v" "decoded g v = Some t"
      by (auto simp: repo_map_def bind_eq_Some_conv)
    then show "t \<in> set ts"
      unfolding ts by (force dest!: map_of_SomeD)
  qed
qed

section \<open>Recovery leaves no interrupted task behind\<close>

lemma recovered_simps [simp]:
  "t_Status (recovered t) = TaskStatusPending" "\<not> needsRecover (t_Status (recovered t))"
  "\<not> needsRecover TaskStatusPending"
  "t_SeqNo (recovered t) = t_SeqNo t" "t_TaskID (recovered t) = t_TaskID t"
  "t_DeviceID (recovered t) = t_DeviceID t"
  by (simp_all add: recovered_def needsRecover_def go_consts)

lemma recover_tasks_ok:
  assumes laws: "bbolt_laws b" "gob_laws g"
  shows "repo_ok b g db \<Longrightarrow> distinct (map (\<lambda>t. taskKey (t_SeqNo t)) ts) \<Longrightarrow>
    recover_tasks b g dev ts acc db = (Inr res, db') \<Longrightarrow>
    res = acc @ map recovered (filter (\<lambda>t. needsRecover (t_Status t)) ts) \<and>
    repo_ok b g db' \<and>
    repo_map b g db' = (repo_map b g db)(dev := \<lambda>k.
       case find (\<lambda>t. needsRecover (t_Status t) \<and> taskKey (t_SeqNo t) = k) ts of
         Some t \<Rightarrow> Some (recovered t) | None \<Rightarrow> repo_map b g db dev k) \<and>
    (\<forall>d. d \<noteq> dev \<longrightarrow> entries b db' d = entries b db d)"
proof (induction ts arbitrary: acc db)
  case Nil
  then show ?case by (auto simp: fun_eq_iff)
next
  case (Cons t ts)
  show ?case
  proof (cases "needsRecover (t_Status t)")
    case False
    with Cons show ?thesis by simp
  next
    case True
    obtain r db1 where sv: "TaskRepo_SaveTask b g db dev (recovered t) = (r, db1)" by fastforce
    with True Cons.prems(3) have r: "r = None"
      and rest: "recover_tasks b g dev ts (acc @ [recovered t]) db1 = (Inr res, db')"
      by (auto split: option.splits)
    note sv = sv [unfolded r]
    have ok1: "repo_ok b g db1" by (rule SaveTask_repo_ok [OF laws Cons.prems(1) sv])
    have m1: "repo_map b g db1 =
        (repo_map b g db)(dev := (repo_map b g db dev)(taskKey (t_SeqNo t) \<mapsto> recovered t))"
      using SaveTask_repo_map [OF laws sv] by (simp add: recovered_def)
    have d: "distinct (map (\<lambda>t. taskKey (t_SeqNo t)) ts)" using Cons.prems(2) by simp
    have fresh: "find (\<lambda>u. needsRecover (t_Status u) \<and> taskKey (t_SeqNo u) = taskKey (t_SeqNo t)) ts = None"
      using Cons.prems(2) by (force simp: find_None_iff image_iff)
    note IH = Cons.IH [OF ok1 d rest]
    have "repo_map b g db' = (repo_map b g db)(dev := \<lambda>k.
       case find (\<lambda>t. needsRecover (t_Status t) \<and> taskKey (t_SeqNo t) = k) (t # ts) of
         Some t \<Rightarrow> Some (recovered t) | None \<Rightarrow> repo_map b g db dev k)"
      using IH True fresh by (auto simp: m1 fun_eq_iff split: option.splits)
    moreover have "d \<noteq> dev \<Longrightarrow> entries b db' d = entries b db d" for d
      using IH SaveTask_entries(2) [OF laws(1) sv] by simp
    ultimately show ?thesis using IH True by simp
  qed
qed

lemma repo_map_key:
  assumes ok: "repo_ok b g db" and m: "repo_map b g db dev k = Some t"
  shows "k = taskKey (t_SeqNo t)"
proof -
  from m obtain v where v: "map_of (entries b db dev) k = Some v" "decoded g v = Some t"
    by (auto simp: repo_map_def bind_eq_Some_conv)
  with repo_okD [OF ok v(1)] show ?thesis by (auto simp: decoded_def)
qed

lemma load_needs_iff:
  assumes laws: "bbolt_laws b" and ok: "repo_ok b g db"
    and load: "TaskRepo_LoadTasks b g db dev = Inr tasks"
  shows "u \<in> set (map recovered (filter (\<lambda>t. needsRecover (t_Status t)) tasks)) \<longleftrightarrow>
    (\<exists>k t. repo_map b g db dev k = Some t \<and> needsRecover (t_Status t) \<and> u = recovered t)"
proof -
  have "u \<in> set (map recovered (filter (\<lambda>t. needsRecover (t_Status t)) tasks)) \<longleftrightarrow>
      (\<exists>t. repo_map b g db dev (taskKey (t_SeqNo t)) = Some t \<and>
        needsRecover (t_Status t) \<and> u = recovered t)"
    by (auto simp: LoadTasks_map(1) [OF laws ok load])
  then show ?thesis using repo_map_key [OF ok] by blast
qed

lemma load_recover_map:
  assumes laws: "bbolt_laws b" and ok: "repo_ok b g db"
    and load: "TaskRepo_LoadTasks b g db dev = Inr ts"
  shows "(case find (\<lambda>t. needsRecover (t_Status t) \<and> taskKey (t_SeqNo t) = k) ts of
            Some t \<Rightarrow> Some (recovered t) | None \<Rightarrow> repo_map b g db dev k)
         = map_option (\<lambda>t. if needsRecover (t_Status t) then recovered t else t) (repo_map b g db dev k)"
proof (cases "find (\<lambda>t. needsRecover (t_Status t) \<and> taskKey (t_SeqNo t) = k) ts")
  case None
  have "\<not> needsRecover (t_Status t)" if m: "repo_map b g db dev k = Some t" for t
  proof -
    have k: "k = taskKey (t_SeqNo t)" by (rule repo_map_key [OF ok m])
    with m have "t \<in> set ts" by (simp add: LoadTasks_map(1) [OF laws ok load])
    with None k show ?thesis by (auto simp: find_None_iff)
  qed
  with None show ?thesis by (cases "repo_map b g db dev k") auto
next
  case (Some t)
  then have "t \<in> set ts" "needsRecover (t_Status t)" "taskKey (t_SeqNo t) = k"
    by (auto simp: find_Some_iff)
  moreover from this have "repo_map b g db dev k = Some t"
    using LoadTasks_map(1) [OF laws ok load, of t] by simp
  ultimately show ?thesis using Some by simp
qed

definition res_shape :: "string list \<Rightarrow> (string \<times> PrintTask list) list \<Rightarrow> bool" where
  "res_shape devs res \<longleftrightarrow> distinct (map fst res) \<and> fst ` set res \<subseteq> set devs \<and>
     (\<forall>(d, ts) \<in> set res. distinct (map (\<lambda>t. taskKey (t_SeqNo t)) ts))"

lemma recover_devices_ok:
  assumes laws: "bbolt_laws b" "gob_laws g"
  shows "repo_ok b g db \<Longrightarrow> distinct devs \<Longrightarrow>
    recover_devices b g devs acc db = (Inr res, db') \<Longrightarrow>
    repo_map b g db' = (\<lambda>d. if d \<in> set devs
       then (\<lambda>k. map_option (\<lambda>t. if needsRecover (t_Status t) then recovered t else t) (repo_map b g db d k))
       else repo_map b g db d) \<and>
    (\<exists>new. res = acc @ new \<and>
       (\<forall>d u. (\<exists>ts. (d, ts) \<in> set new \<and> u \<in> set ts) \<longleftrightarrow>
          d \<in> set devs \<and> (\<exists>k t. repo_map b g db d k = Some t \<and> needsRecover (t_Status t) \<and> u = recovered t)) \<and>
       res_shape devs new)"
proof (induction devs arbitrary: acc db)
  case Nil
  then show ?case by (simp add: res_shape_def)
next
  case (Cons dev devs)
  from Cons.prems(3) obtain tasks where load: "TaskRepo_LoadTasks b g db dev = Inr tasks"
    by (auto split: sum.splits)
  obtain r db1 where rt: "recover_tasks b g dev tasks [] db = (r, db1)" by fastforce
  with Cons.prems(3) load obtain ts where r: "r = Inr ts"
    and rest: "recover_devices b g devs (if ts = [] then acc else acc @ [(dev, ts)]) db1 = (Inr res, db')"
    by (auto split: sum.splits)
  have keys: "distinct (map (\<lambda>t. taskKey (t_SeqNo t)) tasks)"
    using LoadTasks_map(2) [OF laws(1) Cons.prems(1) load] entries_distinct [OF laws(1)] by simp
  note rec = recover_tasks_ok [OF laws Cons.prems(1) keys rt [unfolded r]]
  then have ts: "ts = map recovered (filter (\<lambda>t. needsRecover (t_Status t)) tasks)"
    and ok1: "repo_ok b g db1"
    and m1: "repo_map b g db1 = (repo_map b g db)(dev := \<lambda>k.
       map_option (\<lambda>t. if needsRecover (t_Status t) then recovered t else t) (repo_map b g db dev k))"
    using load_recover_map [OF laws(1) Cons.prems(1) load] by simp_all
  have new: "dev \<notin> set devs" "distinct devs" using Cons.prems(2) by auto
  note mem = load_needs_iff [OF laws(1) Cons.prems(1) load, folded ts]
  from Cons.IH [OF ok1 new(2) rest] obtain new'
    where res: "res = (if ts = [] then acc else acc @ [(dev, ts)]) @ new'"
      and new': "\<And>d u. (\<exists>ts. (d, ts) \<in> set new' \<and> u \<in> set ts) \<longleftrightarrow>
          d \<in> set devs \<and> (\<exists>k t. repo_map b g db1 d k = Some t \<and> needsRecover (t_Status t) \<and> u = recovered t)"
      and shape: "res_shape devs new'"
      and m': "repo_map b g db' = (\<lambda>d. if d \<in> set devs
       then (\<lambda>k. map_option (\<lambda>t. if needsRecover (t_Status t) then recovered t else t) (repo_map b g db1 d k))
       else repo_map b g db1 d)"
    by blast
  let ?new = "(if ts = [] then [] else [(dev, ts)]) @ new'"
  have "(\<exists>ts. (d, ts) \<in> set ?new \<and> u \<in> set ts) \<longleftrightarrow> d \<in> set (dev # devs) \<and>
     (\<exists>k t. repo_map b g db d k = Some t \<and> needsRecover (t_Status t) \<and> u = recovered t)" for d u
  proof (cases "d = dev")
    case True
    then have "(\<exists>ts. (d, ts) \<in> set ?new \<and> u \<in> set ts) \<longleftrightarrow> u \<in> set ts"
      using new' [of dev u] new(1) by (auto split: if_splits)
    with mem True show ?thesis by simp
  next
    case False
    then have "(\<exists>ts. (d, ts) \<in> set ?new \<and> u \<in> set ts) \<longleftrightarrow> (\<exists>ts. (d, ts) \<in> set new' \<and> u \<in> set ts)"
      by auto
    with new' [of d u] False show ?thesis by (simp add: m1)
  qed
  moreover have "res = acc @ ?new" using res by simp
  moreover have "repo_map b g db' = (\<lambda>d. if d \<in> set (dev # devs)
       then (\<lambda>k. map_option (\<lambda>t. if needsRecover (t_Status t) then recovered t else t) (repo_map b g db d k))
       else repo_map b g db d)"
    unfolding m' m1 using new(1) by (auto simp: fun_eq_iff)
  moreover have "distinct (map (\<lambda>t. taskKey (t_SeqNo t)) ts)"
    using distinct_map_filter [OF keys] by (simp add: ts o_def)
  then have "res_shape (dev # devs) ?new"
    using shape new(1) by (auto simp: res_shape_def)
  ultimately show ?case by blast
qed

section \<open>A concrete store and codec\<close>

text \<open>
  An in-memory store that satisfies \<open>bbolt_laws\<close> and a codec for a finite table of tasks, with which
  the hypotheses of the properties below are discharged on concrete inputs.
\<close>

record mem_db =
  m_names :: "bytes list"
  m_ents :: "bytes \<Rightarrow> (bytes \<times> bytes) list"

definition mem_empty :: mem_db where
  "mem_empty = \<lparr>m_names = [], m_ents = (\<lambda>_. [])\<rparr>"

definition mem_pairs :: "(bytes \<times> bytes) list \<Rightarrow> (bytes \<times> bytes) list" where
  "mem_pairs es = map (\<lambda>k. (k, the (map_of es k))) (sort (remdups (map fst es)))"

definition mem_bbolt :: "mem_db bbolt" where
  "mem_bbolt = \<lparr>
     bb_View = (\<lambda>db. None),
     bb_Update = (\<lambda>db f. case f db of Inl e \<Rightarrow> (Some e, db) | Inr db' \<Rightarrow> (None, db')),
     bb_buckets = (\<lambda>db. remdups (m_names db)),
     bb_pairs = (\<lambda>db n. mem_pairs (m_ents db n)),
     bb_create = (\<lambda>db n. if n \<in> set (m_names db) then Inr db
                          else Inr \<lparr>m_names = n # m_names db, m_ents = (m_ents db)(n := [])\<rparr>),
     bb_put = (\<lambda>db n k v. Inr (db\<lparr>m_ents := (m_ents db)(n := (k, v) # m_ents db n)\<rparr>)),
     bb_delete = (\<lambda>db n k. Inr (db\<lparr>m_ents :=
                    (m_ents db)(n := filter (\<lambda>p. fst p \<noteq> k) (m_ents db n))\<rparr>))\<rparr>"

lemma map_of_tabulate: "map_of (map (\<lambda>k. (k, f k)) ks) k = (if k \<in> set ks then Some (f k) else None)"
  by (induction ks) auto

lemma map_of_mem_pairs: "map_of (mem_pairs es) = map_of es"
proof
  fix k
  show "map_of (mem_pairs es) k = map_of es k"
  proof (cases "k \<in> fst ` set es")
    case True
    then obtain v where "map_of es k = Some v"
      by (metis map_of_eq_None_iff not_None_eq)
    with True show ?thesis by (simp add: mem_pairs_def map_of_tabulate)
  next
    case False
    then have "map_of es k = None" by (simp add: map_of_eq_None_iff)
    with False show ?thesis by (simp add: mem_pairs_def map_of_tabulate)
  qed
qed

lemma map_of_filter_neq: "map_of (filter (\<lambda>p. fst p \<noteq> k) es) = (map_of es)(k := None)"
  by (induction es) (auto simp: fun_eq_iff)

lemma length_takeWhile_neq: "t \<in> set ts \<Longrightarrow> length (takeWhile (\<lambda>u. u \<noteq> t) ts) < length ts"
  by (induction ts) auto

lemma mem_bbolt_laws: "bbolt_laws mem_bbolt"
  unfolding bbolt_laws_def
proof (intro conjI)
  show "update_law mem_bbolt"
    by (auto simp: update_law_def mem_bbolt_def split: sum.splits)
  show "order_law mem_bbolt"
    by (simp add: order_law_def mem_bbolt_def mem_pairs_def o_def strict_sorted_iff)
  show "create_law mem_bbolt"
    by (auto simp: create_law_def mem_bbolt_def mem_pairs_def split: if_splits)
  show "put_law mem_bbolt"
    by (auto simp: put_law_def mem_bbolt_def map_of_mem_pairs)
  show "delete_law mem_bbolt"
    by (auto simp: delete_law_def mem_bbolt_def map_of_mem_pairs map_of_filter_neq)
qed

definition table_gob :: "PrintTask list \<Rightarrow> gob" where
  "table_gob ts = \<lparr>
     gob_encode = (\<lambda>t. if t \<in> set ts then Inr [of_nat (length (takeWhile (\<lambda>u. u \<noteq> t) ts))]
                       else Inl (PlainError ''unknown task'')),
     gob_decode = (\<lambda>v. case v of [i] \<Rightarrow> if unat i < length ts then Inr (ts ! unat i)
                                        else Inl (PlainError ''bad tag'')
                      | _ \<Rightarrow> Inl (PlainError ''bad length''))\<rparr>"

lemma table_gob_laws:
  assumes "length ts \<le> 256"
  shows "gob_laws (table_gob ts)"
  unfolding gob_laws_def
proof (intro allI impI)
  fix t v
  assume "gob_encode (table_gob ts) t = Inr v"
  then have t: "t \<in> set ts" and v: "v = [of_nat (length (takeWhile (\<lambda>u. u \<noteq> t) ts))]"
    by (auto simp: table_gob_def split: if_splits)
  let ?i = "length (takeWhile (\<lambda>u. u \<noteq> t) ts)"
  have len: "?i < length ts"
    using t by (rule length_takeWhile_neq)
  with assms have "unat (of_nat ?i :: byte) = ?i"
    by (simp add: unat_of_nat)
  moreover have "ts ! ?i = t"
    using nth_length_takeWhile [OF len] by simp
  ultimately show "gob_decode (table_gob ts) v = Inr t"
    using len by (simp add: table_gob_def v)
qed

section \<open>Properties\<close>

lemma of_char_char_of_byte: "(of_char (char_of (unat b)) :: byte) = b"
proof -
  have "(of_char (char_of (unat b)) :: byte) = of_nat (of_char (char_of (unat b)) :: nat)"
    by (simp only: of_nat_of_char)
  then show ?thesis by (simp add: mod_less)
qed

lemma bytes_of_string_of [simp]: "bytes_of (string_of xs) = xs"
  by (simp add: string_of_def bytes_of_def o_def of_char_char_of_byte)

lemma string_of_inj: "string_of xs = string_of ys \<Longrightarrow> xs = ys"
  by (metis bytes_of_string_of)

lemma ListDeviceBuckets_distinct:
  assumes "bbolt_laws b" "TaskRepo_ListDeviceBuckets b db = Inr devs"
  shows "distinct devs" and "dev \<in> set devs \<longleftrightarrow> bytes_of (taskBucketName dev) \<in> set (bb_buckets b db)"
proof -
  have devs: "devs = map (\<lambda>n. trim_prefix n taskBucketPrefix)
      (filter (\<lambda>n. has_prefix n taskBucketPrefix) (map string_of (bb_buckets b db)))"
    using assms(2) by (auto simp: TaskRepo_ListDeviceBuckets_def split: option.splits)
  have dist: "distinct (map string_of (bb_buckets b db))"
    using bbolt_lawsD(2) [OF assms(1)] by (auto simp: order_law_def distinct_map inj_on_def dest: string_of_inj)
  have pre: "n = taskBucketPrefix @ trim_prefix n taskBucketPrefix" if "has_prefix n taskBucketPrefix" for n
    using that unfolding has_prefix_def trim_prefix_def by (metis append_take_drop_id)
  have "inj_on (\<lambda>n. trim_prefix n taskBucketPrefix) {n. has_prefix n taskBucketPrefix}"
    by (rule inj_onI) (metis mem_Collect_eq pre)
  then have inj: "inj_on (\<lambda>n. trim_prefix n taskBucketPrefix)
      (set (filter (\<lambda>n. has_prefix n taskBucketPrefix) (map string_of (bb_buckets b db))))"
    by (rule inj_on_subset) auto
  show "distinct devs"
    unfolding devs by (rule distinct_map [THEN iffD2, OF conjI [OF distinct_filter [OF dist] inj]])
  show "dev \<in> set devs \<longleftrightarrow> bytes_of (taskBucketName dev) \<in> set (bb_buckets b db)"
    unfolding devs taskBucketName_def
    by (auto simp: image_iff pre [symmetric] intro!: bexI [of _ "bytes_of (taskBucketPrefix @ dev)"])
qed

lemma SaveTask_then_LoadTasks:
  assumes laws: "bbolt_laws b" "gob_laws g" and ok: "repo_ok b g db"
    and old: "TaskRepo_LoadTasks b g db dev = Inr old"
    and save: "TaskRepo_SaveTask b g db dev t = (None, db')"
    and new: "TaskRepo_LoadTasks b g db' dev = Inr ts"
  shows "set ts = insert t {u \<in> set old. taskKey (t_SeqNo u) \<noteq> taskKey (t_SeqNo t)}"
proof -
  note mem = LoadTasks_map(1) [OF laws(1) SaveTask_repo_ok [OF laws ok save] new]
    LoadTasks_map(1) [OF laws(1) ok old]
  show ?thesis
    by (auto simp: mem SaveTask_repo_map [OF laws save] split: if_splits)
qed

lemma LoadTasks_seq_sorted:
  assumes laws: "bbolt_laws b" and ok: "repo_ok b g db"
    and load: "TaskRepo_LoadTasks b g db dev = Inr ts"
    and pos: "\<forall>t \<in> set ts. 0 \<le> t_SeqNo t \<and> t_SeqNo t < 2 ^ 63"
  shows "sorted_wrt (<) (map t_SeqNo ts)"
proof -
  have "sorted_wrt (\<lambda>t u. taskKey (t_SeqNo t) < taskKey (t_SeqNo u)) ts"
    using entries_sorted [OF laws, of db dev] LoadTasks_map(2) [OF laws ok load]
    by (metis sorted_wrt_map)
  then have "sorted_wrt (\<lambda>t u. t_SeqNo t < t_SeqNo u) ts"
    by (rule sorted_wrt_mono_rel [rotated]) (use pos in \<open>auto simp: taskKey_less_iff\<close>)
  then show ?thesis by (simp add: sorted_wrt_map)
qed

text \<open>
  (C23) Persistence round trip: when saving a task returns no error, loading the device's tasks
  returns the task just saved together with every task stored before under a different sequence
  number, in the order of the sequence numbers (for the non-negative numbers the cloud assigns).
  A task stored before under the same sequence number is replaced.
\<close>

theorem save_load_roundtrip:
  assumes "bbolt_laws b" "gob_laws g" "repo_ok b g db"
    and "TaskRepo_LoadTasks b g db dev = Inr old"
    and "TaskRepo_SaveTask b g db dev t = (None, db')" and "bb_View b db' = None"
    and "is_int64 (t_SeqNo t)" and "\<forall>u \<in> set old. is_int64 (t_SeqNo u)"
  shows "\<exists>ts. TaskRepo_LoadTasks b g db' dev = Inr ts \<and>
     set ts = insert t {u \<in> set old. t_SeqNo u \<noteq> t_SeqNo t} \<and>
     ((\<forall>u \<in> set ts. 0 \<le> t_SeqNo u) \<longrightarrow> sorted_wrt (<) (map t_SeqNo ts))"
proof -
  have ok': "repo_ok b g db'" by (rule SaveTask_repo_ok [OF assms(1-3,5)])
  obtain ts where ts: "TaskRepo_LoadTasks b g db' dev = Inr ts"
    using LoadTasks_entries [OF assms(6) ok'] by blast
  have key: "taskKey (t_SeqNo u) \<noteq> taskKey (t_SeqNo t) \<longleftrightarrow> t_SeqNo u \<noteq> t_SeqNo t" if "u \<in> set old" for u
    using that assms(7,8) taskKey_inj by metis
  have set_ts: "set ts = insert t {u \<in> set old. t_SeqNo u \<noteq> t_SeqNo t}"
    using SaveTask_then_LoadTasks [OF assms(1-5) ts] key by auto
  then have "\<forall>u \<in> set ts. is_int64 (t_SeqNo u)" using assms(7,8) by auto
  then have "(\<forall>u \<in> set ts. 0 \<le> t_SeqNo u) \<longrightarrow> sorted_wrt (<) (map t_SeqNo ts)"
    using LoadTasks_seq_sorted [OF assms(1) ok' ts] by (auto simp: is_int64_def)
  with ts set_ts show ?thesis by blast
qed

lemma RecoverAll_ok:
  assumes "bbolt_laws b" "gob_laws g" "repo_ok b g db" "RecoverAll b g db = (Inr res, db')"
  shows "(\<exists>ts. (dev, ts) \<in> set res \<and> u \<in> set ts) \<longleftrightarrow>
            (\<exists>k t. repo_map b g db dev k = Some t \<and> needsRecover (t_Status t) \<and> u = recovered t)"
    and "repo_map b g db' dev k =
            map_option (\<lambda>t. if needsRecover (t_Status t) then recovered t else t) (repo_map b g db dev k)"
    and "distinct (map fst res)" "\<forall>(d, ts) \<in> set res. distinct (map (\<lambda>t. taskKey (t_SeqNo t)) ts)"
proof -
  obtain devs where devs: "TaskRepo_ListDeviceBuckets b db = Inr devs"
    and rec: "recover_devices b g devs [] db = (Inr res, db')"
    using assms(4) by (auto simp: RecoverAll_def split: sum.splits)
  note ld = ListDeviceBuckets_distinct [OF assms(1) devs]
  have none: "repo_map b g db dev k = None" if "dev \<notin> set devs" for dev k
    using that ld(2) by (simp add: repo_map_def entries_def)
  note rd = recover_devices_ok [OF assms(1-3) ld(1) rec]
  show "repo_map b g db' dev k =
      map_option (\<lambda>t. if needsRecover (t_Status t) then recovered t else t) (repo_map b g db dev k)"
    using rd none [of dev k] by (simp add: fun_eq_iff)
  show "distinct (map fst res)" "\<forall>(d, ts) \<in> set res. distinct (map (\<lambda>t. taskKey (t_SeqNo t)) ts)"
    using rd by (auto simp: res_shape_def)
  have "(\<exists>ts. (dev, ts) \<in> set res \<and> u \<in> set ts) \<longleftrightarrow> dev \<in> set devs \<and>
      (\<exists>k t. repo_map b g db dev k = Some t \<and> needsRecover (t_Status t) \<and> u = recovered t)"
    using rd by simp
  then show "(\<exists>ts. (dev, ts) \<in> set res \<and> u \<in> set ts) \<longleftrightarrow>
      (\<exists>k t. repo_map b g db dev k = Some t \<and> needsRecover (t_Status t) \<and> u = recovered t)"
    using none [of dev] by (metis option.distinct(1))
qed

definition has_id :: "gob \<Rightarrow> string \<Rightarrow> bytes \<times> bytes \<Rightarrow> bool" where
  "has_id g i kv \<longleftrightarrow> (case decoded g (snd kv) of None \<Rightarrow> False | Some t \<Rightarrow> t_TaskID t = i)"

lemma delete_scan_spec:
  "\<forall>(k, v) \<in> set ps. decoded g v \<noteq> None \<Longrightarrow>
   delete_scan g i ps = Inr (map_option fst (find (has_id g i) ps))"
  by (induction ps) (auto simp: decodeTask_def decoded_def has_id_def split: sum.splits option.splits)

lemma DeleteTask_entries:
  assumes laws: "bbolt_laws b" and ok: "repo_ok b g db"
    and del: "TaskRepo_DeleteTask b g db dev i = (None, db')"
  shows "map_of (entries b db' dev) =
      (case find (has_id g i) (entries b db dev) of
         None \<Rightarrow> map_of (entries b db dev) | Some (k, v) \<Rightarrow> (map_of (entries b db dev))(k := None))"
    and "dev' \<noteq> dev \<Longrightarrow> entries b db' dev' = entries b db dev'"
proof -
  let ?n = "bytes_of (taskBucketName dev)"
  let ?f = "find (has_id g i) (entries b db dev)"
  have dec: "\<forall>(k, v) \<in> set (entries b db dev). decoded g v \<noteq> None"
    using ok unfolding repo_ok_def decoded_def by fastforce
  have upd: "(if ?n \<notin> set (bb_buckets b db) then Inr db
        else case delete_scan g i (bb_pairs b db ?n) of
               Inl err \<Rightarrow> Inl err | Inr None \<Rightarrow> Inr db | Inr (Some k) \<Rightarrow> bb_delete b db ?n k) = Inr db'"
    using Update_ok [OF laws del [unfolded TaskRepo_DeleteTask_def]] by (simp only: Let_def)
  have "map_of (entries b db' dev) = (case ?f of
         None \<Rightarrow> map_of (entries b db dev) | Some (k, v) \<Rightarrow> (map_of (entries b db dev))(k := None)) \<and>
      (\<forall>dev'. dev' \<noteq> dev \<longrightarrow> entries b db' dev' = entries b db dev')"
  proof (cases "?n \<in> set (bb_buckets b db)")
    case False
    with upd show ?thesis by (simp add: entries_def)
  next
    case True
    then have e: "entries b db dev = bb_pairs b db ?n" by (simp add: entries_def)
    note sc = delete_scan_spec [OF dec [unfolded e], of i, folded e]
    show ?thesis
    proof (cases ?f)
      case None
      with upd True sc e have "db' = db" by simp
      with None show ?thesis by simp
    next
      case (Some kv)
      then have d: "bb_delete b db ?n (fst kv) = Inr db'" using upd True sc by (simp add: e)
      note l = bbolt_lawsD(5) [OF laws, unfolded delete_law_def, rule_format, OF True d]
      with True Some show ?thesis
        by (auto simp: entries_def Let_def split: prod.splits)
    qed
  qed
  then show "map_of (entries b db' dev) = (case ?f of
         None \<Rightarrow> map_of (entries b db dev) | Some (k, v) \<Rightarrow> (map_of (entries b db dev))(k := None))"
    "dev' \<noteq> dev \<Longrightarrow> entries b db' dev' = entries b db dev'" by blast+
qed

lemma DeleteTask_shrinks:
  assumes laws: "bbolt_laws b" and ok: "repo_ok b g db"
    and del: "TaskRepo_DeleteTask b g db dev i = (r, db')"
  shows "repo_map b g db' d \<subseteq>\<^sub>m repo_map b g db d" and "repo_ok b g db'"
proof -
  have sub: "map_of (entries b db' d) \<subseteq>\<^sub>m map_of (entries b db d)" for d
  proof (cases r)
    case (Some e)
    with del have "db' = db" by (auto simp: TaskRepo_DeleteTask_def dest: Update_failed [OF laws])
    then show ?thesis by simp
  next
    case None
    show ?thesis
      using DeleteTask_entries [OF laws ok del [unfolded None]]
      by (cases "d = dev") (auto simp: map_le_def split: option.splits if_splits)
  qed
  show "repo_map b g db' d \<subseteq>\<^sub>m repo_map b g db d"
    using sub [of d] by (fastforce simp: map_le_def repo_map_def dom_def bind_eq_Some_conv)
  show "repo_ok b g db'"
    unfolding repo_ok_def
  proof (intro allI ballI, clarify)
    fix d k v assume "(k, v) \<in> set (entries b db' d)"
    then have "map_of (entries b db' d) k = Some v" using entries_distinct [OF laws] by simp
    with sub [of d] have "map_of (entries b db d) k = Some v" by (metis domI map_le_def)
    then show "\<exists>t. gob_decode g v = Inr t \<and> k = taskKey (t_SeqNo t)" by (rule repo_okD [OF ok])
  qed
qed

text \<open>
  Recovery is complete and exact: when \<open>RecoverAll\<close> succeeds, it returns for each device
  exactly the tasks that were stored as running or retrying, reset to pending with the start time
  set to the receive time; the store then holds the reset records in their place and every other
  record unchanged, so that no interrupted task is left in it.
\<close>

theorem recover_all_exact:
  assumes "bbolt_laws b" "gob_laws g" "repo_ok b g db" "RecoverAll b g db = (Inr res, db')"
  shows "(\<forall>dev u. (\<exists>ts. (dev, ts) \<in> set res \<and> u \<in> set ts) \<longleftrightarrow>
            (\<exists>k t. repo_map b g db dev k = Some t \<and> needsRecover (t_Status t) \<and> u = recovered t)) \<and>
         (\<forall>dev k. repo_map b g db' dev k =
            map_option (\<lambda>t. if needsRecover (t_Status t) then recovered t else t) (repo_map b g db dev k)) \<and>
         (\<forall>dev k t. repo_map b g db' dev k = Some t \<longrightarrow> \<not> needsRecover (t_Status t))"
proof -
  note ok = RecoverAll_ok [OF assms]
  have "\<not> needsRecover (t_Status t)" if "repo_map b g db' dev k = Some t" for dev k t
    using that unfolding ok(2) by (cases "repo_map b g db dev k") (auto split: if_splits)
  then show ?thesis using ok(1,2) by blast
qed

section \<open>Witnesses\<close>

text \<open>Two tasks of one device, the first interrupted while it was running.\<close>

definition task_A :: PrintTask where
  "task_A = zero_PrintTask\<lparr>t_TaskID := ''A'', t_DeviceID := ''D01'', t_Status := TaskStatusRunning,
     t_ReceivedAt := 7, t_SeqNo := 2\<rparr>"

definition task_B :: PrintTask where
  "task_B = zero_PrintTask\<lparr>t_TaskID := ''B'', t_DeviceID := ''D01'', t_Status := TaskStatusPending,
     t_ReceivedAt := 9, t_SeqNo := 1\<rparr>"

definition AB_gob :: gob where
  "AB_gob = table_gob [task_A, task_B, recovered task_A]"

definition db_A :: mem_db where
  "db_A = snd (TaskRepo_SaveTask mem_bbolt AB_gob mem_empty ''D01'' task_A)"

lemmas task_AB_defs = task_A_def task_B_def zero_PrintTask_def recovered_def go_consts

lemma mem_empty_ok: "repo_ok mem_bbolt g mem_empty"
  by (simp add: repo_ok_def entries_def mem_bbolt_def mem_empty_def)

lemma AB_gob_laws: "gob_laws AB_gob"
  by (simp add: AB_gob_def table_gob_laws)

lemma AB_gob_encode:
  "gob_encode AB_gob task_A = Inr [0]" "gob_encode AB_gob task_B = Inr [1]"
  "gob_encode AB_gob (recovered task_A) = Inr [2]"
  by (simp_all add: AB_gob_def table_gob_def task_AB_defs)

lemma AB_gob_decode:
  "gob_decode AB_gob [0] = Inr task_A" "gob_decode AB_gob [1] = Inr task_B"
  by (simp_all add: AB_gob_def table_gob_def)

lemma save_mem:
  "gob_encode g t = Inr v \<Longrightarrow> TaskRepo_SaveTask mem_bbolt g db dev t =
     (None, let n = bytes_of (taskBucketName dev);
                db1 = (if n \<in> set (m_names db) then db
                       else \<lparr>m_names = n # m_names db, m_ents = (m_ents db)(n := [])\<rparr>)
            in db1\<lparr>m_ents := (m_ents db1)(n := (taskKey (t_SeqNo t), v) # m_ents db1 n)\<rparr>)"
  by (simp add: TaskRepo_SaveTask_def encodeTask_def mem_bbolt_def Let_def)

lemma db_A_saved: "TaskRepo_SaveTask mem_bbolt AB_gob mem_empty ''D01'' task_A = (None, db_A)"
  by (simp add: db_A_def save_mem [OF AB_gob_encode(1)])

lemma mem_bbolt_sel [simp]:
  "bb_View mem_bbolt db = None"
  "bb_buckets mem_bbolt db = remdups (m_names db)"
  "bb_pairs mem_bbolt db n = mem_pairs (m_ents db n)"
  by (simp_all add: mem_bbolt_def)

lemma db_A_eq: "db_A = \<lparr>m_names = [bytes_of (taskBucketName ''D01'')],
    m_ents = (\<lambda>_. [])(bytes_of (taskBucketName ''D01'') := [(taskKey 2, [0])])\<rparr>"
proof -
  have "t_SeqNo task_A = 2" by (simp add: task_A_def)
  then show ?thesis
    by (simp add: db_A_def save_mem [OF AB_gob_encode(1)] Let_def mem_empty_def)
qed

lemma db_A_ok: "repo_ok mem_bbolt AB_gob db_A"
  by (rule SaveTask_repo_ok [OF mem_bbolt_laws AB_gob_laws mem_empty_ok db_A_saved])

lemma db_A_load: "TaskRepo_LoadTasks mem_bbolt AB_gob db_A ''D01'' = Inr [task_A]"
proof -
  have "entries mem_bbolt db_A ''D01'' = [(taskKey 2, [0])]"
    by (simp add: db_A_eq entries_def mem_pairs_def)
  then show ?thesis
    using LoadTasks_entries [of mem_bbolt db_A AB_gob "''D01''"] db_A_ok AB_gob_decode(1)
    by (simp add: decoded_def)
qed

theorem save_load_roundtrip_witness:
  "\<exists>ts. TaskRepo_LoadTasks mem_bbolt AB_gob
          (snd (TaskRepo_SaveTask mem_bbolt AB_gob db_A ''D01'' task_B)) ''D01'' = Inr ts \<and>
     set ts = insert task_B {u \<in> set [task_A]. t_SeqNo u \<noteq> t_SeqNo task_B} \<and>
     ((\<forall>u \<in> set ts. 0 \<le> t_SeqNo u) \<longrightarrow> sorted_wrt (<) (map t_SeqNo ts))"
proof (rule save_load_roundtrip [OF mem_bbolt_laws AB_gob_laws db_A_ok db_A_load])
  show "TaskRepo_SaveTask mem_bbolt AB_gob db_A ''D01'' task_B =
      (None, snd (TaskRepo_SaveTask mem_bbolt AB_gob db_A ''D01'' task_B))"
    by (simp add: save_mem [OF AB_gob_encode(2)])
qed (simp_all add: is_int64_def task_A_def task_B_def)

lemma recover_all_A:
  "RecoverAll mem_bbolt AB_gob db_A =
     (Inr [(''D01'', [recovered task_A])],
      snd (TaskRepo_SaveTask mem_bbolt AB_gob db_A ''D01'' (recovered task_A)))"
proof -
  have "TaskRepo_ListDeviceBuckets mem_bbolt db_A = Inr [''D01'']"
    by (simp add: TaskRepo_ListDeviceBuckets_def db_A_eq taskBucketName_def)
  moreover have "needsRecover (t_Status task_A)"
    by (simp add: needsRecover_def task_A_def)
  moreover have "fst (TaskRepo_SaveTask mem_bbolt AB_gob db_A ''D01'' (recovered task_A)) = None"
    by (simp add: save_mem [OF AB_gob_encode(3)])
  ultimately show ?thesis
    by (auto simp: RecoverAll_def db_A_load split: prod.splits option.splits)
qed

theorem recover_all_exact_witness:
  "(\<forall>dev u. (\<exists>ts. (dev, ts) \<in> set [(''D01'', [recovered task_A])] \<and> u \<in> set ts) \<longleftrightarrow>
      (\<exists>k t. repo_map mem_bbolt AB_gob db_A dev k = Some t \<and> needsRecover (t_Status t) \<and>
             u = recovered t))"
  using recover_all_exact [OF mem_bbolt_laws AB_gob_laws db_A_ok recover_all_A] by blast

end
