(* ===== verification/TaskQueue.thy ===== *)
theory TaskQueue
  imports Interfaces Storage "HOL-Library.Sublist" "HOL-Library.Multiset"
begin

text \<open>
  \<^verbatim>\<open>src/internal/taskqueue\<close>: the per-device task queue (\<open>queue.go\<close>), its persistence hooks
  (\<open>persist.go\<close>) and its recovery after a restart (\<open>recover.go\<close>). Each method runs under the mutex
  of the structure it touches and is one operation on the state; the blocking of \<open>Dequeue\<close> on the
  condition variable is modelled apart, as a step relation, in the last section.
\<close>

section \<open>State\<close>

record deviceQueue =
  dq_tasks :: "PrintTask list"
  dq_closed :: bool

definition newDeviceQueue :: deviceQueue where
  "newDeviceQueue = \<lparr>dq_tasks = [], dq_closed = False\<rparr>"

record 'db Queue =
  q_queues :: "string \<rightharpoonup> deviceQueue"
  q_capacity :: int
  q_repo :: "'db option"
  q_closed :: bool

definition NewQueue :: "int \<Rightarrow> 'db option \<Rightarrow> 'db Queue" where
  "NewQueue capacity repo =
     \<lparr>q_queues = Map.empty, q_capacity = (if capacity \<le> 0 then 100 else capacity),
      q_repo = repo, q_closed = False\<rparr>"

definition Queue_getOrCreate :: "'db Queue \<Rightarrow> string \<Rightarrow> deviceQueue \<times> 'db Queue" where
  "Queue_getOrCreate q deviceID =
     (case q_queues q deviceID of
        Some dq \<Rightarrow> (dq, q)
      | None \<Rightarrow> (newDeviceQueue, q\<lparr>q_queues := (q_queues q)(deviceID \<mapsto> newDeviceQueue)\<rparr>))"

definition Queue_get :: "'db Queue \<Rightarrow> string \<Rightarrow> deviceQueue option" where
  "Queue_get q deviceID = q_queues q deviceID"

definition set_dq :: "'db Queue \<Rightarrow> string \<Rightarrow> deviceQueue \<Rightarrow> 'db Queue" where
  "set_dq q deviceID dq = q\<lparr>q_queues := (q_queues q)(deviceID \<mapsto> dq)\<rparr>"

section \<open>Operations\<close>

text \<open>
  The clone \<open>Enqueue\<close> stores: the submitted task with its status and receive time filled in. The
  argument \<open>now\<close> is the clock at the call.
\<close>

definition enqueue_clone :: "gotime \<Rightarrow> PrintTask \<Rightarrow> PrintTask" where
  "enqueue_clone now task =
     (let c1 = (if t_Status task = [] then task\<lparr>t_Status := TaskStatusPending\<rparr> else task)
      in if IsZero (t_ReceivedAt c1) then c1\<lparr>t_ReceivedAt := now\<rparr> else c1)"

definition Queue_Enqueue ::
  "'db bbolt \<Rightarrow> gob \<Rightarrow> gotime \<Rightarrow> 'db Queue \<Rightarrow> PrintTask option \<Rightarrow> goerror option \<times> 'db Queue" where
  "Queue_Enqueue b g now q tsk =
     (case tsk of
        None \<Rightarrow> (Some (New ErrTaskDataInvalid ''task is nil''), q)
      | Some task \<Rightarrow>
        if t_DeviceID task = [] then (Some (New ErrTaskDataInvalid ''device_id is empty''), q)
        else if t_TaskID task = [] then (Some (New ErrTaskDataInvalid ''task_id is empty''), q)
        else if q_closed q then (Some (New ErrQueueFull ''queue is closed''), q)
        else
          let (dq, q1) = Queue_getOrCreate q (t_DeviceID task)
          in if dq_closed dq then (Some (New ErrQueueFull ''device queue is closed''), q1)
             else if q_capacity q1 \<le> int (length (dq_tasks dq)) then
               (Some (New ErrQueueFull (''device '' @ t_DeviceID task @ '' queue full ('' @
                        itoa (q_capacity q1) @ '')'')), q1)
             else
               let clone = enqueue_clone now task;
                   q2 = set_dq q1 (t_DeviceID task) (dq\<lparr>dq_tasks := dq_tasks dq @ [clone]\<rparr>)
               in case q_repo q2 of
                    None \<Rightarrow> (None, q2)
                  | Some db \<Rightarrow>
                      (None, q2\<lparr>q_repo := Some (snd (TaskRepo_SaveTask b g db (t_DeviceID task) clone))\<rparr>))"

text \<open>
  One pass of the loop of \<open>Dequeue\<close> on the device's queue: \<open>None\<close> when the goroutine goes to sleep
  on the condition variable, to run the pass again when it is woken.
\<close>

definition dq_pass :: "deviceQueue \<Rightarrow> (goerror + PrintTask) option \<times> deviceQueue" where
  "dq_pass dq =
     (if dq_closed dq then (Some (Inl (New ErrQueueEmpty ''device queue is closed'')), dq)
      else case dq_tasks dq of
             task # tasks \<Rightarrow> (Some (Inr task), dq\<lparr>dq_tasks := tasks\<rparr>)
           | [] \<Rightarrow> (None, dq))"

definition Queue_Dequeue :: "'db Queue \<Rightarrow> string \<Rightarrow> (goerror + PrintTask) option \<times> 'db Queue" where
  "Queue_Dequeue q deviceID =
     (let (dq, q1) = Queue_getOrCreate q deviceID; (r, dq') = dq_pass dq
      in (r, set_dq q1 deviceID dq'))"

definition Queue_TryDequeue :: "'db Queue \<Rightarrow> string \<Rightarrow> (goerror + PrintTask) \<times> 'db Queue" where
  "Queue_TryDequeue q deviceID =
     (case Queue_get q deviceID of
        None \<Rightarrow> (Inl (New ErrQueueEmpty (''device '' @ deviceID @ '' queue not found'')), q)
      | Some dq \<Rightarrow>
          (case dq_tasks dq of
             [] \<Rightarrow> (Inl (New ErrQueueEmpty (''device '' @ deviceID @ '' queue empty'')), q)
           | task # tasks \<Rightarrow> (Inr task, set_dq q deviceID (dq\<lparr>dq_tasks := tasks\<rparr>))))"

text \<open>The loop of \<open>Cancel\<close> over the pending tasks: the first task with the id decides.\<close>

fun cancel_scan :: "string \<Rightarrow> PrintTask list \<Rightarrow> goerror + PrintTask list option" where
  "cancel_scan taskID [] = Inr None"
| "cancel_scan taskID (t # ts) =
     (if t_TaskID t = taskID then
        if t_Status t \<noteq> TaskStatusPending then
          Inl (New ErrTaskCancelFail
                 (''task '' @ taskID @ '' status '' @ t_Status t @ '' cannot be cancelled''))
        else Inr (Some ts)
      else case cancel_scan taskID ts of
             Inl err \<Rightarrow> Inl err
           | Inr None \<Rightarrow> Inr None
           | Inr (Some rest) \<Rightarrow> Inr (Some (t # rest)))"

definition Queue_Cancel ::
  "'db bbolt \<Rightarrow> gob \<Rightarrow> 'db Queue \<Rightarrow> string \<Rightarrow> string \<Rightarrow> goerror option \<times> 'db Queue" where
  "Queue_Cancel b g q deviceID taskID =
     (case Queue_get q deviceID of
        None \<Rightarrow> (Some (New ErrTaskNotFound (''device '' @ deviceID @ '' queue not found'')), q)
      | Some dq \<Rightarrow>
          (case cancel_scan taskID (dq_tasks dq) of
             Inl err \<Rightarrow> (Some err, q)
           | Inr None \<Rightarrow>
               (Some (New ErrTaskNotFound
                        (''task '' @ taskID @ '' not found in device '' @ deviceID)), q)
           | Inr (Some rest) \<Rightarrow>
               let q1 = set_dq q deviceID (dq\<lparr>dq_tasks := rest\<rparr>)
               in case q_repo q1 of
                    None \<Rightarrow> (None, q1)
                  | Some db \<Rightarrow>
                      (None, q1\<lparr>q_repo := Some (snd (TaskRepo_DeleteTask b g db deviceID taskID))\<rparr>)))"

definition Queue_ListPending :: "'db Queue \<Rightarrow> string \<Rightarrow> PrintTask list" where
  "Queue_ListPending q deviceID =
     (case Queue_get q deviceID of None \<Rightarrow> [] | Some dq \<Rightarrow> dq_tasks dq)"

definition Queue_PendingCount :: "'db Queue \<Rightarrow> string \<Rightarrow> int" where
  "Queue_PendingCount q deviceID =
     (case Queue_get q deviceID of None \<Rightarrow> 0 | Some dq \<Rightarrow> int (length (dq_tasks dq)))"

definition Queue_Close :: "'db Queue \<Rightarrow> 'db Queue" where
  "Queue_Close q =
     q\<lparr>q_closed := True,
       q_queues := (\<lambda>d. map_option (\<lambda>dq. dq\<lparr>dq_closed := True\<rparr>) (q_queues q d))\<rparr>"

section \<open>Persistence hooks\<close>

definition Persister_SaveTask ::
  "'db bbolt \<Rightarrow> gob \<Rightarrow> 'db option \<Rightarrow> PrintTask \<Rightarrow> goerror option \<times> 'db option" where
  "Persister_SaveTask b g repo task =
     (case repo of
        None \<Rightarrow> (None, None)
      | Some db \<Rightarrow> (case TaskRepo_SaveTask b g db (t_DeviceID task) task of (err, db') \<Rightarrow> (err, Some db')))"

definition Persister_DeleteTask ::
  "'db bbolt \<Rightarrow> gob \<Rightarrow> 'db option \<Rightarrow> string \<Rightarrow> string \<Rightarrow> goerror option \<times> 'db option" where
  "Persister_DeleteTask b g repo deviceID taskID =
     (case repo of
        None \<Rightarrow> (None, None)
      | Some db \<Rightarrow> (case TaskRepo_DeleteTask b g db deviceID taskID of (err, db') \<Rightarrow> (err, Some db')))"

section \<open>Recovery\<close>

definition enqueueRecovered :: "'db Queue \<Rightarrow> PrintTask \<Rightarrow> goerror option \<times> 'db Queue" where
  "enqueueRecovered q task =
     (let (dq, q1) = Queue_getOrCreate q (t_DeviceID task)
      in if dq_closed dq then (Some (New ErrQueueFull ''device queue is closed''), q1)
         else if q_capacity q1 \<le> int (length (dq_tasks dq)) then
           (Some (New ErrQueueFull (''device '' @ t_DeviceID task @ '' queue full'')), q1)
         else (None, set_dq q1 (t_DeviceID task) (dq\<lparr>dq_tasks := dq_tasks dq @ [task]\<rparr>)))"

text \<open>
  The body of the loop over the recovered devices: the tasks in the order of their sequence numbers,
  each put back as pending; a task that cannot be queued is skipped. \<open>sort.Slice\<close> is a stable sort
  here: the keys of one bucket are distinct, so no two tasks of a device compare equal.
\<close>

definition recover_one :: "PrintTask list \<Rightarrow> 'db Queue \<Rightarrow> 'db Queue" where
  "recover_one tasks q =
     fold (\<lambda>task q. snd (enqueueRecovered q (task\<lparr>t_Status := TaskStatusPending\<rparr>)))
       (sort_key t_SeqNo tasks) q"

definition Recoverer_Recover ::
  "'db bbolt \<Rightarrow> gob \<Rightarrow> 'db Queue \<Rightarrow> goerror option \<times> 'db Queue" where
  "Recoverer_Recover b g q =
     (case q_repo q of
        None \<Rightarrow> (None, q)
      | Some db \<Rightarrow>
          (case RecoverAll b g db of
             (Inl err, db') \<Rightarrow>
               (Some (Wrap ErrStorageIO ''recover tasks'' err), q\<lparr>q_repo := Some db'\<rparr>)
           | (Inr result, db') \<Rightarrow>
               (None, fold (\<lambda>(deviceID, tasks) q. recover_one tasks q) result
                        (q\<lparr>q_repo := Some db'\<rparr>))))"

section \<open>The invariant and what each operation does to the pending lists\<close>

definition queue_inv :: "'db Queue \<Rightarrow> bool" where
  "queue_inv q \<longleftrightarrow> 0 < q_capacity q \<and>
     (\<forall>d. int (length (Queue_ListPending q d)) \<le> q_capacity q \<and>
          (\<forall>t \<in> set (Queue_ListPending q d). t_DeviceID t = d))"

definition dev_closed :: "'db Queue \<Rightarrow> string \<Rightarrow> bool" where
  "dev_closed q d \<longleftrightarrow> (case q_queues q d of None \<Rightarrow> False | Some dq \<Rightarrow> dq_closed dq)"

lemmas queue_defs = Queue_ListPending_def Queue_getOrCreate_def Queue_get_def set_dq_def
  newDeviceQueue_def

lemma ListPending_set_dq [simp]:
  "Queue_ListPending (set_dq q d dq) = (Queue_ListPending q)(d := dq_tasks dq)"
  by (auto simp: queue_defs fun_eq_iff)

lemma ListPending_repo [simp]: "Queue_ListPending (q\<lparr>q_repo := r\<rparr>) = Queue_ListPending q"
  by (auto simp: queue_defs fun_eq_iff)

lemma getOrCreate_frame:
  assumes "Queue_getOrCreate q d = (dq, q1)"
  shows "Queue_ListPending q1 = Queue_ListPending q" "dq_tasks dq = Queue_ListPending q d"
    "dq_closed dq = dev_closed q d" "q_capacity q1 = q_capacity q" "q_repo q1 = q_repo q"
    "q_closed q1 = q_closed q" "dev_closed q1 = dev_closed q"
  using assms by (auto simp: queue_defs dev_closed_def fun_eq_iff split: option.splits if_splits)

lemma enqueue_clone_ids [simp]:
  "t_TaskID (enqueue_clone now t) = t_TaskID t" "t_DeviceID (enqueue_clone now t) = t_DeviceID t"
  "t_SeqNo (enqueue_clone now t) = t_SeqNo t"
  by (simp_all add: enqueue_clone_def Let_def)

lemma set_dq_sel [simp]:
  "q_capacity (set_dq q d dq) = q_capacity q" "q_repo (set_dq q d dq) = q_repo q"
  "q_closed (set_dq q d dq) = q_closed q"
  by (simp_all add: set_dq_def)

lemma Enqueue_accepted:
  assumes "Queue_Enqueue b g now q (Some t) = (None, q')"
  shows "t_DeviceID t \<noteq> []" "t_TaskID t \<noteq> []" "\<not> q_closed q" "\<not> dev_closed q (t_DeviceID t)"
    "int (length (Queue_ListPending q (t_DeviceID t))) < q_capacity q"
    "Queue_ListPending q' = (Queue_ListPending q)
       (t_DeviceID t := Queue_ListPending q (t_DeviceID t) @ [enqueue_clone now t])"
    "q_capacity q' = q_capacity q"
    "q_repo q' = map_option (\<lambda>db. snd (TaskRepo_SaveTask b g db (t_DeviceID t) (enqueue_clone now t)))
       (q_repo q)"
proof -
  obtain dq q1 where gc: "Queue_getOrCreate q (t_DeviceID t) = (dq, q1)" by fastforce
  show "t_DeviceID t \<noteq> []" "t_TaskID t \<noteq> []" "\<not> q_closed q" "\<not> dev_closed q (t_DeviceID t)"
    "int (length (Queue_ListPending q (t_DeviceID t))) < q_capacity q"
    "Queue_ListPending q' = (Queue_ListPending q)
       (t_DeviceID t := Queue_ListPending q (t_DeviceID t) @ [enqueue_clone now t])"
    "q_capacity q' = q_capacity q"
    "q_repo q' = map_option (\<lambda>db. snd (TaskRepo_SaveTask b g db (t_DeviceID t) (enqueue_clone now t)))
       (q_repo q)"
    using assms getOrCreate_frame [OF gc]
    by (auto simp: Queue_Enqueue_def gc Let_def split: if_splits option.splits)
qed

lemma Enqueue_rejected:
  assumes "Queue_Enqueue b g now q (Some t) = (Some e, q')"
  shows "Queue_ListPending q' = Queue_ListPending q" "q_capacity q' = q_capacity q"
    "q_repo q' = q_repo q"
    "t_DeviceID t = [] \<or> t_TaskID t = [] \<Longrightarrow> CodeFromErr e = Some ErrTaskDataInvalid"
    "t_DeviceID t \<noteq> [] \<Longrightarrow> t_TaskID t \<noteq> [] \<Longrightarrow> CodeFromErr e = Some ErrQueueFull \<and>
       (q_closed q \<or> dev_closed q (t_DeviceID t) \<or>
        q_capacity q \<le> int (length (Queue_ListPending q (t_DeviceID t))))"
proof -
  obtain dq q1 where gc: "Queue_getOrCreate q (t_DeviceID t) = (dq, q1)" by fastforce
  show "Queue_ListPending q' = Queue_ListPending q" "q_capacity q' = q_capacity q"
    "q_repo q' = q_repo q"
    "t_DeviceID t = [] \<or> t_TaskID t = [] \<Longrightarrow> CodeFromErr e = Some ErrTaskDataInvalid"
    "t_DeviceID t \<noteq> [] \<Longrightarrow> t_TaskID t \<noteq> [] \<Longrightarrow> CodeFromErr e = Some ErrQueueFull \<and>
       (q_closed q \<or> dev_closed q (t_DeviceID t) \<or>
        q_capacity q \<le> int (length (Queue_ListPending q (t_DeviceID t))))"
    using assms getOrCreate_frame [OF gc]
    by (auto simp: Queue_Enqueue_def gc Let_def split: if_splits option.splits)
qed

lemma Dequeue_frame:
  assumes "Queue_Dequeue q d = (r, q')"
  shows "r = Some (Inr t) \<Longrightarrow> Queue_ListPending q d = t # Queue_ListPending q' d \<and>
           (\<forall>d'. d' \<noteq> d \<longrightarrow> Queue_ListPending q' d' = Queue_ListPending q d')"
    and "r = None \<or> r = Some (Inl e) \<Longrightarrow> Queue_ListPending q' = Queue_ListPending q"
    and "q_capacity q' = q_capacity q"
proof -
  obtain dq q1 where gc: "Queue_getOrCreate q d = (dq, q1)" by fastforce
  show "r = Some (Inr t) \<Longrightarrow> Queue_ListPending q d = t # Queue_ListPending q' d \<and>
           (\<forall>d'. d' \<noteq> d \<longrightarrow> Queue_ListPending q' d' = Queue_ListPending q d')"
    "r = None \<or> r = Some (Inl e) \<Longrightarrow> Queue_ListPending q' = Queue_ListPending q"
    "q_capacity q' = q_capacity q"
    using assms getOrCreate_frame [OF gc]
    by (auto simp: Queue_Dequeue_def dq_pass_def gc Let_def split: if_splits list.splits)
qed

lemma TryDequeue_frame:
  assumes "Queue_TryDequeue q d = (r, q')"
  shows "r = Inr t \<Longrightarrow> Queue_ListPending q d = t # Queue_ListPending q' d \<and>
           (\<forall>d'. d' \<noteq> d \<longrightarrow> Queue_ListPending q' d' = Queue_ListPending q d')"
    and "r = Inl e \<Longrightarrow> q' = q" and "q_capacity q' = q_capacity q"
  using assms
  by (auto simp: Queue_TryDequeue_def Queue_get_def Queue_ListPending_def set_dq_def
      split: option.splits list.splits)

lemma cancel_scan_Some:
  "cancel_scan i ts = Inr (Some rest) \<Longrightarrow>
     \<exists>us t vs. ts = us @ t # vs \<and> rest = us @ vs \<and> t_TaskID t = i \<and> t_Status t = TaskStatusPending \<and>
               (\<forall>u \<in> set us. t_TaskID u \<noteq> i)"
proof (induction ts arbitrary: rest)
  case Nil
  then show ?case by simp
next
  case (Cons t ts)
  show ?case
  proof (cases "t_TaskID t = i")
    case True
    with Cons.prems have "t # ts = [] @ t # ts \<and> rest = [] @ ts \<and> t_TaskID t = i \<and>
        t_Status t = TaskStatusPending \<and> (\<forall>u \<in> set []. t_TaskID u \<noteq> i)"
      by (auto split: if_splits)
    then show ?thesis by blast
  next
    case False
    with Cons.prems obtain rest' where r: "cancel_scan i ts = Inr (Some rest')" "rest = t # rest'"
      by (auto split: sum.splits option.splits)
    from Cons.IH [OF r(1)] obtain us u vs where "ts = us @ u # vs" "rest' = us @ vs"
      "t_TaskID u = i" "t_Status u = TaskStatusPending" "\<forall>u \<in> set us. t_TaskID u \<noteq> i" by blast
    with False r(2) have "t # ts = (t # us) @ u # vs \<and> rest = (t # us) @ vs \<and> t_TaskID u = i \<and>
        t_Status u = TaskStatusPending \<and> (\<forall>u \<in> set (t # us). t_TaskID u \<noteq> i)" by simp
    then show ?thesis by blast
  qed
qed

lemma cancel_scan_None: "cancel_scan i ts = Inr None \<longleftrightarrow> (\<forall>t \<in> set ts. t_TaskID t \<noteq> i)"
  by (induction ts) (auto split: sum.splits option.splits)

lemma Cancel_frame:
  assumes "Queue_Cancel b g q d i = (r, q')"
  shows "r = None \<Longrightarrow> \<exists>us t vs. Queue_ListPending q d = us @ t # vs \<and> t_TaskID t = i \<and>
           t_Status t = TaskStatusPending \<and> (\<forall>u \<in> set us. t_TaskID u \<noteq> i) \<and>
           Queue_ListPending q' = (Queue_ListPending q)(d := us @ vs)"
    and "r = Some e \<Longrightarrow> q' = q" and "q_capacity q' = q_capacity q"
proof -
  show "r = None \<Longrightarrow> \<exists>us t vs. Queue_ListPending q d = us @ t # vs \<and> t_TaskID t = i \<and>
           t_Status t = TaskStatusPending \<and> (\<forall>u \<in> set us. t_TaskID u \<noteq> i) \<and>
           Queue_ListPending q' = (Queue_ListPending q)(d := us @ vs)"
  proof -
    assume "r = None"
    with assms obtain dq rest where dq: "Queue_get q d = Some dq"
      "cancel_scan i (dq_tasks dq) = Inr (Some rest)"
      and q': "Queue_ListPending q' = (Queue_ListPending q)(d := rest)"
      by (auto simp: Queue_Cancel_def Let_def split: option.splits sum.splits)
    then show ?thesis
      using cancel_scan_Some [OF dq(2)] by (auto simp: Queue_ListPending_def)
  qed
  show "r = Some e \<Longrightarrow> q' = q" "q_capacity q' = q_capacity q"
    using assms by (auto simp: Queue_Cancel_def Let_def split: option.splits sum.splits)
qed

lemma ListPending_Close [simp]: "Queue_ListPending (Queue_Close q) = Queue_ListPending q"
  by (auto simp: Queue_Close_def Queue_ListPending_def Queue_get_def fun_eq_iff split: option.splits)

lemma Close_sel [simp]: "q_capacity (Queue_Close q) = q_capacity q" "q_closed (Queue_Close q)"
  by (simp_all add: Queue_Close_def)

section \<open>The queue implements the dispatcher's interface\<close>

lemma queue_inv_upd:
  assumes "queue_inv q" "q_capacity q' = q_capacity q"
    and "\<And>d. length (Queue_ListPending q' d) \<le> length (Queue_ListPending q d)"
    and "\<And>d. set (Queue_ListPending q' d) \<subseteq> set (Queue_ListPending q d)"
  shows "queue_inv q'"
  unfolding queue_inv_def
proof (intro conjI allI ballI)
  show "0 < q_capacity q'" using assms(1,2) by (simp add: queue_inv_def)
  fix d
  have "int (length (Queue_ListPending q d)) \<le> q_capacity q"
    using assms(1) by (simp add: queue_inv_def)
  then show "int (length (Queue_ListPending q' d)) \<le> q_capacity q'"
    using assms(2) assms(3) [of d] by simp
  show "t_DeviceID t = d" if "t \<in> set (Queue_ListPending q' d)" for t
    using assms(1) assms(4) [of d] that by (auto simp: queue_inv_def)
qed

lemma queue_inv_same:
  "queue_inv q \<Longrightarrow> q_capacity q' = q_capacity q \<Longrightarrow> Queue_ListPending q' = Queue_ListPending q \<Longrightarrow>
     queue_inv q'"
  by (simp add: queue_inv_def)

lemma queue_inv_snoc:
  assumes "queue_inv q" "q_capacity q' = q_capacity q"
    and "Queue_ListPending q' = (Queue_ListPending q)(t_DeviceID t := Queue_ListPending q (t_DeviceID t) @ [t])"
    and "int (length (Queue_ListPending q (t_DeviceID t))) < q_capacity q"
  shows "queue_inv q'"
  using assms by (auto simp: queue_inv_def)

lemma Enqueue_inv: "queue_inv q \<Longrightarrow> queue_inv (snd (Queue_Enqueue b g now q (Some t)))"
proof (cases "Queue_Enqueue b g now q (Some t)")
  case (Pair r q')
  assume inv: "queue_inv q"
  show ?thesis
  proof (cases r)
    case None
    note acc = Enqueue_accepted [OF Pair [unfolded None]]
    show ?thesis
      using queue_inv_snoc [OF inv acc(7), of "enqueue_clone now t"] acc(5,6) Pair by simp
  next
    case (Some e)
    note rej = Enqueue_rejected [OF Pair [unfolded Some]]
    show ?thesis using queue_inv_same [OF inv rej(2,1)] Pair by simp
  qed
qed

lemma Cancel_inv: "queue_inv q \<Longrightarrow> queue_inv (snd (Queue_Cancel b g q d i))"
proof (cases "Queue_Cancel b g q d i")
  case (Pair r q')
  assume inv: "queue_inv q"
  show ?thesis
  proof (cases r)
    case None
    from Cancel_frame(1) [OF Pair None] obtain us t vs
      where "Queue_ListPending q d = us @ t # vs" "Queue_ListPending q' = (Queue_ListPending q)(d := us @ vs)"
      by blast
    then have "queue_inv q'"
      by (intro queue_inv_upd [OF inv Cancel_frame(3) [OF Pair]]) auto
    then show ?thesis using Pair by simp
  next
    case (Some e)
    then show ?thesis using Cancel_frame(2) [OF Pair] inv Pair by simp
  qed
qed

lemma Dequeue_inv: "queue_inv q \<Longrightarrow> queue_inv (snd (Queue_Dequeue q d))"
proof (cases "Queue_Dequeue q d")
  case (Pair r q')
  assume inv: "queue_inv q"
  consider t where "r = Some (Inr t)" | "r = None" | e where "r = Some (Inl e)"
    by (metis option.exhaust sum.exhaust)
  then show ?thesis
  proof cases
    case 1
    note f = Dequeue_frame(1) [OF Pair 1]
    have "Queue_ListPending q' d' = Queue_ListPending q d' \<or>
        (\<exists>t. Queue_ListPending q d' = t # Queue_ListPending q' d')" for d'
      using f by (cases "d' = d") auto
    then have "length (Queue_ListPending q' d') \<le> length (Queue_ListPending q d')"
      "set (Queue_ListPending q' d') \<subseteq> set (Queue_ListPending q d')" for d'
      by (metis le_refl length_Cons le_SucI, metis set_subset_Cons subset_refl)
    then show ?thesis
      using queue_inv_upd [OF inv Dequeue_frame(3) [OF Pair]] Pair by simp
  qed (use Dequeue_frame(2,3) [OF Pair] queue_inv_same [OF inv] Pair in auto)
qed

lemma Close_inv: "queue_inv q \<Longrightarrow> queue_inv (Queue_Close q)"
  by (rule queue_inv_same) simp_all

lemma NewQueue_inv: "queue_inv (NewQueue n repo)"
  by (simp add: queue_inv_def NewQueue_def Queue_ListPending_def Queue_get_def)

lemma enqueueRecovered_accepted:
  assumes "enqueueRecovered q t = (r, q')"
  shows "r = None \<Longrightarrow> Queue_ListPending q' =
      (Queue_ListPending q)(t_DeviceID t := Queue_ListPending q (t_DeviceID t) @ [t]) \<and>
      int (length (Queue_ListPending q (t_DeviceID t))) < q_capacity q"
    and "r = Some e \<Longrightarrow> Queue_ListPending q' = Queue_ListPending q"
    and "q_capacity q' = q_capacity q"
    and "r = None \<longleftrightarrow> \<not> dev_closed q (t_DeviceID t) \<and>
           int (length (Queue_ListPending q (t_DeviceID t))) < q_capacity q"
proof -
  obtain dq q1 where gc: "Queue_getOrCreate q (t_DeviceID t) = (dq, q1)" by fastforce
  show "r = None \<Longrightarrow> Queue_ListPending q' =
      (Queue_ListPending q)(t_DeviceID t := Queue_ListPending q (t_DeviceID t) @ [t]) \<and>
      int (length (Queue_ListPending q (t_DeviceID t))) < q_capacity q"
    "r = Some e \<Longrightarrow> Queue_ListPending q' = Queue_ListPending q" "q_capacity q' = q_capacity q"
    "r = None \<longleftrightarrow> \<not> dev_closed q (t_DeviceID t) \<and>
           int (length (Queue_ListPending q (t_DeviceID t))) < q_capacity q"
    using assms getOrCreate_frame [OF gc]
    by (auto simp: enqueueRecovered_def gc Let_def split: if_splits)
qed

lemma enqueueRecovered_inv: "queue_inv q \<Longrightarrow> queue_inv (snd (enqueueRecovered q t))"
proof (cases "enqueueRecovered q t")
  case (Pair r q')
  assume inv: "queue_inv q"
  note f = enqueueRecovered_accepted [OF Pair]
  show ?thesis
    using queue_inv_snoc [OF inv f(3), of t] queue_inv_same [OF inv f(3)] f(1,2) Pair
    by (cases r) auto
qed

lemma Recover_inv: "queue_inv q \<Longrightarrow> queue_inv (snd (Recoverer_Recover b g q))"
proof -
  have one: "queue_inv q \<Longrightarrow> queue_inv (recover_one ts q)" for ts and q :: "'a Queue"
    unfolding recover_one_def
    by (rule fold_invariant [where Q = "\<lambda>_. True" and P = queue_inv]) (auto intro: enqueueRecovered_inv)
  have all: "queue_inv q \<Longrightarrow> queue_inv (fold (\<lambda>(deviceID, tasks) q. recover_one tasks q) res q)"
    for res :: "(string \<times> PrintTask list) list" and q :: "'a Queue"
    by (induction res arbitrary: q) (auto intro: one)
  assume "queue_inv q"
  then have "queue_inv (q\<lparr>q_repo := r\<rparr>)" for r by (rule queue_inv_same) simp_all
  with \<open>queue_inv q\<close> show ?thesis
    by (auto simp: Recoverer_Recover_def intro: all split: option.splits prod.splits sum.splits)
qed

interpretation queue: queue_ops "\<lambda>q t. Queue_Enqueue b g now q (Some t)" "Queue_Cancel b g"
  Queue_ListPending "enqueue_clone now" queue_inv for b g now
proof
  fix q :: "'a Queue" and t d i e q'
  show "queue_inv q \<Longrightarrow> queue_inv (snd (Queue_Enqueue b g now q (Some t)))" by (rule Enqueue_inv)
  show "queue_inv q \<Longrightarrow> queue_inv (snd (Queue_Cancel b g q d i))" by (rule Cancel_inv)
  show "Queue_Enqueue b g now q (Some t) = (Some e, q') \<Longrightarrow> Queue_ListPending q' = Queue_ListPending q"
    by (rule Enqueue_rejected(1))
  show "Queue_Enqueue b g now q (Some t) = (None, q') \<Longrightarrow>
      Queue_ListPending q' = (Queue_ListPending q)
        (t_DeviceID t := Queue_ListPending q (t_DeviceID t) @ [enqueue_clone now t])"
    by (rule Enqueue_accepted(6))
  show "Queue_Cancel b g q d i = (Some e, q') \<Longrightarrow> Queue_ListPending q' = Queue_ListPending q"
    using Cancel_frame(2) by blast
  show "Queue_Cancel b g q d i = (None, q') \<Longrightarrow>
      \<exists>us t vs. Queue_ListPending q d = us @ t # vs \<and> t_TaskID t = i \<and>
        t_Status t = TaskStatusPending \<and> Queue_ListPending q' = (Queue_ListPending q)(d := us @ vs)"
    using Cancel_frame(1) by blast
qed simp_all

lemma PendingCount_length: "Queue_PendingCount q d = int (length (Queue_ListPending q d))"
  by (simp add: Queue_PendingCount_def Queue_ListPending_def split: option.splits)

interpretation queue_count: pending_counter Queue_PendingCount Queue_ListPending
  by unfold_locales (rule PendingCount_length)

section \<open>Sequences of operations\<close>

text \<open>
  Any interleaving of the goroutines that use the queue is a sequence of operations. The log of a
  run records what happened at the queue's boundary: the tasks it accepted, the tasks it handed out
  and the tasks it cancelled.
\<close>

datatype qop =
    OpEnqueue gotime PrintTask
  | OpDequeue string
  | OpTryDequeue string
  | OpCancel string string
  | OpClose

datatype qevent = Accepted PrintTask | Taken string PrintTask | Removed string PrintTask

fun qstep :: "'db bbolt \<Rightarrow> gob \<Rightarrow> 'db Queue \<Rightarrow> qop \<Rightarrow> qevent list \<times> 'db Queue" where
  "qstep b g q (OpEnqueue now t) =
     (case Queue_Enqueue b g now q (Some t) of
        (None, q') \<Rightarrow> ([Accepted (enqueue_clone now t)], q')
      | (Some e, q') \<Rightarrow> ([], q'))"
| "qstep b g q (OpDequeue d) =
     (case Queue_Dequeue q d of
        (Some (Inr t), q') \<Rightarrow> ([Taken d t], q')
      | (Some (Inl e), q') \<Rightarrow> ([], q')
      | (None, q') \<Rightarrow> ([], q'))"
| "qstep b g q (OpTryDequeue d) =
     (case Queue_TryDequeue q d of
        (Inr t, q') \<Rightarrow> ([Taken d t], q')
      | (Inl e, q') \<Rightarrow> ([], q'))"
| "qstep b g q (OpCancel d i) =
     (case Queue_Cancel b g q d i of
        (None, q') \<Rightarrow>
          (map (Removed d) (take 1 (filter (\<lambda>t. t_TaskID t = i) (Queue_ListPending q d))), q')
      | (Some e, q') \<Rightarrow> ([], q'))"
| "qstep b g q OpClose = ([], Queue_Close q)"

fun qrun :: "'db bbolt \<Rightarrow> gob \<Rightarrow> 'db Queue \<Rightarrow> qop list \<Rightarrow> qevent list \<times> 'db Queue" where
  "qrun b g q [] = ([], q)"
| "qrun b g q (x # xs) =
     (let (ev, q1) = qstep b g q x; (evs, q2) = qrun b g q1 xs in (ev @ evs, q2))"

fun accepted1 :: "string \<Rightarrow> qevent \<Rightarrow> PrintTask list" where
  "accepted1 d (Accepted t) = (if t_DeviceID t = d then [t] else [])"
| "accepted1 d _ = []"

fun taken1 :: "string \<Rightarrow> qevent \<Rightarrow> PrintTask list" where
  "taken1 d (Taken d' t) = (if d' = d then [t] else [])"
| "taken1 d _ = []"

fun removed1 :: "string \<Rightarrow> qevent \<Rightarrow> PrintTask list" where
  "removed1 d (Removed d' t) = (if d' = d then [t] else [])"
| "removed1 d _ = []"

definition accepted :: "string \<Rightarrow> qevent list \<Rightarrow> PrintTask list" where
  "accepted d log = concat (map (accepted1 d) log)"

definition taken :: "string \<Rightarrow> qevent list \<Rightarrow> PrintTask list" where
  "taken d log = concat (map (taken1 d) log)"

definition removed :: "string \<Rightarrow> qevent list \<Rightarrow> PrintTask list" where
  "removed d log = concat (map (removed1 d) log)"

lemmas log_defs = accepted_def taken_def removed_def

lemma subseq_drop_middle: "subseq (us @ vs) (us @ t # vs)"
  by (induction us) auto

lemma filter_split_first:
  "\<forall>u \<in> set us. \<not> p u \<Longrightarrow> p t \<Longrightarrow> take 1 (filter p (us @ t # vs)) = [t]"
  by (simp add: filter_empty_conv [THEN iffD2])

text \<open>The balance of one operation: what was pending or accepted is handed out, cancelled or pending.\<close>

definition balanced :: "PrintTask list \<Rightarrow> qevent list \<Rightarrow> PrintTask list \<Rightarrow> string \<Rightarrow> bool" where
  "balanced before log after d \<longleftrightarrow>
     subseq (taken d log @ after) (before @ accepted d log) \<and>
     mset before + mset (accepted d log) = mset (taken d log) + mset (removed d log) + mset after"

lemma balanced_step:
  assumes "qstep b g q x = (ev, q')"
  shows "balanced (Queue_ListPending q d) ev (Queue_ListPending q' d) d"
proof (cases x)
  case (OpEnqueue now t)
  obtain r q1 where e: "Queue_Enqueue b g now q (Some t) = (r, q1)" by fastforce
  show ?thesis
  proof (cases r)
    case None
    with assms e OpEnqueue have "ev = [Accepted (enqueue_clone now t)]" "q' = q1" by simp_all
    then show ?thesis
      using Enqueue_accepted(6) [OF e [unfolded None]] by (simp add: balanced_def log_defs)
  next
    case (Some err)
    with assms e OpEnqueue have "ev = []" "q' = q1" by simp_all
    then show ?thesis
      using Enqueue_rejected(1) [OF e [unfolded Some]] by (simp add: balanced_def log_defs)
  qed
next
  case (OpDequeue c)
  obtain r q1 where e: "Queue_Dequeue q c = (r, q1)" by fastforce
  show ?thesis
    using assms e OpDequeue Dequeue_frame [OF e]
    by (cases "c = d"; cases r) (auto simp: balanced_def log_defs split: sum.splits)
next
  case (OpTryDequeue c)
  obtain r q1 where e: "Queue_TryDequeue q c = (r, q1)" by fastforce
  show ?thesis
    using assms e OpTryDequeue TryDequeue_frame [OF e]
    by (cases "c = d"; cases r) (auto simp: balanced_def log_defs)
next
  case (OpCancel c i)
  obtain r q1 where e: "Queue_Cancel b g q c i = (r, q1)" by fastforce
  show ?thesis
  proof (cases r)
    case None
    from Cancel_frame(1) [OF e None] obtain us t vs
      where p: "Queue_ListPending q c = us @ t # vs" "t_TaskID t = i" "\<forall>u \<in> set us. t_TaskID u \<noteq> i"
        "Queue_ListPending q1 = (Queue_ListPending q)(c := us @ vs)" by blast
    have first: "take 1 (filter (\<lambda>t. t_TaskID t = i) (Queue_ListPending q c)) = [t]"
      unfolding p(1) using p(2,3) by (intro filter_split_first) simp_all
    have "ev = [Removed c t]" "q' = q1"
      using assms OpCancel by (simp_all only: qstep.simps e None first prod.case option.case list.map prod.inject)
    then show ?thesis
      using p(1,4) subseq_drop_middle [of us vs t] by (simp add: balanced_def log_defs)
  next
    case (Some err)
    with assms e OpCancel have "ev = []" "q' = q1" by simp_all
    then show ?thesis using Cancel_frame(2) [OF e Some] by (simp add: balanced_def log_defs)
  qed
next
  case OpClose
  with assms show ?thesis by (auto simp: balanced_def log_defs)
qed

lemma balanced_trans:
  assumes "balanced p1 ev p2 d" "balanced p2 evs p3 d"
  shows "balanced p1 (ev @ evs) p3 d"
proof -
  have "subseq (taken d ev @ taken d evs @ p3) (taken d ev @ p2 @ accepted d evs)"
    using assms(2) list_emb_append_mono [of "(=)" "taken d ev" "taken d ev" "taken d evs @ p3" "p2 @ accepted d evs"]
    by (simp add: balanced_def)
  also have "subseq \<dots> (p1 @ accepted d ev @ accepted d evs)"
    using assms(1) list_emb_append_mono [of "(=)" "taken d ev @ p2" "p1 @ accepted d ev" "accepted d evs" "accepted d evs"]
    by (simp add: balanced_def)
  finally have "subseq (taken d (ev @ evs) @ p3) (p1 @ accepted d (ev @ evs))"
    by (simp add: log_defs)
  moreover have "mset p1 + mset (accepted d (ev @ evs)) =
      mset (taken d (ev @ evs)) + mset (removed d (ev @ evs)) + mset p3"
  proof -
    let ?a = "mset (accepted d evs)"
    have "mset p1 + mset (accepted d ev) + ?a = mset (taken d ev) + mset (removed d ev) + (mset p2 + ?a)"
      using assms(1) by (simp add: balanced_def)
    also have "mset p2 + ?a = mset (taken d evs) + mset (removed d evs) + mset p3"
      using assms(2) by (simp add: balanced_def)
    finally show ?thesis by (simp add: log_defs ac_simps)
  qed
  ultimately show ?thesis by (simp only: balanced_def)
qed

lemma balanced_run:
  "qrun b g q xs = (log, q') \<Longrightarrow> balanced (Queue_ListPending q d) log (Queue_ListPending q' d) d"
proof (induction xs arbitrary: q log q')
  case Nil
  then show ?case by (simp add: balanced_def log_defs)
next
  case (Cons x xs)
  obtain ev q1 where s: "qstep b g q x = (ev, q1)" by fastforce
  obtain evs q2 where r: "qrun b g q1 xs = (evs, q2)" by fastforce
  from Cons.prems s r have "log = ev @ evs" "q' = q2" by simp_all
  with balanced_trans [OF balanced_step [OF s] Cons.IH [OF r]] show ?case by simp
qed

lemma qstep_inv: "queue_inv q \<Longrightarrow> queue_inv (snd (qstep b g q x))"
proof (cases x)
  case (OpTryDequeue d)
  assume inv: "queue_inv q"
  obtain r q1 where e: "Queue_TryDequeue q d = (r, q1)" by fastforce
  note f = TryDequeue_frame [OF e]
  have "queue_inv q1"
  proof (cases r)
    case (Inr t)
    show ?thesis
    proof (rule queue_inv_upd [OF inv f(3)])
      show "length (Queue_ListPending q1 d') \<le> length (Queue_ListPending q d')" for d'
        using f(1) [OF Inr] by (cases "d' = d") auto
      show "set (Queue_ListPending q1 d') \<subseteq> set (Queue_ListPending q d')" for d'
        using f(1) [OF Inr] by (cases "d' = d") auto
    qed
  qed (use f(2) inv in auto)
  with e OpTryDequeue show ?thesis by (auto split: sum.splits)
next
  case (OpEnqueue now t)
  assume inv: "queue_inv q"
  from OpEnqueue Enqueue_inv [OF inv, of b g now t] show ?thesis
    by (auto split: prod.splits option.splits)
next
  case (OpDequeue d)
  assume inv: "queue_inv q"
  from OpDequeue Dequeue_inv [OF inv, of d] show ?thesis
    by (auto split: prod.splits option.splits sum.splits)
next
  case (OpCancel d i)
  assume inv: "queue_inv q"
  from OpCancel Cancel_inv [OF inv, of b g d i] show ?thesis
    by (auto split: prod.splits option.splits)
next
  case OpClose
  assume "queue_inv q"
  with OpClose show ?thesis by (simp add: Close_inv)
qed

lemma qrun_inv: "queue_inv q \<Longrightarrow> queue_inv (snd (qrun b g q xs))"
proof (induction xs arbitrary: q)
  case (Cons x xs)
  then show ?case using qstep_inv [OF Cons.prems, of b g x] by (simp add: split_def Let_def)
qed simp


section \<open>Restart\<close>

lemma enqueueRecovered_closed: "dev_closed (snd (enqueueRecovered q t)) = dev_closed q"
proof -
  obtain dq q1 where gc: "Queue_getOrCreate q (t_DeviceID t) = (dq, q1)" by fastforce
  have "dev_closed (set_dq q1 d (dq\<lparr>dq_tasks := ts\<rparr>)) = (dev_closed q1)(d := dq_closed dq)" for d ts
    by (auto simp: dev_closed_def set_dq_def fun_eq_iff)
  then show ?thesis
    using getOrCreate_frame(3,7) [OF gc] by (auto simp: enqueueRecovered_def gc Let_def fun_eq_iff)
qed

text \<open>Queueing the tasks of one device fills the queue up to its capacity, in order.\<close>

definition pend :: "PrintTask \<Rightarrow> PrintTask" where
  "pend t = t\<lparr>t_Status := TaskStatusPending\<rparr>"

lemma recover_fold:
  assumes "\<forall>t \<in> set ts. t_DeviceID t = d" "\<not> dev_closed q d"
  defines "q' \<equiv> fold (\<lambda>task q. snd (enqueueRecovered q (pend task))) ts q"
  shows "Queue_ListPending q' = (Queue_ListPending q)(d := Queue_ListPending q d @
           take (nat (q_capacity q) - length (Queue_ListPending q d)) (map pend ts)) \<and>
         q_capacity q' = q_capacity q \<and> dev_closed q' = dev_closed q"
  using assms(1,2) unfolding q'_def
proof (induction ts arbitrary: q)
  case Nil
  then show ?case by simp
next
  case (Cons t ts)
  obtain r q1 where e: "enqueueRecovered q (pend t) = (r, q1)" by fastforce
  have d: "t_DeviceID (pend t) = d" using Cons.prems(1) by (simp add: pend_def)
  note f = enqueueRecovered_accepted [OF e, unfolded d]
  have c: "dev_closed q1 = dev_closed q" using enqueueRecovered_closed [of q "pend t"] e by simp
  have IH: "Queue_ListPending (fold (\<lambda>task q. snd (enqueueRecovered q (pend task))) ts q1) =
      (Queue_ListPending q1)(d := Queue_ListPending q1 d @
         take (nat (q_capacity q1) - length (Queue_ListPending q1 d)) (map pend ts)) \<and>
      q_capacity (fold (\<lambda>task q. snd (enqueueRecovered q (pend task))) ts q1) = q_capacity q1 \<and>
      dev_closed (fold (\<lambda>task q. snd (enqueueRecovered q (pend task))) ts q1) = dev_closed q1"
    using Cons.prems c by (intro Cons.IH) auto
  show ?case
  proof (cases "int (length (Queue_ListPending q d)) < q_capacity q")
    case True
    with f(4) Cons.prems(2) have "r = None" by simp
    note q1 = f(1) [OF this]
    have n: "nat (q_capacity q) - length (Queue_ListPending q d) =
        Suc (nat (q_capacity q) - Suc (length (Queue_ListPending q d)))"
      using True by linarith
    show ?thesis using IH q1 f(3) c e by (simp add: n)
  next
    case False
    with f(4) obtain err where "r = Some err" by (cases r) auto
    with f(2) have "Queue_ListPending q1 = Queue_ListPending q" by simp
    moreover have "nat (q_capacity q) - length (Queue_ListPending q d) = 0" using False by simp
    ultimately show ?thesis using IH f(3) c e by simp
  qed
qed

lemma recover_one_pending:
  assumes "\<forall>t \<in> set ts. t_DeviceID t = d" "\<not> dev_closed q d"
  shows "Queue_ListPending (recover_one ts q) = (Queue_ListPending q)(d := Queue_ListPending q d @
           take (nat (q_capacity q) - length (Queue_ListPending q d)) (map pend (sort_key t_SeqNo ts)))"
    and "q_capacity (recover_one ts q) = q_capacity q" "dev_closed (recover_one ts q) = dev_closed q"
  using recover_fold [of "sort_key t_SeqNo ts" d q] assms
  by (simp_all add: recover_one_def pend_def [symmetric])

lemma recover_all_pending:
  assumes "distinct (map fst res)" "\<forall>(d, ts) \<in> set res. \<forall>t \<in> set ts. t_DeviceID t = d"
    and "\<forall>d. \<not> dev_closed q d"
  shows "Queue_ListPending (fold (\<lambda>(deviceID, tasks) q. recover_one tasks q) res q) d =
    (case map_of res d of
       None \<Rightarrow> Queue_ListPending q d
     | Some ts \<Rightarrow> Queue_ListPending q d @
         take (nat (q_capacity q) - length (Queue_ListPending q d)) (map pend (sort_key t_SeqNo ts)))"
  using assms
proof (induction res arbitrary: q)
  case Nil
  then show ?case by simp
next
  case (Cons r res)
  obtain dev ts where r: "r = (dev, ts)" by fastforce
  have one: "Queue_ListPending (recover_one ts q) = (Queue_ListPending q)(dev := Queue_ListPending q dev @
           take (nat (q_capacity q) - length (Queue_ListPending q dev)) (map pend (sort_key t_SeqNo ts)))"
    "q_capacity (recover_one ts q) = q_capacity q" "dev_closed (recover_one ts q) = dev_closed q"
    using recover_one_pending [of ts dev q] Cons.prems r by auto
  have "map_of res d = None" if "d = dev"
    using Cons.prems(1) r that by (simp add: map_of_eq_None_iff)
  moreover have "Queue_ListPending (fold (\<lambda>(deviceID, tasks) q. recover_one tasks q) res (recover_one ts q)) d =
    (case map_of res d of
       None \<Rightarrow> Queue_ListPending (recover_one ts q) d
     | Some ts' \<Rightarrow> Queue_ListPending (recover_one ts q) d @
         take (nat (q_capacity q) - length (Queue_ListPending (recover_one ts q) d))
           (map pend (sort_key t_SeqNo ts')))"
  proof -
    have "distinct (map fst res)" "\<forall>(d, ts) \<in> set res. \<forall>t \<in> set ts. t_DeviceID t = d"
      "\<forall>d. \<not> dev_closed (recover_one ts q) d"
      using Cons.prems one(3) by auto
    from Cons.IH [OF this] show ?thesis by (simp only: one(2))
  qed
  ultimately show ?case by (auto simp: r one(1) split: option.splits)
qed

text \<open>The interrupted tasks the repository holds for a device, as they are put back.\<close>

definition interrupted :: "'db bbolt \<Rightarrow> gob \<Rightarrow> 'db \<Rightarrow> string \<Rightarrow> PrintTask set" where
  "interrupted b g db d =
     {recovered t |k t. repo_map b g db d k = Some t \<and> needsRecover (t_Status t)}"

lemma sort_key_recovered:
  assumes "distinct (map (\<lambda>t. taskKey (t_SeqNo t)) ts)" "\<forall>t \<in> set ts. is_int64 (t_SeqNo t)"
    "\<forall>t \<in> set ts. t_Status t = TaskStatusPending"
  shows "map pend (sort_key t_SeqNo ts) = sort_key t_SeqNo ts"
    and "sorted_wrt (<) (map t_SeqNo (sort_key t_SeqNo ts))" and "card (set ts) = length ts"
proof -
  have "pend t = t" if "t \<in> set ts" for t
  proof -
    have "t\<lparr>t_Status := t_Status t\<rparr> = t" by simp
    then show ?thesis using that assms(3) by (simp add: pend_def)
  qed
  then show "map pend (sort_key t_SeqNo ts) = sort_key t_SeqNo ts" by (intro map_idI) simp
  have "distinct (map t_SeqNo ts)"
    using assms(1) unfolding distinct_map by (auto simp: inj_on_def distinct_map)
  then have "distinct (map t_SeqNo (sort_key t_SeqNo ts))" by (simp add: distinct_map)
  then show "sorted_wrt (<) (map t_SeqNo (sort_key t_SeqNo ts))"
    by (simp add: strict_sorted_iff)
  show "card (set ts) = length ts"
    using assms(1) by (simp add: distinct_map distinct_card)
qed

lemma Recover_fresh:
  assumes laws: "bbolt_laws b" "gob_laws g" and ok: "repo_ok b g db"
    and dev: "\<forall>d k t. repo_map b g db d k = Some t \<longrightarrow> t_DeviceID t = d"
    and rec: "Recoverer_Recover b g (NewQueue n (Some db)) = (None, q')"
  obtains ts where "set ts = interrupted b g db d" "distinct (map (\<lambda>t. taskKey (t_SeqNo t)) ts)"
    "Queue_ListPending q' d = take (nat (q_capacity (NewQueue n (Some db)))) (map pend (sort_key t_SeqNo ts))"
proof -
  let ?q = "NewQueue n (Some db)"
  obtain res db' where ra: "RecoverAll b g db = (Inr res, db')"
    and q': "q' = fold (\<lambda>(deviceID, tasks) q. recover_one tasks q) res (?q\<lparr>q_repo := Some db'\<rparr>)"
    using rec by (auto simp: Recoverer_Recover_def NewQueue_def split: prod.splits sum.splits)
  note r = RecoverAll_ok [OF laws ok ra]
  have devs: "\<forall>(d, ts) \<in> set res. \<forall>t \<in> set ts. t_DeviceID t = d"
  proof (clarify)
    fix c us u assume "(c, us) \<in> set res" "u \<in> set us"
    with r(1) [of c u] obtain k t where "repo_map b g db c k = Some t" "u = recovered t" by blast
    with dev show "t_DeviceID u = c" by simp
  qed
  have "\<forall>d. \<not> dev_closed (?q\<lparr>q_repo := Some db'\<rparr>) d" by (simp add: dev_closed_def NewQueue_def)
  note p = recover_all_pending [OF r(3) devs this, of d, folded q']
  have empty: "Queue_ListPending ?q d = []"
    by (simp add: Queue_ListPending_def Queue_get_def NewQueue_def)
  define ts where "ts = (case map_of res d of None \<Rightarrow> [] | Some ts \<Rightarrow> ts)"
  have mem: "(d, us) \<in> set res \<longleftrightarrow> map_of res d = Some us" for us
    using r(3) by simp
  have "u \<in> set ts \<longleftrightarrow> (\<exists>us. (d, us) \<in> set res \<and> u \<in> set us)" for u
    unfolding mem ts_def by (cases "map_of res d") auto
  then have "u \<in> set ts \<longleftrightarrow> u \<in> interrupted b g db d" for u
    unfolding interrupted_def mem_Collect_eq r(1) by blast
  then have "set ts = interrupted b g db d" by blast
  moreover have "distinct (map (\<lambda>t. taskKey (t_SeqNo t)) ts)"
    using r(4) mem unfolding ts_def by (cases "map_of res d") auto
  moreover have "Queue_ListPending q' d = take (nat (q_capacity ?q)) (map pend (sort_key t_SeqNo ts))"
    using p unfolding ts_def by (cases "map_of res d") (simp_all add: empty)
  ultimately show ?thesis by (rule that)
qed

section \<open>Properties of the queue\<close>

text \<open>
  (C2) Conservation and order. From a new queue, whatever sequence of enqueues, dequeues,
  non-blocking dequeues, cancellations and closings follows, the tasks a device's queue accepted are
  exactly those it handed out, those it cancelled and those still pending, each counted once; they
  are handed out in the order they were accepted, pending tasks last (with no cancellation the two
  sequences are equal); and no pending list ever exceeds the capacity.
\<close>

theorem queue_conserves_tasks:
  assumes "qrun b g (NewQueue n repo) ops = (log, q')"
  shows "mset (accepted d log) =
           mset (taken d log) + mset (removed d log) + mset (Queue_ListPending q' d) \<and>
         subseq (taken d log @ Queue_ListPending q' d) (accepted d log) \<and>
         (removed d log = [] \<longrightarrow> taken d log @ Queue_ListPending q' d = accepted d log) \<and>
         Queue_PendingCount q' d \<le> q_capacity q'"
proof -
  have "Queue_ListPending (NewQueue n repo) d = []"
    by (simp add: Queue_ListPending_def Queue_get_def NewQueue_def)
  with balanced_run [OF assms, of d] have bal: "balanced [] log (Queue_ListPending q' d) d" by simp
  have "taken d log @ Queue_ListPending q' d = accepted d log" if "removed d log = []"
  proof (rule subseq_same_length)
    show "subseq (taken d log @ Queue_ListPending q' d) (accepted d log)"
      using bal by (simp add: balanced_def)
    have "mset (accepted d log) = mset (taken d log @ Queue_ListPending q' d)"
      using bal that by (simp add: balanced_def)
    then show "length (taken d log @ Queue_ListPending q' d) = length (accepted d log)"
      by (metis mset_eq_length)
  qed
  moreover note PendingCount_length [of q' d]
  moreover have "queue_inv q'"
    using qrun_inv [OF NewQueue_inv, of b g n repo ops] assms by simp
  ultimately show ?thesis using bal by (simp add: balanced_def queue_inv_def)
qed

text \<open>
  (C12) Restart. When the recovery of a fresh queue returns no error, each device's pending list is
  the interrupted tasks its bucket holds (those that were running or retrying), put back as pending
  in the strict order of their sequence numbers, and cut at the queue's capacity: what the cut leaves out has
  larger sequence numbers than all that is kept.
\<close>

theorem recover_restores_interrupted:
  assumes "bbolt_laws b" "gob_laws g" "repo_ok b g db"
    and "\<forall>d k t. repo_map b g db d k = Some t \<longrightarrow> t_DeviceID t = d \<and> is_int64 (t_SeqNo t)"
    and "Recoverer_Recover b g (NewQueue n (Some db)) = (None, q')"
  shows "sorted_wrt (<) (map t_SeqNo (Queue_ListPending q' d)) \<and>
         set (Queue_ListPending q' d) \<subseteq> interrupted b g db d \<and>
         length (Queue_ListPending q' d) =
           min (nat (q_capacity (NewQueue n (Some db)))) (card (interrupted b g db d)) \<and>
         (int (card (interrupted b g db d)) \<le> q_capacity (NewQueue n (Some db)) \<longrightarrow>
            set (Queue_ListPending q' d) = interrupted b g db d) \<and>
         (\<forall>t \<in> set (Queue_ListPending q' d). \<forall>u \<in> interrupted b g db d - set (Queue_ListPending q' d). t_SeqNo t < t_SeqNo u)"
proof -
  let ?c = "nat (q_capacity (NewQueue n (Some db)))"
  obtain ts where ts: "set ts = interrupted b g db d" "distinct (map (\<lambda>t. taskKey (t_SeqNo t)) ts)"
    and p: "Queue_ListPending q' d = take ?c (map pend (sort_key t_SeqNo ts))"
    using Recover_fresh [OF assms(1-3) _ assms(5), of d] assms(4) by metis
  have "\<forall>t \<in> set ts. is_int64 (t_SeqNo t)" "\<forall>t \<in> set ts. t_Status t = TaskStatusPending"
    using assms(4) by (auto simp: ts(1) interrupted_def)
  note s = sort_key_recovered [OF ts(2) this]
  have L: "Queue_ListPending q' d = take ?c (sort_key t_SeqNo ts)" by (simp add: p s(1))
  have "set (take ?c (sort_key t_SeqNo ts)) \<subseteq> set ts" using set_take_subset by fastforce
  moreover have "sorted_wrt (<) (map t_SeqNo (take ?c (sort_key t_SeqNo ts)))"
    using sorted_wrt_take [OF s(2), of ?c] by (simp add: take_map)
  moreover have "length (take ?c (sort_key t_SeqNo ts)) = min ?c (card (set ts))"
    by (simp add: s(3) min.commute)
  moreover have "set (take ?c (sort_key t_SeqNo ts)) = set ts" if "card (set ts) \<le> ?c"
    using that by (simp add: s(3))
  moreover have "t_SeqNo t < t_SeqNo u" if "t \<in> set (take ?c (sort_key t_SeqNo ts))" "u \<in> set ts - set (take ?c (sort_key t_SeqNo ts))" for t u
  proof -
    have "set ts = set (take ?c (sort_key t_SeqNo ts)) \<union> set (drop ?c (sort_key t_SeqNo ts))"
      by (metis append_take_drop_id set_append set_sort)
    then have "u \<in> set (drop ?c (sort_key t_SeqNo ts))" using that(2) by blast
    moreover have "sorted_wrt (<) (map t_SeqNo (take ?c (sort_key t_SeqNo ts)) @ map t_SeqNo (drop ?c (sort_key t_SeqNo ts)))"
      using s(2) by (simp add: map_append [symmetric] del: map_append)
    ultimately show ?thesis using that(1) by (simp add: sorted_wrt_append)
  qed
  ultimately show ?thesis unfolding L ts(1) [symmetric] by (simp add: le_nat_iff)
qed

text \<open>
  \<open>Enqueue\<close>, every branch: a task without a device or task id is refused as invalid data; a
  closed queue, a closed device queue or a full one refuses with \<open>ErrQueueFull\<close>; otherwise there is no
  error. A refused task changes no pending list; an accepted one is appended to its device's list
  (with its status and receive time filled in) and to no other.
\<close>

theorem enqueue_outcome:
  "(let ok_ids = (t_DeviceID t \<noteq> [] \<and> t_TaskID t \<noteq> []);
        refused = (q_closed q \<or> dev_closed q (t_DeviceID t) \<or>
                   q_capacity q \<le> Queue_PendingCount q (t_DeviceID t));
        (err, q') = Queue_Enqueue b g now q (Some t)
    in (case err of
          None \<Rightarrow> ok_ids \<and> \<not> refused
        | Some e \<Rightarrow> CodeFromErr e = Some (if ok_ids then ErrQueueFull else ErrTaskDataInvalid) \<and>
                    (\<not> ok_ids \<or> refused)) \<and>
       Queue_ListPending q' = (if err = None
         then (Queue_ListPending q)
                (t_DeviceID t := Queue_ListPending q (t_DeviceID t) @ [enqueue_clone now t])
         else Queue_ListPending q))"
proof -
  obtain r q' where e: "Queue_Enqueue b g now q (Some t) = (r, q')" by fastforce
  show ?thesis
  proof (cases r)
    case None
    with Enqueue_accepted [OF e [unfolded None]] e show ?thesis by (simp add: PendingCount_length Let_def)
  next
    case (Some err)
    with Enqueue_rejected [OF e [unfolded Some]] e show ?thesis
      by (cases "t_DeviceID t = [] \<or> t_TaskID t = []") (auto simp: PendingCount_length Let_def)
  qed
qed

lemma cancel_scan_spec:
  "cancel_scan i ts =
     (case find (\<lambda>t. t_TaskID t = i) ts of
        None \<Rightarrow> Inr None
      | Some t \<Rightarrow> if t_Status t = TaskStatusPending then Inr (Some (remove_first (\<lambda>t. t_TaskID t = i) ts))
                  else Inl (New ErrTaskCancelFail
                         (''task '' @ i @ '' status '' @ t_Status t @ '' cannot be cancelled'')))"
  by (induction ts) (auto split: option.splits)

text \<open>
  \<open>Cancel\<close>, every branch: the first pending entry with the task id decides. If there is none the
  error is \<open>ErrTaskNotFound\<close>, if its status is not pending it is \<open>ErrTaskCancelFail\<close>, and in both cases
  the queue is unchanged; otherwise exactly that entry is removed.
\<close>

theorem cancel_outcome:
  "(let (err, q') = Queue_Cancel b g q d i
    in case find (\<lambda>t. t_TaskID t = i) (Queue_ListPending q d) of
         None \<Rightarrow> Option.bind err CodeFromErr = Some ErrTaskNotFound \<and> q' = q
       | Some t \<Rightarrow>
           if t_Status t = TaskStatusPending then
             err = None \<and> Queue_ListPending q' = (Queue_ListPending q)
               (d := remove_first (\<lambda>t. t_TaskID t = i) (Queue_ListPending q d))
           else Option.bind err CodeFromErr = Some ErrTaskCancelFail \<and> q' = q)"
proof (cases "Queue_get q d")
  case None
  then show ?thesis by (simp add: Queue_Cancel_def Queue_ListPending_def)
next
  case (Some dq)
  then have "Queue_ListPending q d = dq_tasks dq" by (simp add: Queue_ListPending_def)
  with Some show ?thesis
    by (auto simp: Queue_Cancel_def cancel_scan_spec Let_def split: option.splits)
qed

section \<open>Closing\<close>

text \<open>
  After \<open>Close\<close>: nothing is accepted any more. A device that had a queue keeps it closed; a device
  that had none, and for which \<open>Dequeue\<close> creates one afterwards, has an open and empty queue.
\<close>

definition after_close :: "bool \<Rightarrow> 'db Queue \<Rightarrow> string \<Rightarrow> bool" where
  "after_close known q d \<longleftrightarrow> q_closed q \<and> dev_closed q d = known \<and>
     (\<not> known \<longrightarrow> Queue_ListPending q d = [])"

lemma dev_closed_set_dq: "dev_closed (set_dq q d dq) = (dev_closed q)(d := dq_closed dq)"
  by (auto simp: dev_closed_def set_dq_def fun_eq_iff)

lemma dq_pass_closed: "dq_pass dq = (r, dq') \<Longrightarrow> dq_closed dq' = dq_closed dq"
  by (auto simp: dq_pass_def split: if_splits list.splits)

lemma Dequeue_closed:
  "Queue_Dequeue q d = (r, q') \<Longrightarrow> q_closed q' = q_closed q \<and> dev_closed q' = dev_closed q"
proof -
  assume a: "Queue_Dequeue q d = (r, q')"
  obtain dq q1 where gc: "Queue_getOrCreate q d = (dq, q1)" by fastforce
  obtain r' dq' where p: "dq_pass dq = (r', dq')" by fastforce
  show ?thesis
    using a getOrCreate_frame [OF gc] dq_pass_closed [OF p]
    by (auto simp: Queue_Dequeue_def gc p dev_closed_set_dq fun_eq_iff split: if_splits)
qed

lemma dev_closed_repo [simp]: "dev_closed (q\<lparr>q_repo := r\<rparr>) = dev_closed q"
  by (simp add: dev_closed_def fun_eq_iff)

lemma dev_closed_keep:
  "q_queues q d = Some dq \<Longrightarrow> dev_closed (set_dq q d (dq\<lparr>dq_tasks := ts\<rparr>)) = dev_closed q"
  by (auto simp: dev_closed_set_dq fun_eq_iff) (simp_all add: dev_closed_def)

lemma TryDequeue_closed:
  "Queue_TryDequeue q d = (r, q') \<Longrightarrow> q_closed q' = q_closed q \<and> dev_closed q' = dev_closed q"
  by (auto simp: Queue_TryDequeue_def Queue_get_def dev_closed_keep split: option.splits list.splits)

lemma Cancel_closed:
  "Queue_Cancel b g q d i = (r, q') \<Longrightarrow> q_closed q' = q_closed q \<and> dev_closed q' = dev_closed q"
  by (auto simp: Queue_Cancel_def Queue_get_def Let_def dev_closed_keep
      split: option.splits sum.splits)

lemma Enqueue_closed: "q_closed q \<Longrightarrow> \<exists>e. Queue_Enqueue b g now q (Some t) = (Some e, q)"
  by (simp add: Queue_Enqueue_def)

lemma after_close_step:
  assumes inv: "after_close known q d" and x: "x \<noteq> OpClose" and s: "qstep b g q x = (ev, q')"
  shows "after_close known q' d \<and> (\<forall>c. accepted c ev = [])"
proof -
  have closed: "q_closed q' \<and> dev_closed q' = dev_closed q \<and> (\<forall>c. accepted c ev = [])"
  proof (cases x)
    case (OpEnqueue now t)
    obtain e where "Queue_Enqueue b g now q (Some t) = (Some e, q)"
      using Enqueue_closed inv unfolding after_close_def by blast
    with OpEnqueue s inv show ?thesis by (auto simp: after_close_def accepted_def)
  next
    case (OpDequeue e)
    with s inv show ?thesis
      by (auto simp: after_close_def accepted_def dest!: Dequeue_closed
          split: prod.splits option.splits sum.splits)
  next
    case (OpTryDequeue e)
    with s inv show ?thesis
      by (auto simp: after_close_def accepted_def dest!: TryDequeue_closed split: prod.splits sum.splits)
  next
    case (OpCancel e i)
    obtain r q1 where c: "Queue_Cancel b g q e i = (r, q1)" by fastforce
    with OpCancel s inv Cancel_closed [OF c] show ?thesis
      by (cases r) (auto simp: after_close_def accepted_def)
  qed (use x in simp)
  moreover have "Queue_ListPending q' d = []" if "\<not> known"
    using balanced_step [OF s, of d] inv that closed by (simp add: after_close_def balanced_def)
  ultimately show ?thesis using inv by (simp add: after_close_def)
qed

lemma after_close_run:
  assumes "after_close known q d" "OpClose \<notin> set xs" "qrun b g q xs = (log, q')"
  shows "after_close known q' d \<and> (\<forall>c. accepted c log = [])"
  using assms
proof (induction xs arbitrary: q log)
  case Nil
  then show ?case by (simp add: accepted_def)
next
  case (Cons x xs)
  obtain ev q1 where s: "qstep b g q x = (ev, q1)" by fastforce
  obtain evs q2 where r: "qrun b g q1 xs = (evs, q2)" by fastforce
  have st: "after_close known q1 d \<and> (\<forall>c. accepted c ev = [])"
    using after_close_step [OF Cons.prems(1) _ s] Cons.prems(2) by auto
  from Cons.prems s r have "log = ev @ evs" "q' = q2" by simp_all
  with Cons.IH [of q1 evs] st r Cons.prems(2) show ?case by (auto simp: accepted_def)
qed

lemma Dequeue_after_close:
  assumes "after_close known q d"
  shows "fst (Queue_Dequeue q d) =
    (if known then Some (Inl (New ErrQueueEmpty ''device queue is closed'')) else None)"
proof -
  obtain dq q1 where gc: "Queue_getOrCreate q d = (dq, q1)" by fastforce
  show ?thesis
    using assms getOrCreate_frame(2,3) [OF gc]
    by (auto simp: Queue_Dequeue_def gc dq_pass_def after_close_def)
qed

text \<open>
  Closing. After \<open>Close\<close>, whatever operations other than another \<open>Close\<close> follow, no task is
  accepted any more. A device that had a queue at that moment answers every \<open>Dequeue\<close> with
  \<open>ErrQueueEmpty\<close>, so that its worker ends; for a device that had none, every \<open>Dequeue\<close> goes to sleep
  (its queue is created open and nothing can be put into it), so that its worker never ends.
\<close>

theorem close_outcome:
  assumes "qrun b g (Queue_Close q) ops = (log, q')" "OpClose \<notin> set ops"
  shows "(\<forall>d. accepted d log = []) \<and>
         fst (Queue_Dequeue q' d) =
           (if q_queues q d = None then None
            else Some (Inl (New ErrQueueEmpty ''device queue is closed'')))"
proof -
  have "after_close (q_queues q d \<noteq> None) (Queue_Close q) d"
    by (auto simp: after_close_def dev_closed_def Queue_Close_def Queue_ListPending_def Queue_get_def
        split: option.splits)
  from after_close_run [OF this assms(2,1)] show ?thesis
    using Dequeue_after_close [of "q_queues q d \<noteq> None" q' d] by auto
qed

section \<open>What a restart keeps of accepted tasks\<close>

text \<open>
  \<open>Enqueue\<close> persists a task with the status it has then, and no other operation of the queue rewrites
  it, so a repository that holds no interrupted task keeps holding none.
\<close>

definition calm :: "'db bbolt \<Rightarrow> gob \<Rightarrow> 'db \<Rightarrow> bool" where
  "calm b g db \<longleftrightarrow> repo_ok b g db \<and>
     (\<forall>d k t. repo_map b g db d k = Some t \<longrightarrow> t_DeviceID t = d \<and> \<not> needsRecover (t_Status t))"

fun waiting_op :: "qop \<Rightarrow> bool" where
  "waiting_op (OpEnqueue now t) \<longleftrightarrow> t_Status t = [] \<or> t_Status t = TaskStatusPending"
| "waiting_op _ \<longleftrightarrow> True"

lemma calm_save:
  assumes laws: "bbolt_laws b" "gob_laws g" and calm: "calm b g db"
    and "\<not> needsRecover (t_Status t)" "t_DeviceID t = dev"
  shows "calm b g (snd (TaskRepo_SaveTask b g db dev t))"
proof -
  obtain r db' where s: "TaskRepo_SaveTask b g db dev t = (r, db')" by fastforce
  show ?thesis
  proof (cases r)
    case None
    note m = SaveTask_repo_map [OF laws s [unfolded None]]
    have "repo_ok b g db'"
      using SaveTask_repo_ok [OF laws _ s [unfolded None]] calm by (simp add: calm_def)
    with m assms show ?thesis by (auto simp: calm_def s split: if_splits)
  next
    case (Some e)
    with s SaveTask_failed [OF laws(1)] have "db' = db" by blast
    with s calm show ?thesis by simp
  qed
qed

lemma calm_delete:
  assumes laws: "bbolt_laws b" and calm: "calm b g db"
  shows "calm b g (snd (TaskRepo_DeleteTask b g db dev i))"
proof -
  obtain r db' where s: "TaskRepo_DeleteTask b g db dev i = (r, db')" by fastforce
  have ok: "repo_ok b g db" using calm by (simp add: calm_def)
  note d = DeleteTask_shrinks [OF laws ok s]
  have "repo_map b g db d k = Some t" if "repo_map b g db' d k = Some t" for d k t
    using d(1) [of d] that by (metis domI map_le_def)
  with calm d(2) show ?thesis unfolding calm_def s snd_conv by blast
qed

lemma calm_step:
  assumes laws: "bbolt_laws b" "gob_laws g" and x: "waiting_op x"
    and calm: "\<forall>db. q_repo q = Some db \<longrightarrow> calm b g db" and s: "qstep b g q x = (ev, q')"
  shows "\<forall>db. q_repo q' = Some db \<longrightarrow> calm b g db"
proof (cases x)
  case (OpEnqueue now t)
  have st: "\<not> needsRecover (t_Status (enqueue_clone now t))"
    using x OpEnqueue by (auto simp: enqueue_clone_def needsRecover_def go_consts Let_def)
  obtain r q1 where e: "Queue_Enqueue b g now q (Some t) = (r, q1)" by fastforce
  show ?thesis
  proof (cases r)
    case None
    with Enqueue_accepted(8) [OF e [unfolded None]] s e OpEnqueue st calm_save [OF laws] calm
    show ?thesis by auto
  next
    case (Some err)
    with Enqueue_rejected(3) [OF e [unfolded Some]] s e OpEnqueue calm show ?thesis by auto
  qed
next
  case (OpDequeue d)
  have "q_repo (snd (Queue_Dequeue q d)) = q_repo q"
    by (auto simp: Queue_Dequeue_def Queue_getOrCreate_def Let_def split: prod.splits option.splits)
  with OpDequeue s calm show ?thesis by (auto split: prod.splits option.splits sum.splits)
next
  case (OpTryDequeue d)
  have "q_repo (snd (Queue_TryDequeue q d)) = q_repo q"
    by (auto simp: Queue_TryDequeue_def split: option.splits list.splits)
  with OpTryDequeue s calm show ?thesis by (auto split: prod.splits sum.splits)
next
  case (OpCancel d i)
  obtain r q1 where e: "Queue_Cancel b g q d i = (r, q1)" by fastforce
  have "q_repo q1 = q_repo q \<or> (\<exists>db. q_repo q = Some db \<and>
      q_repo q1 = Some (snd (TaskRepo_DeleteTask b g db d i)))"
    using e by (auto simp: Queue_Cancel_def Let_def split: option.splits sum.splits)
  moreover have "q' = q1" using s e OpCancel by (cases r) auto
  ultimately show ?thesis using calm calm_delete [OF laws(1)] by auto
next
  case OpClose
  with s calm show ?thesis by (auto simp: Queue_Close_def)
qed

lemma calm_run:
  assumes laws: "bbolt_laws b" "gob_laws g"
  shows "\<forall>x \<in> set xs. waiting_op x \<Longrightarrow> \<forall>db. q_repo q = Some db \<longrightarrow> calm b g db \<Longrightarrow>
    qrun b g q xs = (log, q') \<Longrightarrow> q_repo q' = Some db \<Longrightarrow> calm b g db"
proof (induction xs arbitrary: q log)
  case (Cons x xs)
  obtain ev q1 where s: "qstep b g q x = (ev, q1)" by fastforce
  obtain evs q2 where r: "qrun b g q1 xs = (evs, q2)" by fastforce
  have c: "\<forall>db. q_repo q1 = Some db \<longrightarrow> calm b g db"
    using calm_step [OF laws _ Cons.prems(2) s] Cons.prems(1) by simp
  have "q' = q2" using Cons.prems(3) s r by simp
  with Cons.IH [OF _ c, of evs] r Cons.prems(1,4) show ?case by simp
qed simp

text \<open>What a restart finds when exactly one interrupted task is stored for a device.\<close>

lemma recover_single:
  assumes "bbolt_laws b" "gob_laws g" "repo_ok b g db" "\<forall>d k t. repo_map b g db d k = Some t \<longrightarrow> t_DeviceID t = d"
    "interrupted b g db d = {u}" "t_Status u = TaskStatusPending" "Recoverer_Recover b g (NewQueue n (Some db)) = (None, q')"
  shows "Queue_ListPending q' d = [u]"
proof -
  obtain ts where ts: "set ts = {u}" "distinct (map (\<lambda>t. taskKey (t_SeqNo t)) ts)"
    "Queue_ListPending q' d = take (nat (q_capacity (NewQueue n (Some db)))) (map pend (sort_key t_SeqNo ts))"
    using Recover_fresh [OF assms(1-4,7), of d] assms(5) by metis
  have "distinct ts" using ts(2) by (simp add: distinct_map)
  with ts(1) have "ts = [u]" by (metis distinct_card card.empty card_insert_disjoint finite.emptyI insert_absorb
      insert_not_empty length_0_conv length_Suc_conv list.set_intros(1) list.simps(15) singletonD One_nat_def)
  moreover have "pend u = u" using assms(6) by (simp add: pend_def)
  moreover have "0 < nat (q_capacity (NewQueue n (Some db)))" by (simp add: NewQueue_def)
  ultimately show ?thesis using ts(3) by (cases "nat (q_capacity (NewQueue n (Some db)))") simp_all
qed

text \<open>
  (C40) A restart loses the tasks that were waiting. Run any operations on a queue whose repository
  held no interrupted task, the submitted tasks being pending ones (as the cloud sends them); then let the queue
  accept one more such task, and let the repository save it. The task is pending and stored; yet a
  restart from that repository recovers nothing, for any device. It is the status that decides: had the same
  task been stored as running, the restart would have brought it back.
\<close>

theorem restart_loses_pending:
  assumes "bbolt_laws b" "gob_laws g" "calm b g db" "\<forall>x \<in> set ops. waiting_op x"
    and "qrun b g (NewQueue n (Some db)) ops = (log, q1)" "q_repo q1 = Some db1"
    and "waiting_op (OpEnqueue now t)" "Queue_Enqueue b g now q1 (Some t) = (None, q2)" "c = enqueue_clone now t"
    and "TaskRepo_SaveTask b g db1 (t_DeviceID t) c = (None, db2)"
    and "Recoverer_Recover b g (NewQueue n (Some db2)) = (None, q3)"
  shows "c \<in> set (Queue_ListPending q2 (t_DeviceID t)) \<and> q_repo q2 = Some db2 \<and>
    repo_map b g db2 (t_DeviceID t) (taskKey (t_SeqNo c)) = Some c \<and>
    (\<forall>d. Queue_ListPending q3 d = []) \<and>
    (\<forall>db4 q4. TaskRepo_SaveTask b g db2 (t_DeviceID t) (c\<lparr>t_Status := TaskStatusRunning\<rparr>) = (None, db4) \<longrightarrow>
       Recoverer_Recover b g (NewQueue n (Some db4)) = (None, q4) \<longrightarrow> Queue_ListPending q4 (t_DeviceID t) = [recovered c])"
proof -
  have c1: "calm b g db1"
    using calm_run [OF assms(1,2,4) _ assms(5,6)] assms(3) by (simp add: NewQueue_def)
  have c: "t_DeviceID c = t_DeviceID t" "\<not> needsRecover (t_Status c)"
    using assms(7) by (auto simp: assms(9) enqueue_clone_def needsRecover_def go_consts Let_def)
  have c2: "calm b g db2" using calm_save [OF assms(1,2) c1, of c "t_DeviceID t"] assms(10) c by simp
  have stored: "repo_map b g db2 (t_DeviceID t) (taskKey (t_SeqNo c)) = Some c"
    using SaveTask_repo_map [OF assms(1,2,10)] by simp
  have pending: "c \<in> set (Queue_ListPending q2 (t_DeviceID t))" "q_repo q2 = Some db2"
    using Enqueue_accepted(6,8) [OF assms(8)] assms(6,9,10) by simp_all
  have none: "Queue_ListPending q3 d = []" for d
  proof -
    have "repo_ok b g db2" "\<forall>d k t. repo_map b g db2 d k = Some t \<longrightarrow> t_DeviceID t = d" using c2 by (simp_all add: calm_def)
    from Recover_fresh [OF assms(1,2) this assms(11), of d] obtain ts where "set ts = interrupted b g db2 d"
      "Queue_ListPending q3 d = take (nat (q_capacity (NewQueue n (Some db2)))) (map pend (sort_key t_SeqNo ts))" by metis
    moreover have "interrupted b g db2 d = {}" using c2 by (auto simp: calm_def interrupted_def)
    ultimately show ?thesis by simp
  qed
  have running: "Queue_ListPending q4 (t_DeviceID t) = [recovered c]"
    if s: "TaskRepo_SaveTask b g db2 (t_DeviceID t) (c\<lparr>t_Status := TaskStatusRunning\<rparr>) = (None, db4)"
      and r: "Recoverer_Recover b g (NewQueue n (Some db4)) = (None, q4)" for db4 q4
  proof -
    note m = SaveTask_repo_map [OF assms(1,2) s]
    have ok: "repo_ok b g db4" using SaveTask_repo_ok [OF assms(1,2) _ s] c2 by (simp add: calm_def)
    have dev: "\<forall>d k t. repo_map b g db4 d k = Some t \<longrightarrow> t_DeviceID t = d"
      using c2 c(1) unfolding m calm_def by (auto split: if_splits)
    have "interrupted b g db4 (t_DeviceID t) = {recovered (c\<lparr>t_Status := TaskStatusRunning\<rparr>)}"
      using c2 unfolding interrupted_def m calm_def by (auto simp: needsRecover_def)
    from recover_single [OF assms(1,2) ok dev this _ r] show ?thesis by (simp add: recovered_def)
  qed
  show ?thesis using pending stored none running by blast
qed

section \<open>Witnesses\<close>

definition wq_ops :: "qop list" where
  "wq_ops = [OpEnqueue 5 task_B, OpEnqueue 6 task_A, OpTryDequeue ''D01'', OpEnqueue 7 task_B]"

lemmas wq_eval = wq_ops_def Queue_Enqueue_def Queue_TryDequeue_def Queue_Dequeue_def dq_pass_def
  Queue_getOrCreate_def Queue_get_def set_dq_def newDeviceQueue_def NewQueue_def enqueue_clone_def
  IsZero_def log_defs Queue_ListPending_def Queue_PendingCount_def

lemma wq_run:
  "qrun b g (NewQueue 2 (None :: 'db option)) wq_ops =
     ([Accepted task_B, Accepted task_A, Taken ''D01'' task_B, Accepted task_B],
      \<lparr>q_queues = [''D01'' \<mapsto> \<lparr>dq_tasks = [task_A, task_B], dq_closed = False\<rparr>], q_capacity = 2,
       q_repo = None, q_closed = False\<rparr>)"
  by (simp add: wq_eval task_AB_defs)

theorem queue_conserves_tasks_witness:
  "(let (log, q') = qrun mem_bbolt AB_gob (NewQueue 2 None) wq_ops
    in accepted ''D01'' log = [task_B, task_A, task_B] \<and>
       taken ''D01'' log @ Queue_ListPending q' ''D01'' = accepted ''D01'' log \<and>
       Queue_PendingCount q' ''D01'' \<le> q_capacity q')"
  using queue_conserves_tasks [OF wq_run, of "''D01''"]
  by (simp add: wq_run log_defs task_A_def task_B_def Queue_ListPending_def Queue_get_def
      Queue_PendingCount_def)

lemma repo_map_A: "repo_map mem_bbolt AB_gob db_A d k =
  (if d = ''D01'' \<and> k = taskKey 2 then Some task_A else None)"
proof -
  have "entries mem_bbolt db_A d = (if d = ''D01'' then [(taskKey 2, [0])] else [])"
    by (simp add: entries_def db_A_eq mem_pairs_def)
  then show ?thesis using AB_gob_decode(1) by (simp add: repo_map_def decoded_def)
qed

lemma recover_A: "fst (Recoverer_Recover mem_bbolt AB_gob (NewQueue 2 (Some db_A))) = None"
  by (simp add: Recoverer_Recover_def NewQueue_def recover_all_A)

lemma interrupted_A: "interrupted mem_bbolt AB_gob db_A ''D01'' = {recovered task_A}"
  unfolding interrupted_def repo_map_A by (auto simp: needsRecover_def task_A_def go_consts)

theorem recover_restores_interrupted_witness:
  "set (Queue_ListPending (snd (Recoverer_Recover mem_bbolt AB_gob (NewQueue 2 (Some db_A)))) ''D01'')
     = {recovered task_A}"
proof -
  have rec: "Recoverer_Recover mem_bbolt AB_gob (NewQueue 2 (Some db_A)) =
      (None, snd (Recoverer_Recover mem_bbolt AB_gob (NewQueue 2 (Some db_A))))"
    using recover_A by (metis prod.collapse)
  have "\<forall>d k t. repo_map mem_bbolt AB_gob db_A d k = Some t \<longrightarrow> t_DeviceID t = d \<and> is_int64 (t_SeqNo t)"
    by (simp add: repo_map_A task_A_def is_int64_def split: if_splits)
  from recover_restores_interrupted [OF mem_bbolt_laws AB_gob_laws db_A_ok this rec, of "''D01''"]
  show ?thesis by (simp add: interrupted_A NewQueue_def)
qed

theorem close_outcome_witness:
  "fst (Queue_Dequeue (Queue_Close (NewQueue 2 (None :: mem_db option))) ''D01'') = None \<and>
   fst (Queue_Dequeue (Queue_Close (snd (Queue_Dequeue (NewQueue 2 (None :: mem_db option)) ''D01''))) ''D01'') =
     Some (Inl (New ErrQueueEmpty ''device queue is closed''))"
  using close_outcome [of mem_bbolt AB_gob "NewQueue 2 (None :: mem_db option)" "[]" "[]" _ "''D01''"]
    close_outcome [of mem_bbolt AB_gob "snd (Queue_Dequeue (NewQueue 2 (None :: mem_db option)) ''D01'')"
      "[]" "[]" _ "''D01''"]
  by (simp add: wq_eval)

definition db_B :: mem_db where
  "db_B = snd (TaskRepo_SaveTask mem_bbolt AB_gob mem_empty ''D01'' task_B)"

lemma B_run:
  "qrun mem_bbolt AB_gob (NewQueue 2 (Some mem_empty)) [OpEnqueue 5 task_B] =
     ([Accepted task_B],
      \<lparr>q_queues = [''D01'' \<mapsto> \<lparr>dq_tasks = [task_B], dq_closed = False\<rparr>], q_capacity = 2,
       q_repo = Some db_B, q_closed = False\<rparr>)"
proof -
  have "enqueue_clone 5 task_B = task_B" "t_DeviceID task_B = ''D01''" "t_TaskID task_B = ''B''"
    by (simp_all add: enqueue_clone_def IsZero_def task_B_def go_consts zero_PrintTask_def)
  then show ?thesis
    by (simp add: db_B_def Queue_Enqueue_def Queue_getOrCreate_def set_dq_def newDeviceQueue_def
        NewQueue_def)
qed

lemma calm_empty: "calm mem_bbolt g mem_empty"
  using mem_empty_ok [of g] by (simp add: calm_def repo_map_def entries_def mem_empty_def)

lemma recover_B: "Recoverer_Recover mem_bbolt AB_gob (NewQueue 2 (Some db_B)) = (None, NewQueue 2 (Some db_B))"
proof -
  have saved: "TaskRepo_SaveTask mem_bbolt AB_gob mem_empty ''D01'' task_B = (None, db_B)"
    by (simp add: db_B_def save_mem [OF AB_gob_encode(2)])
  have ok: "repo_ok mem_bbolt AB_gob db_B"
    by (rule SaveTask_repo_ok [OF mem_bbolt_laws AB_gob_laws mem_empty_ok saved])
  have sn: "t_SeqNo task_B = 1" by (simp add: task_B_def)
  have db: "db_B = \<lparr>m_names = [bytes_of (taskBucketName ''D01'')],
      m_ents = (\<lambda>_. [])(bytes_of (taskBucketName ''D01'') := [(taskKey 1, [1])])\<rparr>"
    by (simp add: db_B_def save_mem [OF AB_gob_encode(2)] Let_def mem_empty_def sn)
  have "entries mem_bbolt db_B ''D01'' = [(taskKey 1, [1])]"
    by (simp add: db entries_def mem_pairs_def)
  then have "TaskRepo_LoadTasks mem_bbolt AB_gob db_B ''D01'' = Inr [task_B]"
    using LoadTasks_entries [of mem_bbolt db_B AB_gob "''D01''"] ok AB_gob_decode(2)
    by (simp add: decoded_def)
  moreover have "TaskRepo_ListDeviceBuckets mem_bbolt db_B = Inr [''D01'']"
    by (simp add: TaskRepo_ListDeviceBuckets_def db taskBucketName_def)
  moreover have "\<not> needsRecover (t_Status task_B)"
    by (simp add: needsRecover_def task_B_def go_consts)
  ultimately have "RecoverAll mem_bbolt AB_gob db_B = (Inr [], db_B)"
    by (simp add: RecoverAll_def)
  then show ?thesis by (simp add: Recoverer_Recover_def NewQueue_def)
qed

theorem restart_loses_pending_witness:
  "task_B \<in> set (Queue_ListPending (snd (Queue_Enqueue mem_bbolt AB_gob 5 (NewQueue 2 (Some mem_empty)) (Some task_B))) ''D01'') \<and>
   repo_map mem_bbolt AB_gob db_B ''D01'' (taskKey 1) = Some task_B \<and>
   Queue_ListPending (snd (Recoverer_Recover mem_bbolt AB_gob (NewQueue 2 (Some db_B)))) ''D01'' = []"
proof -
  have B: "enqueue_clone 5 task_B = task_B" "t_DeviceID task_B = ''D01''" "t_SeqNo task_B = 1"
    by (simp_all add: enqueue_clone_def IsZero_def task_B_def go_consts zero_PrintTask_def)
  have w: "\<forall>x \<in> set []. waiting_op x" "waiting_op (OpEnqueue 5 task_B)" by (simp_all add: task_B_def)
  have run: "qrun mem_bbolt AB_gob (NewQueue 2 (Some mem_empty)) [] = ([], NewQueue 2 (Some mem_empty))"
    "q_repo (NewQueue 2 (Some mem_empty)) = Some mem_empty" by (simp_all add: NewQueue_def)
  obtain q2 where q2: "Queue_Enqueue mem_bbolt AB_gob 5 (NewQueue 2 (Some mem_empty)) (Some task_B) = (None, q2)"
    using B_run by (auto split: prod.splits option.splits)
  have saved: "TaskRepo_SaveTask mem_bbolt AB_gob mem_empty (t_DeviceID task_B) task_B = (None, db_B)"
    by (simp add: db_B_def save_mem [OF AB_gob_encode(2)] B)
  from restart_loses_pending [OF mem_bbolt_laws AB_gob_laws calm_empty w(1) run w(2) q2 B(1) [symmetric] saved recover_B]
  show ?thesis unfolding q2 recover_B B snd_conv by blast
qed

theorem enqueue_outcome_witness:
  "fst (Queue_Enqueue mem_bbolt AB_gob 5 (NewQueue 2 None) (Some task_B)) = None \<and>
   Queue_ListPending (snd (Queue_Enqueue mem_bbolt AB_gob 5 (NewQueue 2 None) (Some task_B))) ''D01'' = [task_B]"
  using enqueue_outcome [of task_B "NewQueue 2 None" mem_bbolt AB_gob 5]
  by (simp add: wq_eval dev_closed_def task_AB_defs)

end
