(* ===== verification/QueueSpec.thy ===== *)
theory QueueSpec
  imports TaskQueue
begin

text \<open>
  What the task queue promises, without its locks, records, database and error texts: a list of pending
  tasks per device, a capacity, an open flag, and which devices have a queue and which of those are
  closed. The operations of \<^verbatim>\<open>src/internal/taskqueue/queue.go\<close> refine it step by step, answers included.
\<close>

section \<open>The specification\<close>

record qspec =
  sp_pending :: "string \<Rightarrow> PrintTask list"
  sp_capacity :: int
  sp_open :: bool
  sp_known :: "string set"
  sp_dead :: "string set"

datatype answer = Done | Got PrintTask | Blocks | Refused ErrorCode

definition sp_new :: "int \<Rightarrow> qspec" where
  "sp_new n = \<lparr>sp_pending = (\<lambda>_. []), sp_capacity = (if n \<le> 0 then 100 else n), sp_open = True, sp_known = {}, sp_dead = {}\<rparr>"

definition sp_touch :: "string \<Rightarrow> qspec \<Rightarrow> qspec" where
  "sp_touch d s = s\<lparr>sp_known := insert d (sp_known s)\<rparr>"

definition sp_put :: "string \<Rightarrow> PrintTask list \<Rightarrow> qspec \<Rightarrow> qspec" where
  "sp_put d ts s = s\<lparr>sp_pending := (sp_pending s)(d := ts)\<rparr>"

fun sp_step :: "qop \<Rightarrow> qspec \<Rightarrow> answer \<times> qspec" where
  "sp_step (OpEnqueue now t) s =
     (let d = t_DeviceID t in
      if d = [] \<or> t_TaskID t = [] then (Refused ErrTaskDataInvalid, s)
      else if \<not> sp_open s then (Refused ErrQueueFull, s)
      else if d \<in> sp_dead s \<or> sp_capacity s \<le> int (length (sp_pending s d)) then (Refused ErrQueueFull, sp_touch d s)
      else (Done, sp_put d (sp_pending s d @ [enqueue_clone now t]) (sp_touch d s)))"
| "sp_step (OpDequeue d) s =
     (if d \<in> sp_dead s then (Refused ErrQueueEmpty, sp_touch d s)
      else case sp_pending s d of
             [] \<Rightarrow> (Blocks, sp_touch d s)
           | t # ts \<Rightarrow> (Got t, sp_put d ts (sp_touch d s)))"
| "sp_step (OpTryDequeue d) s =
     (case sp_pending s d of [] \<Rightarrow> (Refused ErrQueueEmpty, s) | t # ts \<Rightarrow> (Got t, sp_put d ts s))"
| "sp_step (OpCancel d i) s =
     (case find (\<lambda>t. t_TaskID t = i) (sp_pending s d) of
        None \<Rightarrow> (Refused ErrTaskNotFound, s)
      | Some t \<Rightarrow>
          if t_Status t = TaskStatusPending
          then (Done, sp_put d (remove_first (\<lambda>t. t_TaskID t = i) (sp_pending s d)) s)
          else (Refused ErrTaskCancelFail, s))"
| "sp_step OpClose s = (Done, s\<lparr>sp_open := False, sp_dead := sp_known s\<rparr>)"

fun sp_run :: "qop list \<Rightarrow> qspec \<Rightarrow> answer list \<times> qspec" where
  "sp_run [] s = ([], s)"
| "sp_run (x # xs) s = (let (a, s1) = sp_step x s; (as, s2) = sp_run xs s1 in (a # as, s2))"

section \<open>The queue as an implementation\<close>

definition abs_q :: "'db Queue \<Rightarrow> qspec" where
  "abs_q q = \<lparr>sp_pending = Queue_ListPending q, sp_capacity = q_capacity q, sp_open = (\<not> q_closed q),
     sp_known = dom (q_queues q), sp_dead = {d. \<exists>dq. q_queues q d = Some dq \<and> dq_closed dq}\<rparr>"

text \<open>The caller's view of an error: its code.\<close>

definition refusal :: "goerror \<Rightarrow> answer" where
  "refusal e = (case CodeFromErr e of Some c \<Rightarrow> Refused c | None \<Rightarrow> Done)"

fun q_step :: "'db bbolt \<Rightarrow> gob \<Rightarrow> qop \<Rightarrow> 'db Queue \<Rightarrow> answer \<times> 'db Queue" where
  "q_step b g (OpEnqueue now t) q =
     (case Queue_Enqueue b g now q (Some t) of (None, q') \<Rightarrow> (Done, q') | (Some e, q') \<Rightarrow> (refusal e, q'))"
| "q_step b g (OpDequeue d) q =
     (case Queue_Dequeue q d of
        (Some (Inr t), q') \<Rightarrow> (Got t, q') | (Some (Inl e), q') \<Rightarrow> (refusal e, q') | (None, q') \<Rightarrow> (Blocks, q'))"
| "q_step b g (OpTryDequeue d) q =
     (case Queue_TryDequeue q d of (Inr t, q') \<Rightarrow> (Got t, q') | (Inl e, q') \<Rightarrow> (refusal e, q'))"
| "q_step b g (OpCancel d i) q =
     (case Queue_Cancel b g q d i of (None, q') \<Rightarrow> (Done, q') | (Some e, q') \<Rightarrow> (refusal e, q'))"
| "q_step b g OpClose q = (Done, Queue_Close q)"

fun q_run :: "'db bbolt \<Rightarrow> gob \<Rightarrow> qop list \<Rightarrow> 'db Queue \<Rightarrow> answer list \<times> 'db Queue" where
  "q_run b g [] q = ([], q)"
| "q_run b g (x # xs) q = (let (a, q1) = q_step b g x q; (as, q2) = q_run b g xs q1 in (a # as, q2))"

section \<open>One step\<close>

lemma refusal_New [simp]: "refusal (New c msg) = Refused c"
  by (simp add: refusal_def)

lemma abs_repo [simp]: "abs_q (q\<lparr>q_repo := r\<rparr>) = abs_q q"
  by (simp add: abs_q_def Queue_ListPending_def [abs_def] Queue_get_def)

lemma abs_touch: "abs_q (snd (Queue_getOrCreate q d)) = sp_touch d (abs_q q)"
  by (auto simp: abs_q_def Queue_getOrCreate_def sp_touch_def Queue_ListPending_def Queue_get_def newDeviceQueue_def
      fun_eq_iff split: option.splits if_splits)

lemma abs_put:
  "q_queues q d = Some dq \<Longrightarrow> abs_q (set_dq q d (dq\<lparr>dq_tasks := ts\<rparr>)) = sp_put d ts (abs_q q)"
  by (auto simp: abs_q_def set_dq_def sp_put_def Queue_ListPending_def Queue_get_def fun_eq_iff split: option.splits if_splits)

lemma getOrCreate_dq:
  assumes "Queue_getOrCreate q d = (dq, q1)"
  shows "q_queues q1 d = Some dq" "dq_tasks dq = sp_pending (abs_q q) d" "dq_closed dq \<longleftrightarrow> d \<in> sp_dead (abs_q q)"
    "abs_q q1 = sp_touch d (abs_q q)" "q_capacity q1 = sp_capacity (abs_q q)"
  using assms abs_touch [of q d]
  by (auto simp: Queue_getOrCreate_def abs_q_def Queue_ListPending_def Queue_get_def newDeviceQueue_def split: option.splits)

lemma Enqueue_refines: "sp_step (OpEnqueue now t) (abs_q q) = apsnd abs_q (q_step b g (OpEnqueue now t) q)"
proof -
  obtain dq q1 where g: "Queue_getOrCreate q (t_DeviceID t) = (dq, q1)" by fastforce
  have "q_closed q \<longleftrightarrow> \<not> sp_open (abs_q q)" by (simp add: abs_q_def)
  with getOrCreate_dq [OF g] g show ?thesis
    by (auto simp: Queue_Enqueue_def Let_def abs_put split: option.splits)
qed

lemma Dequeue_refines: "sp_step (OpDequeue d) (abs_q q) = apsnd abs_q (q_step b g (OpDequeue d) q)"
proof -
  obtain dq q1 where g: "Queue_getOrCreate q d = (dq, q1)" by fastforce
  have same: "set_dq q1 d dq = q1" using getOrCreate_dq(1) [OF g] by (simp add: set_dq_def fun_upd_idem)
  from getOrCreate_dq [OF g] g show ?thesis
    by (auto simp: Queue_Dequeue_def dq_pass_def same abs_put split: list.splits)
qed

lemma TryDequeue_refines: "sp_step (OpTryDequeue d) (abs_q q) = apsnd abs_q (q_step b g (OpTryDequeue d) q)"
proof (cases "q_queues q d")
  case None
  then have "sp_pending (abs_q q) d = []" by (simp add: abs_q_def Queue_ListPending_def Queue_get_def)
  with None show ?thesis by (simp add: Queue_TryDequeue_def Queue_get_def)
next
  case (Some dq)
  then have "sp_pending (abs_q q) d = dq_tasks dq" by (simp add: abs_q_def Queue_ListPending_def Queue_get_def)
  with Some show ?thesis by (auto simp: Queue_TryDequeue_def Queue_get_def abs_put split: list.splits)
qed

lemma Cancel_refines: "sp_step (OpCancel d i) (abs_q q) = apsnd abs_q (q_step b g (OpCancel d i) q)"
proof (cases "q_queues q d")
  case None
  then have "sp_pending (abs_q q) d = []" by (simp add: abs_q_def Queue_ListPending_def Queue_get_def)
  with None show ?thesis by (simp add: Queue_Cancel_def Queue_get_def)
next
  case (Some dq)
  then have "sp_pending (abs_q q) d = dq_tasks dq" by (simp add: abs_q_def Queue_ListPending_def Queue_get_def)
  with Some show ?thesis
    by (auto simp: Queue_Cancel_def Queue_get_def cancel_scan_spec abs_put Let_def split: option.splits)
qed

lemma Close_refines: "sp_step OpClose (abs_q q) = apsnd abs_q (q_step b g OpClose q)"
  by (auto simp: abs_q_def Queue_Close_def Queue_ListPending_def Queue_get_def fun_eq_iff split: option.splits)

lemma step_refines: "sp_step x (abs_q q) = apsnd abs_q (q_step b g x q)"
  by (cases x) (simp_all only: Enqueue_refines [of _ _ q b g] Dequeue_refines [of _ q b g] TryDequeue_refines [of _ q b g]
    Cancel_refines [of _ _ q b g] Close_refines [of q b g])

lemma run_refines: "sp_run xs (abs_q q) = apsnd abs_q (q_run b g xs q)"
  by (induction xs arbitrary: q) (simp_all add: step_refines [where b = b and g = g] case_prod_beta Let_def)

lemma new_refines: "abs_q (NewQueue n repo) = sp_new n"
  by (auto simp: abs_q_def NewQueue_def sp_new_def Queue_ListPending_def Queue_get_def)

section \<open>Refinement\<close>

text \<open>
  (C1) The task queue implements its specification: any sequence of enqueues, dequeues, non-blocking dequeues,
  cancellations and closings of a new queue gives, with or without a database and whatever that does, the
  answers (the task, the error code, or that the caller sleeps) of the specification run from its initial
  state, and ends in a state that represents the specification's.
\<close>

theorem queue_refines_spec:
  "sp_run ops (sp_new n) = (fst (q_run b g ops (NewQueue n repo)), abs_q (snd (q_run b g ops (NewQueue n repo))))"
  unfolding new_refines [of n repo, symmetric] run_refines [where b = b and g = g] by (simp add: apsnd_def map_prod_def case_prod_beta)

end
