(* ===== verification/QueueSync.thy ===== *)
theory QueueSync
  imports TaskQueue
begin

text \<open>
  The blocking of \<open>Queue.Dequeue\<close> (\<^verbatim>\<open>src/internal/taskqueue/queue.go\<close>): the goroutines that wait
  on one device's condition variable, at the grain of its mutex. \<open>Enqueue\<close> appends under the mutex,
  releases it, persists the task and only then signals; \<open>Close\<close> likewise broadcasts after it has set
  the flag. Between the two, other goroutines run. The steps are interleaved in any order.
\<close>

section \<open>State and steps\<close>

text \<open>
  \<open>cv_asleep\<close> counts the goroutines inside \<open>cond.Wait\<close>, \<open>cv_woken\<close> those that have been woken and
  have yet to run their pass again, \<open>cv_owed\<close> the enqueues between their append and their signal, and
  \<open>cv_bcast\<close> tells whether a close is between setting the flag and its broadcast.
\<close>

record cvstate =
  cv_dq :: deviceQueue
  cv_asleep :: nat
  cv_woken :: nat
  cv_owed :: nat
  cv_bcast :: bool

definition cv_init :: cvstate where
  "cv_init = \<lparr>cv_dq = newDeviceQueue, cv_asleep = 0, cv_woken = 0, cv_owed = 0, cv_bcast = False\<rparr>"

definition cv_signal :: "cvstate \<Rightarrow> cvstate" where
  "cv_signal s = (if cv_asleep s = 0 then s
                  else s\<lparr>cv_asleep := cv_asleep s - 1, cv_woken := cv_woken s + 1\<rparr>)"

definition cv_broadcast :: "cvstate \<Rightarrow> cvstate" where
  "cv_broadcast s = s\<lparr>cv_asleep := 0, cv_woken := cv_woken s + cv_asleep s\<rparr>"

text \<open>A goroutine that holds the mutex runs one pass of the loop of \<open>Dequeue\<close>.\<close>

definition cv_pass :: "cvstate \<Rightarrow> (goerror + PrintTask) option \<times> cvstate" where
  "cv_pass s =
     (case dq_pass (cv_dq s) of
        (Some r, dq) \<Rightarrow> (Some r, s\<lparr>cv_dq := dq\<rparr>)
      | (None, dq) \<Rightarrow> (None, s\<lparr>cv_dq := dq, cv_asleep := cv_asleep s + 1\<rparr>))"

inductive cv_step :: "cvstate \<Rightarrow> cvstate \<Rightarrow> bool" where
  cv_append: "\<not> dq_closed (cv_dq s) \<Longrightarrow>
    cv_step s (s\<lparr>cv_dq := (cv_dq s)\<lparr>dq_tasks := dq_tasks (cv_dq s) @ [t]\<rparr>, cv_owed := cv_owed s + 1\<rparr>)"
| cv_notify: "cv_owed s = Suc n \<Longrightarrow> cv_step s (cv_signal (s\<lparr>cv_owed := n\<rparr>))"
| cv_recovered: "\<not> dq_closed (cv_dq s) \<Longrightarrow>
    cv_step s (cv_signal (s\<lparr>cv_dq := (cv_dq s)\<lparr>dq_tasks := dq_tasks (cv_dq s) @ [t]\<rparr>\<rparr>))"
| cv_call: "cv_step s (snd (cv_pass s))"
| cv_rerun: "cv_woken s = Suc n \<Longrightarrow> cv_step s (snd (cv_pass (s\<lparr>cv_woken := n\<rparr>)))"
| cv_remove: "dq_tasks (cv_dq s) = us @ t # vs \<Longrightarrow>
    cv_step s (s\<lparr>cv_dq := (cv_dq s)\<lparr>dq_tasks := us @ vs\<rparr>\<rparr>)"
| cv_close: "cv_step s (s\<lparr>cv_dq := (cv_dq s)\<lparr>dq_closed := True\<rparr>, cv_bcast := True\<rparr>)"
| cv_wakeall: "cv_bcast s \<Longrightarrow> cv_step s (cv_broadcast (s\<lparr>cv_bcast := False\<rparr>))"

abbreviation cv_reachable :: "cvstate \<Rightarrow> bool" where
  "cv_reachable s \<equiv> cv_step\<^sup>*\<^sup>* cv_init s"

section \<open>The invariant\<close>

text \<open>
  As long as somebody sleeps, either the queue is closed and its broadcast is still owed, or every
  task in the list is matched by a goroutine already woken or a signal still owed.
\<close>

definition cv_inv :: "cvstate \<Rightarrow> bool" where
  "cv_inv s \<longleftrightarrow> cv_asleep s = 0 \<or>
     (if dq_closed (cv_dq s) then cv_bcast s
      else length (dq_tasks (cv_dq s)) \<le> cv_woken s + cv_owed s)"

lemma cv_step_inv: "cv_step s s' \<Longrightarrow> cv_inv s \<Longrightarrow> cv_inv s'"
proof (induction rule: cv_step.induct)
  case (cv_rerun s n)
  then show ?case
    by (cases "dq_tasks (cv_dq s)") (auto simp: cv_inv_def cv_pass_def dq_pass_def)
next
  case (cv_call s)
  then show ?case
    by (cases "dq_tasks (cv_dq s)") (auto simp: cv_inv_def cv_pass_def dq_pass_def)
qed (auto simp: cv_inv_def cv_signal_def cv_broadcast_def split: if_splits)

lemma cv_reachable_inv: "cv_reachable s \<Longrightarrow> cv_inv s"
proof (induction rule: rtranclp_induct)
  case base
  then show ?case by (simp add: cv_init_def cv_inv_def)
qed (rule cv_step_inv)

section \<open>Progress\<close>

text \<open>
  The steps that need no new call from outside: the signals and broadcasts that are owed and the
  passes of woken goroutines. \<open>cv_result\<close> is what the next woken goroutine gets.
\<close>

inductive cv_internal :: "cvstate \<Rightarrow> cvstate \<Rightarrow> bool" where
  "cv_owed s = Suc n \<Longrightarrow> cv_internal s (cv_signal (s\<lparr>cv_owed := n\<rparr>))"
| "cv_bcast s \<Longrightarrow> cv_internal s (cv_broadcast (s\<lparr>cv_bcast := False\<rparr>))"

lemma cv_internal_step: "cv_internal s s' \<Longrightarrow> cv_step s s'"
  by (induction rule: cv_internal.induct) (auto intro: cv_step.intros)

definition cv_rerun_result :: "cvstate \<Rightarrow> (goerror + PrintTask) option" where
  "cv_rerun_result s = fst (cv_pass (s\<lparr>cv_woken := cv_woken s - 1\<rparr>))"

lemma cv_rerun_result_head:
  "dq_tasks (cv_dq s) = t # ts \<Longrightarrow> \<not> dq_closed (cv_dq s) \<Longrightarrow> cv_rerun_result s = Some (Inr t)"
  "dq_closed (cv_dq s) \<Longrightarrow> cv_rerun_result s = Some (Inl (New ErrQueueEmpty ''device queue is closed''))"
  by (simp_all add: cv_rerun_result_def cv_pass_def dq_pass_def)

text \<open>A waiter can be woken by what is owed, if there is something for it.\<close>

lemma cv_can_wake:
  assumes inv: "cv_inv s" and waiting: "0 < cv_asleep s + cv_woken s"
    and work: "dq_closed (cv_dq s) \<or> dq_tasks (cv_dq s) \<noteq> []"
  shows "\<exists>s'. cv_internal\<^sup>*\<^sup>* s s' \<and> 0 < cv_woken s' \<and> cv_dq s' = cv_dq s"
proof (cases "cv_woken s")
  case (Suc n)
  then show ?thesis by auto
next
  case 0
  with waiting have a: "0 < cv_asleep s" by simp
  show ?thesis
  proof (cases "dq_closed (cv_dq s)")
    case True
    with inv a have "cv_bcast s" by (simp add: cv_inv_def)
    then have "cv_internal s (cv_broadcast (s\<lparr>cv_bcast := False\<rparr>))" by (rule cv_internal.intros)
    moreover have "0 < cv_woken (cv_broadcast (s\<lparr>cv_bcast := False\<rparr>))"
      "cv_dq (cv_broadcast (s\<lparr>cv_bcast := False\<rparr>)) = cv_dq s"
      using a by (simp_all add: cv_broadcast_def)
    ultimately show ?thesis by blast
  next
    case False
    with inv a 0 work obtain n where "cv_owed s = Suc n"
      by (cases "cv_owed s") (auto simp: cv_inv_def)
    then have "cv_internal s (cv_signal (s\<lparr>cv_owed := n\<rparr>))" by (rule cv_internal.intros)
    moreover have "0 < cv_woken (cv_signal (s\<lparr>cv_owed := n\<rparr>))"
      "cv_dq (cv_signal (s\<lparr>cv_owed := n\<rparr>)) = cv_dq s"
      using a by (simp_all add: cv_signal_def)
    ultimately show ?thesis by blast
  qed
qed

section \<open>Properties\<close>

text \<open>
  (C14) No wake-up is lost. In every reachable interleaving of enqueues, recovered tasks, blocking
  dequeues, removals and closings: when no signal and no broadcast is still on its way, a goroutine
  sleeping in \<open>Dequeue\<close> means that the queue is open and that there are no more tasks in it than
  goroutines already woken to take them; if none is woken, the queue is empty. And whenever a
  goroutine waits (asleep or woken) while there is a task or the queue is closed, the signals already
  on their way suffice to wake one that then returns with the oldest task, or with the error of a
  closed queue.
\<close>

theorem no_lost_wakeup:
  assumes "cv_reachable s"
  shows "(cv_owed s = 0 \<and> \<not> cv_bcast s \<and> 0 < cv_asleep s \<longrightarrow>
            \<not> dq_closed (cv_dq s) \<and> length (dq_tasks (cv_dq s)) \<le> cv_woken s) \<and>
         (0 < cv_asleep s + cv_woken s \<and> (dq_closed (cv_dq s) \<or> dq_tasks (cv_dq s) \<noteq> []) \<longrightarrow>
            (\<exists>s'. cv_internal\<^sup>*\<^sup>* s s' \<and> 0 < cv_woken s' \<and>
               cv_rerun_result s' =
                 Some (if dq_closed (cv_dq s) then Inl (New ErrQueueEmpty ''device queue is closed'')
                       else Inr (hd (dq_tasks (cv_dq s))))))"
proof (intro conjI impI)
  have inv: "cv_inv s" by (rule cv_reachable_inv [OF assms])
  assume q: "cv_owed s = 0 \<and> \<not> cv_bcast s \<and> 0 < cv_asleep s"
  with inv show "\<not> dq_closed (cv_dq s)" by (auto simp: cv_inv_def)
  with inv q show "length (dq_tasks (cv_dq s)) \<le> cv_woken s" by (simp add: cv_inv_def)
next
  have inv: "cv_inv s" by (rule cv_reachable_inv [OF assms])
  assume w: "0 < cv_asleep s + cv_woken s \<and> (dq_closed (cv_dq s) \<or> dq_tasks (cv_dq s) \<noteq> [])"
  from w have "0 < cv_asleep s + cv_woken s" "dq_closed (cv_dq s) \<or> dq_tasks (cv_dq s) \<noteq> []" by auto
  from cv_can_wake [OF inv this] obtain s'
    where s': "cv_internal\<^sup>*\<^sup>* s s'" "0 < cv_woken s'" "cv_dq s' = cv_dq s" by blast
  have "cv_rerun_result s' =
      Some (if dq_closed (cv_dq s) then Inl (New ErrQueueEmpty ''device queue is closed'')
            else Inr (hd (dq_tasks (cv_dq s))))"
    using w s'(3) cv_rerun_result_head [of s'] by (cases "dq_tasks (cv_dq s)") auto
  with s'(1,2) show "\<exists>s'. cv_internal\<^sup>*\<^sup>* s s' \<and> 0 < cv_woken s' \<and> cv_rerun_result s' =
      Some (if dq_closed (cv_dq s) then Inl (New ErrQueueEmpty ''device queue is closed'')
            else Inr (hd (dq_tasks (cv_dq s))))" by blast
qed

section \<open>Witness\<close>

text \<open>A goroutine goes to sleep on the empty queue, then a task is appended.\<close>

definition cv_w :: cvstate where
  "cv_w = \<lparr>cv_dq = \<lparr>dq_tasks = [task_B], dq_closed = False\<rparr>, cv_asleep = 1, cv_woken = 0, cv_owed = 1,
     cv_bcast = False\<rparr>"

lemma cv_w_reachable: "cv_reachable cv_w"
proof -
  define s1 where "s1 = snd (cv_pass cv_init)"
  have s1: "s1 = \<lparr>cv_dq = newDeviceQueue, cv_asleep = 1, cv_woken = 0, cv_owed = 0, cv_bcast = False\<rparr>"
    by (simp add: s1_def cv_pass_def cv_init_def dq_pass_def newDeviceQueue_def)
  have "cv_step cv_init s1" unfolding s1_def by (rule cv_step.intros)
  moreover have "cv_step s1 cv_w"
    using cv_append [of s1 task_B] by (simp add: s1 newDeviceQueue_def cv_w_def)
  ultimately show ?thesis by (meson rtranclp.rtrancl_into_rtrancl rtranclp.rtrancl_refl)
qed

theorem no_lost_wakeup_witness:
  "\<exists>s'. cv_internal\<^sup>*\<^sup>* cv_w s' \<and> 0 < cv_woken s' \<and> cv_rerun_result s' = Some (Inr task_B)"
  using no_lost_wakeup [OF cv_w_reachable] by (simp add: cv_w_def)

end
