(* ===== verification/NetAddr.thy ===== *)
theory NetAddr
  imports Prelude
begin

text \<open>
  The part of Go's \<open>net\<close> and \<open>net/netip\<close> packages the agent decides with: \<open>ParseIP\<close>, \<open>To4\<close> and
  \<open>IsLoopback\<close> (used by the device manager, the configuration and the operations interface), and the
  quoting verb of its error messages.
\<close>

section \<open>IPv4\<close>

text \<open>One decimal field: digits only, no leading zero, at most 255.\<close>

definition ip4_field :: "string \<Rightarrow> nat option" where
  "ip4_field s =
     (if s = [] \<or> (1 < length s \<and> hd s = CHR ''0'') then None
      else case digits_val 0 s of None \<Rightarrow> None | Some n \<Rightarrow> if n \<le> 255 then Some n else None)"

definition parseIPv4 :: "string \<Rightarrow> bytes option" where
  "parseIPv4 s =
     (case map ip4_field (split_str CHR ''.'' s) of
        [Some a, Some b, Some c, Some d] \<Rightarrow> Some [of_nat a, of_nat b, of_nat c, of_nat d]
      | _ \<Rightarrow> None)"

section \<open>IPv6\<close>

definition hex_val :: "char \<Rightarrow> nat option" where
  "hex_val c = map_of (zip ''0123456789abcdefABCDEF'' ([0..<16] @ [10..<16])) c"

fun hex_vals :: "nat \<Rightarrow> string \<Rightarrow> nat" where
  "hex_vals acc [] = acc"
| "hex_vals acc (c # cs) = (case hex_val c of None \<Rightarrow> acc | Some v \<Rightarrow> hex_vals (16 * acc + v) cs)"

text \<open>
  The loop of \<open>parseIPv6\<close>: \<open>k\<close> groups may still follow, \<open>ip\<close> holds the bytes read so far, \<open>ell\<close> where
  an ellipsis was. The result is the bytes and the ellipsis at the end of the string.
\<close>

fun ip6_loop :: "nat \<Rightarrow> string \<Rightarrow> bytes \<Rightarrow> nat option \<Rightarrow> (bytes \<times> nat option) option" where
  "ip6_loop 0 s ip ell = (if s = [] then Some (ip, ell) else None)"
| "ip6_loop (Suc k) s ip ell =
     (let hex = takeWhile (\<lambda>c. hex_val c \<noteq> None) s; rest = drop (length hex) s; acc = hex_vals 0 hex
      in if hex = [] \<or> 4 < length hex then None
         else if rest \<noteq> [] \<and> hd rest = CHR ''.'' then
           if (ell = None \<and> length ip \<noteq> 12) \<or> 16 < length ip + 4 then None
           else map_option (\<lambda>bs. (ip @ bs, ell)) (parseIPv4 s)
         else
           let ip' = ip @ [of_nat (acc div 256), of_nat (acc mod 256)]
           in case rest of
                [] \<Rightarrow> Some (ip', ell)
              | c # s1 \<Rightarrow>
                  if c \<noteq> CHR '':'' \<or> s1 = [] then None
                  else if hd s1 = CHR '':'' then
                    (if ell \<noteq> None then None
                     else if tl s1 = [] then Some (ip', Some (length ip'))
                     else ip6_loop k (tl s1) ip' (Some (length ip')))
                  else ip6_loop k s1 ip' ell)"

definition ip6_expand :: "bytes \<times> nat option \<Rightarrow> bytes option" where
  "ip6_expand r =
     (case r of (ip, ell) \<Rightarrow>
        if length ip < 16 then
          (case ell of
             None \<Rightarrow> None
           | Some e \<Rightarrow> Some (take e ip @ replicate (16 - length ip) 0 @ drop e ip))
        else if ell \<noteq> None then None else Some ip)"

definition parseIPv6 :: "string \<Rightarrow> bytes option" where
  "parseIPv6 s =
     (if has_prefix s ''::'' then
        if drop 2 s = [] then Some (replicate 16 0)
        else Option.bind (ip6_loop 8 (drop 2 s) [] (Some 0)) ip6_expand
      else Option.bind (ip6_loop 8 s [] None) ip6_expand)"

section \<open>ParseIP, To4, IsLoopback\<close>

text \<open>
  \<open>netip.ParseAddr\<close> looks for the first dot, colon or percent sign; \<open>net.ParseIP\<close> refuses an address
  with a zone. An IPv4 address is kept in its 16-byte form.
\<close>

definition v4InV6Prefix :: bytes where
  "v4InV6Prefix = replicate 10 0 @ [0xff, 0xff]"

definition ParseIP :: "string \<Rightarrow> bytes option" where
  "ParseIP s =
     (case dropWhile (\<lambda>c. c \<notin> {CHR ''.'', CHR '':'', CHR ''%''}) s of
        [] \<Rightarrow> None
      | c # _ \<Rightarrow>
          if c = CHR ''.'' then map_option (\<lambda>b. v4InV6Prefix @ b) (parseIPv4 s)
          else if c = CHR '':'' then (if CHR ''%'' \<in> set s then None else parseIPv6 s)
          else None)"

definition To4 :: "bytes \<Rightarrow> bytes option" where
  "To4 ip =
     (if length ip = 4 then Some ip
      else if length ip = 16 \<and> take 12 ip = v4InV6Prefix then Some (drop 12 ip)
      else None)"

definition IsLoopback :: "bytes \<Rightarrow> bool" where
  "IsLoopback ip =
     (case To4 ip of
        Some ip4 \<Rightarrow> hd ip4 = 127
      | None \<Rightarrow> ip = replicate 15 0 @ [1])"

section \<open>Quoting\<close>

text \<open>
  The verb \<^verbatim>\<open>%q\<close>: quotes, backslashes and control characters are escaped; bytes outside ASCII are
  kept, as they are for printable UTF-8 text.
\<close>

definition quote_char :: "char \<Rightarrow> string" where
  "quote_char c =
     (let n = of_char c :: nat
      in if n = 34 then [CHR 0x5C, CHR 0x22]
         else if n = 92 then [CHR 0x5C, CHR 0x5C]
         else case map_of (zip [7, 8, 12, 10, 13, 9, 11] ''abfnrtv'') n of
                Some e \<Rightarrow> [CHR 0x5C, e]
              | None \<Rightarrow> if n < 32 \<or> n = 127 then [CHR 0x5C] @ ''x'' @ hex_byte (of_nat n) else [c])"

definition go_quote :: "string \<Rightarrow> string" where
  "go_quote s = [CHR 0x22] @ concat (map quote_char s) @ [CHR 0x22]"

section \<open>What an IPv4 address looks like\<close>

lemma digit_val_Some: "digit_val c = Some d \<Longrightarrow> d < 10 \<and> c = ''0123456789'' ! d"
  unfolding digit_val_def by (drule map_of_SomeD, unfold in_set_zip) auto

lemma digit_val_zero: "digit_val CHR ''0'' = Some 0"
  using digit_val_nth [of 0] by simp

lemma itoa_nat_hd: "0 < n \<Longrightarrow> hd (itoa_nat n) \<noteq> CHR ''0''"
proof (induction n rule: less_induct)
  case (less n)
  show ?case
  proof (cases "n < 10")
    case True
    have "''0123456789'' ! n \<noteq> CHR ''0''"
      using digit_val_nth [OF True] less.prems digit_val_zero by (auto simp del: digit_val_nth)
    with True show ?thesis by (simp add: itoa_nat.simps)
  next
    case False
    then have "hd (itoa_nat (n div 10)) \<noteq> CHR ''0''" by (intro less.IH) auto
    with False show ?thesis by (simp add: itoa_nat.simps [of n] hd_append)
  qed
qed

lemma digits_val_canonical:
  "digits_val 0 s = Some n \<Longrightarrow> s \<noteq> [] \<Longrightarrow> length s = 1 \<or> hd s \<noteq> CHR ''0'' \<Longrightarrow> s = itoa_nat n"
proof (induction s arbitrary: n rule: rev_induct)
  case Nil
  then show ?case by simp
next
  case (snoc c s)
  from snoc.prems(1) obtain v d where vd: "digits_val 0 s = Some v" "digit_val c = Some d" "n = 10 * v + d"
    by (auto simp: digits_val_snoc bind_eq_Some_conv)
  note d = digit_val_Some [OF vd(2)]
  show ?case
  proof (cases "s = []")
    case True
    with vd d show ?thesis by (simp add: itoa_nat.simps)
  next
    case False
    with snoc.prems(3) have h: "hd s \<noteq> CHR ''0''" by (cases s) auto
    with snoc.IH [OF vd(1) False] have s: "s = itoa_nat v" by simp
    have "v \<noteq> 0"
    proof
      assume "v = 0"
      with s h show False by (simp add: itoa_nat.simps)
    qed
    then have "\<not> n < 10" "n div 10 = v" "n mod 10 = d" using vd(3) d by auto
    with s d show ?thesis by (simp add: itoa_nat.simps [of n])
  qed
qed

lemma ip4_field_iff: "ip4_field s = Some n \<longleftrightarrow> n \<le> 255 \<and> s = itoa_nat n"
proof
  assume f: "ip4_field s = Some n"
  then have "digits_val 0 s = Some n" "n \<le> 255" "s \<noteq> []" "length s \<le> 1 \<or> hd s \<noteq> CHR ''0''"
    by (auto simp: ip4_field_def split: if_splits option.splits)
  moreover from this have "length s = 1 \<or> hd s \<noteq> CHR ''0''" by (cases s) auto
  ultimately show "n \<le> 255 \<and> s = itoa_nat n" using digits_val_canonical by blast
next
  assume n: "n \<le> 255 \<and> s = itoa_nat n"
  have "\<not> (1 < length (itoa_nat n) \<and> hd (itoa_nat n) = CHR ''0'')"
    using itoa_nat_hd [of n] by (cases "n = 0") (auto simp: itoa_nat.simps)
  with n show "ip4_field s = Some n" by (simp add: ip4_field_def digits_val_itoa_nat)
qed

fun join_str :: "char \<Rightarrow> string list \<Rightarrow> string" where
  "join_str sep [] = []"
| "join_str sep [w] = w"
| "join_str sep (w # ws) = w @ [sep] @ join_str sep ws"

lemma join_split: "join_str sep (split_str sep s) = s"
proof (induction s)
  case (Cons c s)
  then show ?case
    by (cases "split_str sep s") (auto, (metis join_str.elims append_Cons join_str.simps(2,3) neq_Nil_conv)+)
qed simp

lemma split_str_word: "sep \<notin> set w \<Longrightarrow> split_str sep w = [w]"
  by (induction w) auto

lemma split_str_cons: "sep \<notin> set w \<Longrightarrow> split_str sep (w @ sep # s) = w # split_str sep s"
  by (induction w) auto

definition dotted :: "nat \<Rightarrow> nat \<Rightarrow> nat \<Rightarrow> nat \<Rightarrow> string" where
  "dotted a b c d = itoa_nat a @ ''.'' @ itoa_nat b @ ''.'' @ itoa_nat c @ ''.'' @ itoa_nat d"

lemma no_dot: "CHR ''.'' \<notin> set (itoa_nat n)"
  using itoa_nat_digits [of "CHR ''.''" n] by (auto simp: digit_val_def)

lemma split_dotted: "split_str CHR ''.'' (dotted a b c d) = [itoa_nat a, itoa_nat b, itoa_nat c, itoa_nat d]"
  by (simp add: dotted_def split_str_cons split_str_word no_dot)

lemma parseIPv4_iff:
  "parseIPv4 s = Some ip \<longleftrightarrow>
     (\<exists>a b c d. a \<le> 255 \<and> b \<le> 255 \<and> c \<le> 255 \<and> d \<le> 255 \<and> s = dotted a b c d \<and>
        ip = [of_nat a, of_nat b, of_nat c, of_nat d])" (is "_ \<longleftrightarrow> ?rhs")
proof
  assume "parseIPv4 s = Some ip"
  then obtain a b c d where m: "map ip4_field (split_str CHR ''.'' s) = [Some a, Some b, Some c, Some d]"
    and ip: "ip = [of_nat a, of_nat b, of_nat c, of_nat d]"
    by (auto simp: parseIPv4_def split: list.splits option.splits)
  from m obtain w x y z where "split_str CHR ''.'' s = [w, x, y, z]" and f:
    "ip4_field w = Some a" "ip4_field x = Some b" "ip4_field y = Some c" "ip4_field z = Some d"
    by (auto simp: map_eq_Cons_conv)
  then have "s = join_str CHR ''.'' [w, x, y, z]" using join_split [of "CHR ''.''" s] by simp
  then have "s = dotted a b c d" using f by (simp add: ip4_field_iff dotted_def)
  with f ip show ?rhs by (auto simp: ip4_field_iff)
next
  assume ?rhs
  then show "parseIPv4 s = Some ip"
    by (auto simp: parseIPv4_def split_dotted ip4_field_iff [THEN iffD2])
qed

lemma dropWhile_dotted: "\<exists>r. dropWhile (\<lambda>c. c \<notin> {CHR ''.'', CHR '':'', CHR ''%''}) (dotted a b c d) = CHR ''.'' # r"
proof -
  have "x \<notin> {CHR ''.'', CHR '':'', CHR ''%''}" if "x \<in> set (itoa_nat a)" for x
    using itoa_nat_digits [OF that] by (auto simp: digit_val_def)
  then show ?thesis by (simp add: dotted_def dropWhile_append2)
qed

lemma ParseIP_dotted:
  assumes "a \<le> 255" "b \<le> 255" "c \<le> 255" "d \<le> 255"
  shows "ParseIP (dotted a b c d) = Some (v4InV6Prefix @ [of_nat a, of_nat b, of_nat c, of_nat d])"
proof -
  obtain r where r: "dropWhile (\<lambda>c. c \<notin> {CHR ''.'', CHR '':'', CHR ''%''}) (dotted a b c d) = CHR ''.'' # r"
    using dropWhile_dotted by blast
  have "parseIPv4 (dotted a b c d) = Some [of_nat a, of_nat b, of_nat c, of_nat d]"
    using assms by (auto simp: parseIPv4_iff)
  with r show ?thesis unfolding ParseIP_def r by simp
qed

definition dotted_quad :: "string \<Rightarrow> bool" where
  "dotted_quad s \<longleftrightarrow> (\<exists>a b c d. a \<le> 255 \<and> b \<le> 255 \<and> c \<le> 255 \<and> d \<le> 255 \<and> s = dotted a b c d)"

text \<open>Without a colon, an accepted address is a canonical dotted quad.\<close>

lemma ParseIP_no_colon:
  assumes "CHR '':'' \<notin> set s" "ParseIP s = Some ip"
  shows "\<exists>a b c d. a \<le> 255 \<and> b \<le> 255 \<and> c \<le> 255 \<and> d \<le> 255 \<and> s = dotted a b c d \<and>
    ip = v4InV6Prefix @ [of_nat a, of_nat b, of_nat c, of_nat d]"
proof -
  let ?d = "dropWhile (\<lambda>c. c \<notin> {CHR ''.'', CHR '':'', CHR ''%''}) s"
  have "?d \<noteq> []"
  proof
    assume e: "?d = []"
    show False using assms(2) unfolding ParseIP_def e by simp
  qed
  then obtain c r where d: "?d = c # r" by (meson neq_Nil_conv)
  have "c \<in> set s" using d by (metis list.set_intros(1) set_dropWhileD)
  with assms(1) have "c \<noteq> CHR '':''" by auto
  then have "map_option (\<lambda>b. v4InV6Prefix @ b) (parseIPv4 s) = Some ip"
    using assms(2) unfolding ParseIP_def d by (simp split: if_splits)
  then obtain b where "parseIPv4 s = Some b" "ip = v4InV6Prefix @ b" by auto
  then show ?thesis unfolding parseIPv4_iff by blast
qed

lemma To4_mapped [simp]: "length b = 4 \<Longrightarrow> To4 (v4InV6Prefix @ b) = Some b"
  by (simp add: To4_def v4InV6Prefix_def)

end
