(* ===== verification/TaskData.thy ===== *)
theory TaskData
  imports TaskQueue NetAddr
begin

text \<open>
  \<^verbatim>\<open>src/internal/taskqueue/persist.go\<close>, second half: the documents of the tasks as files under the data
  directory, named after the task. The files are a map from paths to contents; the path of a file is
  computed the way \<open>filepath.Join\<close> does it on Unix.
\<close>

section \<open>Paths\<close>

text \<open>\<open>filepath.Clean\<close>: one pass over the elements, with the elements kept so far as a stack.\<close>

definition clean_elem :: "bool \<Rightarrow> string list \<Rightarrow> string \<Rightarrow> string list" where
  "clean_elem rooted st c =
     (if c = [] \<or> c = ''.'' then st
      else if c = ''..'' then
        (if st \<noteq> [] \<and> hd st \<noteq> ''..'' then tl st else if rooted then st else c # st)
      else c # st)"

definition is_rooted :: "string \<Rightarrow> bool" where
  "is_rooted path \<longleftrightarrow> (case path of [] \<Rightarrow> False | c # cs \<Rightarrow> c = CHR ''/'')"

definition path_Clean :: "string \<Rightarrow> string" where
  "path_Clean path =
     (let r = is_rooted path; body = join_str CHR ''/'' (rev (foldl (clean_elem r) [] (split_str CHR ''/'' path)))
      in if r then CHR ''/'' # body else if body = [] then ''.'' else body)"

definition path_Join :: "string list \<Rightarrow> string" where
  "path_Join elems =
     (case filter (\<lambda>e. e \<noteq> []) elems of [] \<Rightarrow> [] | es \<Rightarrow> path_Clean (join_str CHR ''/'' es))"

section \<open>Operations\<close>

definition tasksDataSubDir :: string where "tasksDataSubDir = ''tasks''"

definition tasksDataDir :: "string \<Rightarrow> string" where
  "tasksDataDir dataDir = path_Join [dataDir, tasksDataSubDir]"

definition taskDataPath :: "string \<Rightarrow> string \<Rightarrow> string" where
  "taskDataPath taskID dataDir = path_Join [tasksDataDir dataDir, taskID @ ''.bin'']"

text \<open>What the file system does: the error of each call, and what a copy that fails has written.\<close>

record data_io =
  di_mkdir :: "goerror option"
  di_create :: "goerror option"
  di_copy :: "(goerror \<times> bytes) option"
  di_remove :: "goerror option"

definition SaveTaskData ::
  "data_io \<Rightarrow> string \<Rightarrow> bytes \<Rightarrow> string \<Rightarrow> (string \<rightharpoonup> bytes) \<Rightarrow> (goerror + string) \<times> (string \<rightharpoonup> bytes)" where
  "SaveTaskData io taskID data dataDir fs =
     (if taskID = [] then (Inl (New ErrTaskDataInvalid ''task_id is empty''), fs)
      else if dataDir = [] then (Inl (New ErrConfigInvalid ''data_dir is empty''), fs)
      else case di_mkdir io of
        Some err \<Rightarrow> (Inl (Wrap ErrStorageIO ''mkdir tasks data dir'' err), fs)
      | None \<Rightarrow>
          let path = taskDataPath taskID dataDir
          in case di_create io of
               Some err \<Rightarrow> (Inl (Wrap ErrStorageIO ''create task data file'' err), fs)
             | None \<Rightarrow>
                 (case di_copy io of
                    Some (err, part) \<Rightarrow>
                      (Inl (Wrap ErrStorageIO ''write task data'' err),
                       if di_remove io = None then fs(path := None) else fs(path \<mapsto> part))
                  | None \<Rightarrow> (Inr path, fs(path \<mapsto> data))))"

text \<open>\<open>oerr\<close>: an error of the open other than a missing file.\<close>

definition LoadTaskData :: "goerror option \<Rightarrow> string \<Rightarrow> string \<Rightarrow> (string \<rightharpoonup> bytes) \<Rightarrow> goerror + bytes" where
  "LoadTaskData oerr taskID dataDir fs =
     (if taskID = [] then Inl (New ErrTaskDataInvalid ''task_id is empty'')
      else case oerr of
        Some err \<Rightarrow> Inl (Wrap ErrStorageIO ''open task data file'' err)
      | None \<Rightarrow>
          (case fs (taskDataPath taskID dataDir) of
             None \<Rightarrow> Inl (New ErrTaskNotFound (''task data '' @ taskID @ '' not found''))
           | Some content \<Rightarrow> Inr content))"

definition CleanupTaskData ::
  "goerror option \<Rightarrow> string \<Rightarrow> string \<Rightarrow> (string \<rightharpoonup> bytes) \<Rightarrow> goerror option \<times> (string \<rightharpoonup> bytes)" where
  "CleanupTaskData rerr taskID dataDir fs =
     (if taskID = [] then (Some (New ErrTaskDataInvalid ''task_id is empty''), fs)
      else case rerr of
        Some err \<Rightarrow> (Some (Wrap ErrStorageIO ''remove task data file'' err), fs)
      | None \<Rightarrow> (None, fs(taskDataPath taskID dataDir := None)))"

section \<open>Where the files are\<close>

lemma split_str_append: "split_str sep (xs @ sep # ys) = split_str sep xs @ split_str sep ys"
proof (induction xs)
  case (Cons x xs)
  then show ?case by (auto split: list.splits)
qed simp

lemma join_snoc: "join_str sep (ws @ [f]) = (if ws = [] then f else join_str sep ws @ sep # f)"
  by (induction ws rule: join_str.induct) auto

lemma clean_file: "c \<noteq> [] \<Longrightarrow> c \<noteq> ''.'' \<Longrightarrow> c \<noteq> ''..'' \<Longrightarrow> clean_elem r st c = c # st"
  by (simp add: clean_elem_def)

lemma Clean_nonempty: "path_Clean p \<noteq> []"
  by (simp add: path_Clean_def Let_def)

lemma bin_elem: "i @ ''.bin'' \<noteq> []" "i @ ''.bin'' \<noteq> ''.''" "i @ ''.bin'' \<noteq> ''..''"
  by (auto dest!: arg_cong [where f = length])

text \<open>With a task id that is a plain name the file is directly in the directory, and no two share one.\<close>

lemma taskDataPath_plain:
  assumes "CHR ''/'' \<notin> set i" "D = tasksDataDir dir"
  shows "taskDataPath i dir =
    (if foldl (clean_elem (is_rooted D)) [] (split_str CHR ''/'' D) = [] then (if is_rooted D then ''/'' else [])
     else (if is_rooted D then ''/'' else []) @
       join_str CHR ''/'' (rev (foldl (clean_elem (is_rooted D)) [] (split_str CHR ''/'' D))) @ ''/'') @ i @ ''.bin''"
proof -
  have D: "D \<noteq> []" using Clean_nonempty by (simp add: assms(2) tasksDataDir_def path_Join_def tasksDataSubDir_def split: list.splits)
  have r: "is_rooted (D @ CHR ''/'' # i @ ''.bin'') = is_rooted D" using D by (cases D) (simp_all add: is_rooted_def)
  have s: "split_str CHR ''/'' (i @ ''.bin'') = [i @ ''.bin'']" using assms(1) by (intro split_str_word) simp
  have "taskDataPath i dir = path_Clean (D @ CHR ''/'' # i @ ''.bin'')"
    using D by (simp add: taskDataPath_def path_Join_def assms(2) [symmetric])
  then show ?thesis
    by (simp add: path_Clean_def Let_def r split_str_append s clean_file [OF bin_elem] join_snoc)
qed

lemma taskDataPath_inj:
  assumes "CHR ''/'' \<notin> set i" "CHR ''/'' \<notin> set j" "taskDataPath i dir = taskDataPath j dir"
  shows "i = j"
  using assms(3) unfolding taskDataPath_plain [OF assms(1) refl] taskDataPath_plain [OF assms(2) refl] by simp

section \<open>Properties\<close>

text \<open>
  The document of a task: after a successful save it loads back byte for byte; after the cleanup it is
  reported as not found; and, the ids being plain names, neither touches the document of another task.
\<close>

theorem task_data_roundtrip:
  assumes "SaveTaskData io i data dir fs = (Inr path, fs')" "CleanupTaskData None i dir fs' = (err, fs'')"
  shows "LoadTaskData None i dir fs' = Inr data \<and> err = None \<and>
    (\<exists>e. LoadTaskData None i dir fs'' = Inl e \<and> CodeFromErr e = Some ErrTaskNotFound) \<and>
    (CHR ''/'' \<notin> set i \<and> CHR ''/'' \<notin> set j \<and> i \<noteq> j \<longrightarrow>
       fs' (taskDataPath j dir) = fs (taskDataPath j dir) \<and> fs'' (taskDataPath j dir) = fs (taskDataPath j dir))"
proof -
  have i: "i \<noteq> []" and fs': "fs' = fs(taskDataPath i dir \<mapsto> data)"
    using assms(1) by (auto simp: SaveTaskData_def Let_def split: if_splits option.splits)
  have "err = None" "fs'' = fs'(taskDataPath i dir := None)" using assms(2) i by (simp_all add: CleanupTaskData_def)
  with i fs' show ?thesis using taskDataPath_inj [of i j dir] by (auto simp: LoadTaskData_def)
qed

text \<open>
  A task id is not checked: one with \<open>..\<close> in it names a file outside the data directory, so that saving
  its document writes there, and two ids can name the same file.
\<close>

theorem task_data_escapes:
  "taskDataPath ''../../../etc/agent'' ''/var/lib'' = ''/etc/agent.bin'' \<and>
   taskDataPath ''a/../b'' ''/var/lib'' = taskDataPath ''b'' ''/var/lib''"
  by code_simp

section \<open>Witnesses\<close>

definition ok_io :: data_io where
  "ok_io = \<lparr>di_mkdir = None, di_create = None, di_copy = None, di_remove = None\<rparr>"

theorem task_data_roundtrip_witness:
  "LoadTaskData None ''T1'' ''/var'' (snd (SaveTaskData ok_io ''T1'' [1, 2] ''/var'' Map.empty)) = Inr [1, 2]"
proof -
  obtain path fs' where s: "SaveTaskData ok_io ''T1'' [1, 2] ''/var'' Map.empty = (Inr path, fs')"
    by (simp add: SaveTaskData_def ok_io_def Let_def)
  obtain err fs'' where "CleanupTaskData None ''T1'' ''/var'' fs' = (err, fs'')" by fastforce
  from task_data_roundtrip [OF s this, of "''T2''"] s show ?thesis by simp
qed

end
