(* ===== verification/CloudConn.thy ===== *)
theory CloudConn
  imports Errs NetAddr
begin

text \<open>
  \<^verbatim>\<open>src/internal/cloudlink/client.go\<close>, \<open>resolve.go\<close> and \<open>handshake.go\<close>: the address of the cloud, the
  connection to it and the answer to its handshake. The DNS resolver, the WebSocket library and the
  JSON decoder are what their calls return.
\<close>

section \<open>Resolving\<close>

text \<open>
  What \<open>Resolve\<close> waits for: the end of its context or the answer of \<open>LookupIP\<close>, an error or the
  addresses as strings.
\<close>

datatype lookup = LookupCancelled goerror | LookupErr goerror | LookupIPs "string list"

definition Resolver_Resolve :: "lookup \<Rightarrow> string \<Rightarrow> goerror + string" where
  "Resolver_Resolve l endpoint =
     (case l of
        LookupCancelled err \<Rightarrow> Inl (Wrap ErrDNSResolveFail ''dns resolve cancelled'' err)
      | LookupErr err \<Rightarrow> Inl (Wrap ErrDNSResolveFail (''resolve '' @ endpoint) err)
      | LookupIPs ips \<Rightarrow>
          (case ips of
             [] \<Rightarrow> Inl (New ErrDNSResolveFail (''no IP for '' @ endpoint))
           | ip # _ \<Rightarrow> Inr ip))"

definition DeriveURL :: "CloudProtocol \<Rightarrow> string \<Rightarrow> string" where
  "DeriveURL protocol endpoint = protocol @ ''://'' @ endpoint"

section \<open>The client and its URL\<close>

record Client =
  cl_agentID :: string
  cl_port :: int
  cl_protocol :: string
  cl_insecureSkip :: bool

definition cloudPath :: string where [go_consts]: "cloudPath = ''/agent''"
definition cloudProtocolV :: string where [go_consts]: "cloudProtocolV = ''1''"
definition cloudPort :: int where "cloudPort = 443"

text \<open>\<open>getenv\<close> is the process environment; an unset variable reads as the empty string.\<close>

definition NewClient :: "(string \<Rightarrow> string) \<Rightarrow> string \<Rightarrow> Client" where
  "NewClient getenv agentID =
     \<lparr>cl_agentID = agentID,
      cl_port =
        (let v = getenv ''CPA_CLOUD_PORT''
         in if v = [] then cloudPort
            else case atoi v of None \<Rightarrow> cloudPort | Some p \<Rightarrow> if 0 < p then p else cloudPort),
      cl_protocol =
        (let v = getenv ''CPA_CLOUD_PROTOCOL'' in if v \<noteq> [] then v else ''wss''),
      cl_insecureSkip =
        (let v = getenv ''CPA_TLS_INSECURE'' in v = ''true'' \<or> v = ''1'')\<rparr>"

text \<open>
  \<open>url.QueryEscape\<close> and the escaping of a host by \<open>URL.String\<close>: letters, digits and a few marks stand
  for themselves, a space in a query is a plus sign, every other byte is \<^verbatim>\<open>%XX\<close>.
\<close>

definition alnum :: "char \<Rightarrow> bool" where
  "alnum c \<longleftrightarrow> (let n = of_char c :: nat in
     65 \<le> n \<and> n \<le> 90 \<or> 97 \<le> n \<and> n \<le> 122 \<or> 48 \<le> n \<and> n \<le> 57)"

definition percent :: "char \<Rightarrow> string" where
  "percent c = (let n = of_char c :: nat in
     [CHR ''%'', ''0123456789ABCDEF'' ! (n div 16), ''0123456789ABCDEF'' ! (n mod 16)])"

definition query_char :: "char \<Rightarrow> string" where
  "query_char c =
     (if alnum c \<or> c \<in> set ''-_.~'' then [c]
      else if c = CHR '' '' then ''+''
      else percent c)"

definition QueryEscape :: "string \<Rightarrow> string" where
  "QueryEscape s = concat (map query_char s)"

definition host_char :: "char \<Rightarrow> string" where
  "host_char c = (if alnum c \<or> c \<in> set ''!$&()*+,;=:[]<>-_.~'' \<or> c = CHR 0x22 \<or> c = CHR 0x27 then [c] else percent c)"

definition host_escape :: "string \<Rightarrow> string" where
  "host_escape s = concat (map host_char s)"

text \<open>\<open>url.Values.Encode\<close> writes the keys in sorted order.\<close>

definition encode_values :: "(string \<times> string) list \<Rightarrow> string" where
  "encode_values kvs =
     join_str CHR ''&'' (map (\<lambda>(k, v). QueryEscape k @ ''='' @ QueryEscape v) kvs)"

definition Client_buildWSSURL :: "Client \<Rightarrow> string \<Rightarrow> string \<Rightarrow> string" where
  "Client_buildWSSURL c endpoint token =
     (let host = host_port endpoint (cl_port c);
          rawQuery = encode_values [(''agent_id'', cl_agentID c), (''token'', token), (''v'', cloudProtocolV)]
      in (if cl_protocol c \<noteq> [] then cl_protocol c @ '':'' else []) @ ''//'' @ host_escape host @
         cloudPath @ ''?'' @ rawQuery)"

section \<open>The connection\<close>

record Conn =
  cn_endpoint :: string
  cn_resolved :: string
  cn_closed :: bool

text \<open>\<open>websocket.Dial\<close> on a URL: its error, if any.\<close>

definition Client_Dial ::
  "Client \<Rightarrow> lookup \<Rightarrow> (string \<Rightarrow> goerror option) \<Rightarrow> string \<Rightarrow> string \<Rightarrow> goerror + Conn" where
  "Client_Dial c l wsdial endpoint token =
     (case Resolver_Resolve l endpoint of
        Inl err \<Rightarrow> Inl err
      | Inr ip \<Rightarrow>
          let wssURL = Client_buildWSSURL c endpoint token
          in case wsdial wssURL of
               Some err \<Rightarrow> Inl (Wrap ErrWSSHandshakeFail (''wss dial '' @ wssURL) err)
             | None \<Rightarrow> Inr \<lparr>cn_endpoint = endpoint, cn_resolved = ip, cn_closed = False\<rparr>)"

text \<open>What the WebSocket and the JSON layer do to one read or write.\<close>

datatype ws_read = ReadErr goerror | ReadEOF | ReadBad goerror | ReadMsg Envelope
datatype ws_write = WriterErr goerror | EncodeErr goerror | CloseErr goerror | Written

definition wrapReadErr :: "goerror \<Rightarrow> goerror" where
  "wrapReadErr err =
     (let msg = to_lower (Error err)
      in if contains_str msg ''tls'' then Wrap ErrTLSVerifyFail ''tls read'' err
         else Wrap ErrCloudDisconnected ''read'' err)"

definition wrapWriteErr :: "goerror \<Rightarrow> goerror" where
  "wrapWriteErr err = Wrap ErrCloudDisconnected ''write'' err"

definition Conn_Read :: "Conn \<Rightarrow> ws_read \<Rightarrow> goerror + Envelope" where
  "Conn_Read c w =
     (if cn_closed c then Inl (New ErrCloudDisconnected ''conn closed'')
      else case w of
             ReadErr err \<Rightarrow> Inl (wrapReadErr err)
           | ReadEOF \<Rightarrow> Inl (New ErrCloudDisconnected ''conn eof'')
           | ReadBad err \<Rightarrow> Inl (Wrap ErrCloudDisconnected ''read envelope'' err)
           | ReadMsg msg \<Rightarrow> Inr msg)"

definition Conn_Write :: "Conn \<Rightarrow> ws_write \<Rightarrow> goerror option" where
  "Conn_Write c w =
     (if cn_closed c then Some (New ErrCloudDisconnected ''conn closed'')
      else case w of
             WriterErr err \<Rightarrow> Some (wrapWriteErr err)
           | EncodeErr err \<Rightarrow> Some (Wrap ErrCloudDisconnected ''write envelope'' err)
           | CloseErr err \<Rightarrow> Some (Wrap ErrCloudDisconnected ''close writer'' err)
           | Written \<Rightarrow> None)"

definition Conn_Close :: "Conn \<Rightarrow> Conn" where
  "Conn_Close c = (if cn_closed c then c else c\<lparr>cn_closed := True\<rparr>)"

section \<open>Envelopes\<close>

text \<open>\<open>NewEnvelope\<close> with a payload of the agent's own types, which always marshals.\<close>

definition NewEnvelope :: "gotime \<Rightarrow> string \<Rightarrow> Payload \<Rightarrow> Envelope" where
  "NewEnvelope now msgType payload =
     \<lparr>e_Type = msgType, e_TraceID = [], e_TS = now, e_Payload = payload\<rparr>"

section \<open>The handshake\<close>

record handshakePayload =
  hs_Code :: int
  hs_Reason :: string
  hs_Status :: string
  hs_Detail :: string

text \<open>
  The decoding of the payload is the parameter \<open>unmarshal\<close>: what the struct holds afterwards, the
  error being ignored by the source.
\<close>

definition HandleHandshakeResponse ::
  "(Payload \<Rightarrow> handshakePayload) \<Rightarrow> Envelope option \<Rightarrow> NetClass \<times> goerror option" where
  "HandleHandshakeResponse unmarshal rs =
     (case rs of
        None \<Rightarrow> (NetClassCloudGatewayUnreachable, Some (New ErrWSSHandshakeFail ''handshake response is nil''))
      | Some resp \<Rightarrow>
        let p = unmarshal (e_Payload resp) in
        if e_Type resp = ''auth_ok'' then (NetClassOK, None)
        else if e_Type resp = ''auth_fail'' \<or> e_Type resp = ''auth_invalid'' then
          (NetClassOK, Some (New ErrAuthInvalid
             (if hs_Reason p = [] then ''credential rejected by cloud'' else hs_Reason p)))
        else if e_Type resp = ''error'' then
          let reason = (if hs_Reason p = [] then hs_Detail p else hs_Reason p);
              lower = to_lower reason
          in if contains_str lower ''dns'' then
               (NetClassDNSResolveFail, Some (NewNetError ErrDNSResolveFail reason NetClassDNSResolveFail))
             else if contains_str lower ''unreachable'' \<or> contains_str lower ''gateway'' then
               (NetClassCloudGatewayUnreachable,
                Some (NewNetError ErrCloudGatewayUnreachable reason NetClassCloudGatewayUnreachable))
             else if contains_str lower ''local'' then
               (NetClassLocalNetFail, Some (NewNetError ErrLocalNetFail reason NetClassLocalNetFail))
             else (NetClassCloudGatewayUnreachable, Some (New ErrWSSHandshakeFail reason))
        else if hs_Code p = 401 \<or> hs_Code p = 403 then
          (NetClassOK, Some (New ErrAuthInvalid (hs_Reason p)))
        else (NetClassOK, None))"

section \<open>Reading the URL back\<close>

text \<open>What a server does with the query: split at the ampersands, then at the equals sign, and unescape.\<close>

fun query_unescape :: "string \<Rightarrow> string" where
  "query_unescape [] = []"
| "query_unescape (c # cs) =
     (if c = CHR ''%'' then
        (case cs of
           a # b # r \<Rightarrow> char_of (16 * the (hex_val a) + the (hex_val b) :: nat) # query_unescape r
         | _ \<Rightarrow> [])
      else if c = CHR ''+'' then CHR '' '' # query_unescape cs
      else c # query_unescape cs)"

definition parse_query :: "string \<Rightarrow> (string \<times> string) list" where
  "parse_query q =
     map (\<lambda>kv. (query_unescape (takeWhile (\<lambda>c. c \<noteq> CHR ''='') kv),
                query_unescape (drop 1 (dropWhile (\<lambda>c. c \<noteq> CHR ''='') kv))))
       (split_str CHR ''&'' q)"

lemma hex_digits:
  "list_all (\<lambda>n. hex_val (''0123456789ABCDEF'' ! n) = Some n \<and> ''0123456789ABCDEF'' ! n \<noteq> CHR ''&'' \<and>
     ''0123456789ABCDEF'' ! n \<noteq> CHR ''='') [0..<16]"
  by code_simp

lemma hex_digit_val: "n < 16 \<Longrightarrow> hex_val (''0123456789ABCDEF'' ! n) = Some n"
  using hex_digits unfolding list_all_iff by (metis atLeastLessThan_iff set_upt zero_le)

lemma hex_digit_neq: "n < 16 \<Longrightarrow> ''0123456789ABCDEF'' ! n \<noteq> CHR ''&'' \<and> ''0123456789ABCDEF'' ! n \<noteq> CHR ''=''"
  using hex_digits unfolding list_all_iff by (metis atLeastLessThan_iff set_upt zero_le)

lemma of_char_less: "(of_char c :: nat) < 256"
  using unat_of_char_word [of c] unat_byte_less [of "of_char c"] by simp

lemma of_char_div16: "(of_char c :: nat) div 16 < 16"
  by (rule less_mult_imp_div_less) (use of_char_less [of c] in simp)

lemma alnum_neq: "alnum c \<Longrightarrow> c \<noteq> CHR ''&'' \<and> c \<noteq> CHR ''='' \<and> c \<noteq> CHR ''%'' \<and> c \<noteq> CHR ''+''"
  by (auto simp: alnum_def Let_def)

lemma query_char_unescape: "query_unescape (query_char c @ r) = c # query_unescape r"
proof -
  have "query_unescape (percent c @ r) = c # query_unescape r"
    using of_char_div16 [of c] by (simp add: percent_def hex_digit_val Let_def)
  then show ?thesis using alnum_neq [of c] by (auto simp: query_char_def)
qed

lemma query_char_safe: "x \<in> set (query_char c) \<Longrightarrow> x \<noteq> CHR ''&'' \<and> x \<noteq> CHR ''=''"
proof -
  have "x \<noteq> CHR ''&'' \<and> x \<noteq> CHR ''=''" if "x \<in> set (percent c)"
    using that hex_digit_neq [OF of_char_div16 [of c]] hex_digit_neq [of "of_char c mod 16"]
    by (auto simp: percent_def Let_def)
  then show "x \<in> set (query_char c) \<Longrightarrow> x \<noteq> CHR ''&'' \<and> x \<noteq> CHR ''=''"
    using alnum_neq [of c] by (auto simp: query_char_def split: if_splits)
qed

lemma QueryEscape_unescape [simp]: "query_unescape (QueryEscape s) = s"
  by (induction s) (simp_all add: QueryEscape_def query_char_unescape)

lemma QueryEscape_safe: "x \<in> set (QueryEscape s) \<Longrightarrow> x \<noteq> CHR ''&'' \<and> x \<noteq> CHR ''=''"
  using query_char_safe by (fastforce simp: QueryEscape_def)

lemma parse_pair:
  "takeWhile (\<lambda>c. c \<noteq> CHR ''='') (QueryEscape k @ ''='' @ QueryEscape v) = QueryEscape k"
  "drop 1 (dropWhile (\<lambda>c. c \<noteq> CHR ''='') (QueryEscape k @ ''='' @ QueryEscape v)) = QueryEscape v"
  using QueryEscape_safe [of _ k] by (simp_all add: takeWhile_append2 dropWhile_append2)

lemma split_join:
  "ws \<noteq> [] \<Longrightarrow> \<forall>w \<in> set ws. sep \<notin> set w \<Longrightarrow> split_str sep (join_str sep ws) = ws"
proof (induction ws)
  case (Cons w ws)
  then show ?case by (cases ws) (simp_all add: split_str_word split_str_cons)
qed simp

lemma parse_encode_values:
  assumes "kvs \<noteq> []"
  shows "parse_query (encode_values kvs) = kvs"
proof -
  have "\<forall>w \<in> set (map (\<lambda>(k, v). QueryEscape k @ ''='' @ QueryEscape v) kvs). CHR ''&'' \<notin> set w"
    using QueryEscape_safe by fastforce
  then have "split_str CHR ''&'' (encode_values kvs) = map (\<lambda>(k, v). QueryEscape k @ ''='' @ QueryEscape v) kvs"
    unfolding encode_values_def using assms by (intro split_join) simp_all
  then have "parse_query (encode_values kvs) =
      map ((\<lambda>kv. (query_unescape (takeWhile (\<lambda>c. c \<noteq> CHR ''='') kv),
          query_unescape (drop 1 (dropWhile (\<lambda>c. c \<noteq> CHR ''='') kv)))) \<circ>
        (\<lambda>(k, v). QueryEscape k @ ''='' @ QueryEscape v)) kvs"
    by (simp add: parse_query_def)
  also have "\<dots> = kvs"
  proof (rule map_idI, clarify)
    fix k v
    show "((\<lambda>kv. (query_unescape (takeWhile (\<lambda>c. c \<noteq> CHR ''='') kv),
          query_unescape (drop 1 (dropWhile (\<lambda>c. c \<noteq> CHR ''='') kv)))) \<circ>
        (\<lambda>(k, v). QueryEscape k @ ''='' @ QueryEscape v)) (k, v) = (k, v)"
      unfolding comp_def prod.case parse_pair by simp
  qed
  finally show ?thesis .
qed

section \<open>Properties\<close>

text \<open>
  The connection URL. Whatever bytes the agent id and the token consist of, the query of the URL
  decodes to exactly the three parameters, so that neither can add or change another; and without
  an override in the environment the scheme is \<open>wss\<close>, the port 443 and certificates are verified.
\<close>

theorem wss_url_roundtrip:
  "(\<exists>pre. Client_buildWSSURL c endpoint token = pre @ ''/agent?'' @
      encode_values [(''agent_id'', cl_agentID c), (''token'', token), (''v'', ''1'')]) \<and>
   parse_query (encode_values [(''agent_id'', cl_agentID c), (''token'', token), (''v'', ''1'')]) =
     [(''agent_id'', cl_agentID c), (''token'', token), (''v'', ''1'')] \<and>
   NewClient (\<lambda>_. []) i = \<lparr>cl_agentID = i, cl_port = 443, cl_protocol = ''wss'', cl_insecureSkip = False\<rparr>"
  by (auto simp: Client_buildWSSURL_def Let_def go_consts cloudPort_def NewClient_def parse_encode_values)

text \<open>
  The handshake, every branch: it is accepted for \<open>auth_ok\<close> and for any message of another type
  than the three rejections whose code is neither 401 nor 403; a credential rejection has the code
  \<open>ErrAuthInvalid\<close> (terminal), and any other rejection a code the classification calls retryable. The
  returned network class is the one the error carries, if it carries one.
\<close>

theorem handshake_outcome:
  "(case HandleHandshakeResponse unmarshal (Some resp) of
      (class, None) \<Rightarrow> class = NetClassOK \<and>
        (e_Type resp = ''auth_ok'' \<or>
         e_Type resp \<notin> {''auth_fail'', ''auth_invalid'', ''error''} \<and>
         hs_Code (unmarshal (e_Payload resp)) \<notin> {401, 403})
    | (class, Some e) \<Rightarrow> e_Type resp \<noteq> ''auth_ok'' \<and>
        (if e_Type resp = ''error'' then IsRetryable e \<and> class \<noteq> NetClassOK
         else CodeFromErr e = Some ErrAuthInvalid \<and> IsTerminal e \<and> class = NetClassOK) \<and>
        (IsNetError e \<and> NetClassFromErr e \<noteq> NetClassOK \<longrightarrow> NetClassFromErr e = class))"
proof (cases "e_Type resp = ''error''")
  case True
  show ?thesis
    by (simp add: HandleHandshakeResponse_def True Let_def IsRetryable_def NetClassFromErr_def
        NewNetError_def New_def go_consts)
next
  case False
  then show ?thesis
    by (auto simp: HandleHandshakeResponse_def Let_def IsTerminal_def CodeFromErr_def NetClassFromErr_def
        New_def IsNetError_def)
qed

theorem handshake_outcome_witness:
  "fst (HandleHandshakeResponse (\<lambda>_. \<lparr>hs_Code = 0, hs_Reason = ''dns down'', hs_Status = [], hs_Detail = []\<rparr>)
      (Some \<lparr>e_Type = ''error'', e_TraceID = [], e_TS = 1, e_Payload = PRaw []\<rparr>)) = NetClassDNSResolveFail"
  using handshake_outcome [where unmarshal = "\<lambda>_. \<lparr>hs_Code = 0, hs_Reason = ''dns down'', hs_Status = [], hs_Detail = []\<rparr>"
      and resp = "\<lparr>e_Type = ''error'', e_TraceID = [], e_TS = 1, e_Payload = PRaw []\<rparr>"]
  by (simp add: HandleHandshakeResponse_def Let_def to_lower_def lower_char_def has_prefix_def)

end
