(* ===== verification/Reporter.thy ===== *)
theory Reporter
  imports CloudConn "HOL-Library.Multiset"
begin

text \<open>
  \<^verbatim>\<open>src/internal/cloudlink/reporter.go\<close>: the outgoing messages and the buffer that keeps them while
  there is no connection. A connection is known by its number. Each operation takes the outcomes of
  the writes it makes, in order, and yields the messages that went out.
\<close>

section \<open>State and operations\<close>

definition reporterBufferSize :: nat where "reporterBufferSize = 256"

record Reporter =
  rp_conn :: "nat option"
  rp_buf :: "Envelope list"

definition NewReporter :: "nat option \<Rightarrow> Reporter" where
  "NewReporter conn = \<lparr>rp_conn = conn, rp_buf = []\<rparr>"

definition Reporter_buffer :: "Reporter \<Rightarrow> Envelope \<Rightarrow> Reporter" where
  "Reporter_buffer r msg =
     (let buf = (if reporterBufferSize \<le> length (rp_buf r) then drop 1 (rp_buf r) else rp_buf r)
      in r\<lparr>rp_buf := buf @ [msg]\<rparr>)"

definition Reporter_Send ::
  "goerror option \<Rightarrow> Reporter \<Rightarrow> Envelope option \<Rightarrow> goerror option \<times> Envelope list \<times> Reporter" where
  "Reporter_Send wr r m =
     (case m of
        None \<Rightarrow> (None, [], r)
      | Some msg \<Rightarrow>
          (case rp_conn r of
             None \<Rightarrow> (None, [], Reporter_buffer r msg)
           | Some conn \<Rightarrow>
               (case wr of
                  Some err \<Rightarrow> (Some err, [], Reporter_buffer r msg)
                | None \<Rightarrow> (None, [msg], r))))"

text \<open>
  The loop of \<open>flushBuffer\<close> over the messages taken out of the buffer. The code holds its lock while it takes them
  out and again for each one it puts back, not while it writes; here the whole flush is one step, so that a
  message another goroutine buffers during the flush comes before or after it.
\<close>

fun flush_loop :: "goerror option list \<Rightarrow> Envelope list \<Rightarrow> Reporter \<Rightarrow> Envelope list \<times> Reporter" where
  "flush_loop wrs [] r = ([], r)"
| "flush_loop wrs (msg # msgs) r =
     (case (case wrs of [] \<Rightarrow> None | w # _ \<Rightarrow> w) of
        Some err \<Rightarrow> flush_loop (tl wrs) msgs (Reporter_buffer r msg)
      | None \<Rightarrow> (case flush_loop (tl wrs) msgs r of (out, r') \<Rightarrow> (msg # out, r')))"

definition Reporter_flushBuffer :: "goerror option list \<Rightarrow> Reporter \<Rightarrow> Envelope list \<times> Reporter" where
  "Reporter_flushBuffer wrs r =
     (if rp_buf r = [] then ([], r)
      else
        let pending = rp_buf r; r1 = r\<lparr>rp_buf := []\<rparr>
        in case rp_conn r1 of
             None \<Rightarrow> ([], r1\<lparr>rp_buf := pending @ rp_buf r1\<rparr>)
           | Some conn \<Rightarrow> flush_loop wrs pending r1)"

definition Reporter_UpdateConn ::
  "goerror option list \<Rightarrow> Reporter \<Rightarrow> nat option \<Rightarrow> Envelope list \<times> Reporter" where
  "Reporter_UpdateConn wrs r conn =
     (let r1 = r\<lparr>rp_conn := conn\<rparr>
      in if conn \<noteq> None then Reporter_flushBuffer wrs r1 else ([], r1))"

section \<open>The reports\<close>

definition task_result_envelope :: "gotime \<Rightarrow> PrintTask \<Rightarrow> Envelope" where
  "task_result_envelope now task =
     (NewEnvelope now ''task_result'' (PTaskResult
        \<lparr>tr_TaskID = t_TaskID task, tr_DeviceID = t_DeviceID task, tr_Status = t_Status task,
         tr_RetryCount = t_RetryCount task, tr_ErrorCode = t_ErrorCode task, tr_ErrorMsg = t_ErrorMsg task,
         tr_FinishedAt = t_FinishedAt task\<rparr>))\<lparr>e_TraceID := t_TraceID task\<rparr>"

definition Reporter_ReportTaskResult ::
  "gotime \<Rightarrow> goerror option \<Rightarrow> Reporter \<Rightarrow> PrintTask option \<Rightarrow> goerror option \<times> Envelope list \<times> Reporter" where
  "Reporter_ReportTaskResult now wr r task =
     (case task of
        None \<Rightarrow> (None, [], r)
      | Some t \<Rightarrow> Reporter_Send wr r (Some (task_result_envelope now t)))"

definition Reporter_ReportDeviceStatus ::
  "gotime \<Rightarrow> goerror option \<Rightarrow> Reporter \<Rightarrow> string \<Rightarrow> DeviceStatus \<Rightarrow> goerror option \<times> Envelope list \<times> Reporter" where
  "Reporter_ReportDeviceStatus now wr r deviceID status =
     Reporter_Send wr r (Some (NewEnvelope now ''device_status'' (PDeviceStatus
       \<lparr>ds_DeviceID = deviceID, ds_Status = status, ds_Protocol = [], ds_LastProbeAt = 0\<rparr>)))"

definition Reporter_ReportNetEvent ::
  "gotime \<Rightarrow> goerror option \<Rightarrow> Reporter \<Rightarrow> NetClass \<Rightarrow> string \<Rightarrow> goerror option \<times> Envelope list \<times> Reporter" where
  "Reporter_ReportNetEvent now wr r class detail =
     Reporter_Send wr r (Some (NewEnvelope now ''net_event'' (PNetEvent
       \<lparr>ne_Class = class, ne_Endpoint = [], ne_Detail = detail, ne_TS = now\<rparr>)))"

definition Reporter_ReportConfigAck ::
  "gotime \<Rightarrow> goerror option \<Rightarrow> Reporter \<Rightarrow> bool \<Rightarrow> string \<Rightarrow> string \<Rightarrow> goerror option \<times> Envelope list \<times> Reporter" where
  "Reporter_ReportConfigAck now wr r applied reason field =
     Reporter_Send wr r (Some (NewEnvelope now ''config_ack'' (PConfigAck
       \<lparr>ca_Applied = applied, ca_Reason = reason, ca_Field = field\<rparr>)))"

section \<open>Sequences of operations\<close>

datatype rop = ROpSend "goerror option" Envelope | ROpConn "goerror option list" "nat option"

fun rstep :: "Reporter \<Rightarrow> rop \<Rightarrow> Envelope list \<times> Reporter" where
  "rstep r (ROpSend wr msg) = snd (Reporter_Send wr r (Some msg))"
| "rstep r (ROpConn wrs conn) = Reporter_UpdateConn wrs r conn"

fun rrun :: "Reporter \<Rightarrow> rop list \<Rightarrow> Envelope list \<times> Reporter" where
  "rrun r [] = ([], r)"
| "rrun r (x # xs) = (let (out, r1) = rstep r x; (outs, r2) = rrun r1 xs in (out @ outs, r2))"

fun submitted1 :: "rop \<Rightarrow> Envelope list" where
  "submitted1 (ROpSend wr msg) = [msg]"
| "submitted1 (ROpConn wrs conn) = []"

definition submitted :: "rop list \<Rightarrow> Envelope list" where
  "submitted xs = concat (map submitted1 xs)"

section \<open>Lemmas\<close>

lemma buffer_length:
  "length (rp_buf r) \<le> 256 \<Longrightarrow> length (rp_buf (Reporter_buffer r msg)) \<le> 256"
  by (auto simp: Reporter_buffer_def reporterBufferSize_def Let_def)

lemma buffer_mset:
  "length (rp_buf r) < 256 \<Longrightarrow> rp_buf (Reporter_buffer r msg) = rp_buf r @ [msg]"
  "mset (rp_buf (Reporter_buffer r msg)) \<subseteq># mset (rp_buf r) + {#msg#}"
  "rp_conn (Reporter_buffer r msg) = rp_conn r"
proof -
  have "mset (drop 1 xs) \<subseteq># mset xs" for xs :: "Envelope list"
    by (cases xs) auto
  then show "mset (rp_buf (Reporter_buffer r msg)) \<subseteq># mset (rp_buf r) + {#msg#}"
    by (auto simp: Reporter_buffer_def Let_def)
qed (simp_all add: Reporter_buffer_def reporterBufferSize_def Let_def)

lemma flush_loop_ok:
  "flush_loop wrs msgs r = (out, r') \<Longrightarrow> length (rp_buf r) + length msgs \<le> 256 \<Longrightarrow>
     mset out + mset (rp_buf r') = mset msgs + mset (rp_buf r) \<and> length (rp_buf r') \<le> 256 \<and>
     rp_conn r' = rp_conn r"
proof (induction msgs arbitrary: wrs r out)
  case Nil
  then show ?case by auto
next
  case (Cons msg msgs)
  let ?w = "case wrs of [] \<Rightarrow> None | w # _ \<Rightarrow> w"
  show ?case
  proof (cases ?w)
    case None
    obtain out' r1 where l: "flush_loop (tl wrs) msgs r = (out', r1)" by fastforce
    with Cons.prems None have "out = msg # out'" "r' = r1" by auto
    with Cons.IH [OF l [folded \<open>r' = r1\<close>]] Cons.prems(2) show ?thesis by auto
  next
    case (Some err)
    with Cons.prems have l: "flush_loop (tl wrs) msgs (Reporter_buffer r msg) = (out, r')" by simp
    have b: "rp_buf (Reporter_buffer r msg) = rp_buf r @ [msg]"
      using buffer_mset(1) Cons.prems(2) by simp
    show ?thesis using Cons.IH [OF l] Cons.prems(2) b buffer_mset(3) by auto
  qed
qed

lemma Send_ok:
  assumes "Reporter_Send wr r (Some msg) = (e, out, r')" "length (rp_buf r) \<le> 256"
  shows "length (rp_buf r') \<le> 256" "mset out + mset (rp_buf r') \<subseteq># mset (rp_buf r) + {#msg#}"
    "length (rp_buf r) < 256 \<Longrightarrow> mset out + mset (rp_buf r') = mset (rp_buf r) + {#msg#}"
    "length (rp_buf r') \<le> Suc (length (rp_buf r))"
proof -
  show "length (rp_buf r') \<le> 256" "mset out + mset (rp_buf r') \<subseteq># mset (rp_buf r) + {#msg#}"
    "length (rp_buf r) < 256 \<Longrightarrow> mset out + mset (rp_buf r') = mset (rp_buf r) + {#msg#}"
    "length (rp_buf r') \<le> Suc (length (rp_buf r))"
    using assms buffer_length [of r msg] buffer_mset [of r msg]
    by (auto simp: Reporter_Send_def Reporter_buffer_def Let_def split: option.splits)
qed

lemma UpdateConn_ok:
  assumes "Reporter_UpdateConn wrs r conn = (out, r')" "length (rp_buf r) \<le> 256"
  shows "mset out + mset (rp_buf r') = mset (rp_buf r)" "length (rp_buf r') \<le> 256"
proof -
  have "mset out + mset (rp_buf r') = mset (rp_buf r) \<and> length (rp_buf r') \<le> 256"
  proof (cases "conn = None \<or> rp_buf r = []")
    case True
    with assms show ?thesis
      by (cases conn) (auto simp: Reporter_UpdateConn_def Reporter_flushBuffer_def Let_def)
  next
    case False
    then have "flush_loop wrs (rp_buf r) (r\<lparr>rp_conn := conn, rp_buf := []\<rparr>) = (out, r')"
      using assms(1) by (auto simp: Reporter_UpdateConn_def Reporter_flushBuffer_def Let_def)
    from flush_loop_ok [OF this] assms(2) show ?thesis by simp
  qed
  then show "mset out + mset (rp_buf r') = mset (rp_buf r)" "length (rp_buf r') \<le> 256" by auto
qed

lemma rstep_ok:
  assumes "rstep r x = (out, r')" "length (rp_buf r) \<le> 256"
  shows "length (rp_buf r') \<le> 256" "mset out + mset (rp_buf r') \<subseteq># mset (rp_buf r) + mset (submitted1 x)"
    "length (rp_buf r) + length (submitted1 x) \<le> 256 \<Longrightarrow>
       mset out + mset (rp_buf r') = mset (rp_buf r) + mset (submitted1 x)"
proof (atomize (full), cases x)
  case (ROpSend wr msg)
  obtain e where "Reporter_Send wr r (Some msg) = (e, out, r')"
    using assms(1) ROpSend by (cases "Reporter_Send wr r (Some msg)") auto
  from Send_ok [OF this assms(2)] ROpSend
  show "length (rp_buf r') \<le> 256 \<and> mset out + mset (rp_buf r') \<subseteq># mset (rp_buf r) + mset (submitted1 x) \<and>
    (length (rp_buf r) + length (submitted1 x) \<le> 256 \<longrightarrow>
       mset out + mset (rp_buf r') = mset (rp_buf r) + mset (submitted1 x))" by simp
next
  case (ROpConn wrs conn)
  with assms UpdateConn_ok [of wrs r conn out r']
  show "length (rp_buf r') \<le> 256 \<and> mset out + mset (rp_buf r') \<subseteq># mset (rp_buf r) + mset (submitted1 x) \<and>
    (length (rp_buf r) + length (submitted1 x) \<le> 256 \<longrightarrow>
       mset out + mset (rp_buf r') = mset (rp_buf r) + mset (submitted1 x))" by simp
qed

lemma submitted_Cons [simp]: "submitted [] = []" "submitted (x # xs) = submitted1 x @ submitted xs"
  by (simp_all add: submitted_def)

lemma rrun_ok:
  "rrun r xs = (out, r') \<Longrightarrow> length (rp_buf r) \<le> 256 \<Longrightarrow>
     length (rp_buf r') \<le> 256 \<and> mset out + mset (rp_buf r') \<subseteq># mset (rp_buf r) + mset (submitted xs) \<and>
     (length (rp_buf r) + length (submitted xs) \<le> 256 \<longrightarrow>
        mset out + mset (rp_buf r') = mset (rp_buf r) + mset (submitted xs))"
proof (induction xs arbitrary: r out r')
  case Nil
  then show ?case by auto
next
  case (Cons x xs)
  obtain o1 r1 where x: "rstep r x = (o1, r1)" by fastforce
  obtain o2 r2 where xs: "rrun r1 xs = (o2, r2)" by fastforce
  have o: "out = o1 @ o2" "r' = r2" using Cons.prems(1) x xs by simp_all
  note s = rstep_ok [OF x Cons.prems(2)]
  note i = Cons.IH [OF xs s(1)]
  have le: "mset out + mset (rp_buf r') \<subseteq># mset (rp_buf r) + mset (submitted (x # xs))"
  proof -
    have "mset out + mset (rp_buf r') \<subseteq># mset o1 + (mset (rp_buf r1) + mset (submitted xs))"
      using i o by (simp add: add.assoc subset_mset.add_left_mono)
    also have "\<dots> \<subseteq># (mset (rp_buf r) + mset (submitted1 x)) + mset (submitted xs)"
      using s(2) by (simp add: add.assoc [symmetric] subset_mset.add_right_mono)
    finally show ?thesis by (simp add: ac_simps)
  qed
  have eq: "mset out + mset (rp_buf r') = mset (rp_buf r) + mset (submitted (x # xs))"
    if small: "length (rp_buf r) + length (submitted (x # xs)) \<le> 256"
  proof -
    have e: "mset o1 + mset (rp_buf r1) = mset (rp_buf r) + mset (submitted1 x)" using s(3) small by simp
    have "length o1 + length (rp_buf r1) = length (rp_buf r) + length (submitted1 x)"
      using arg_cong [OF e, of size] by simp
    then have "length (rp_buf r1) + length (submitted xs) \<le> 256" using small by simp
    with i have "mset o2 + mset (rp_buf r2) = mset (rp_buf r1) + mset (submitted xs)" by simp
    then have "mset out + mset (rp_buf r') = mset o1 + mset (rp_buf r1) + mset (submitted xs)"
      using o by (simp add: add.assoc)
    then show ?thesis using e by (simp add: add.assoc)
  qed
  show ?case using i le eq o by blast
qed

section \<open>Properties\<close>

text \<open>
  (C26) The reporter's buffer. Over any sequence of sends and connection changes, each taken as one step,
  whatever the outcomes of the writes, the buffer holds at most 256 messages, and what went out together with what is
  still buffered is a part of what was submitted (no message twice, none invented); as long as at
  most 256 messages were submitted it is all of it: nothing is lost.
\<close>

theorem reporter_conserves_messages:
  assumes "rrun (NewReporter conn) xs = (out, r)"
  shows "length (rp_buf r) \<le> 256 \<and> mset out + mset (rp_buf r) \<subseteq># mset (submitted xs) \<and>
    (length (submitted xs) \<le> 256 \<longrightarrow> mset out + mset (rp_buf r) = mset (submitted xs))"
  using rrun_ok [OF assms] by (simp add: NewReporter_def)

definition demo_msg :: "string \<Rightarrow> Envelope" where
  "demo_msg s = \<lparr>e_Type = s, e_TraceID = [], e_TS = 1, e_Payload = PRaw []\<rparr>"

theorem reporter_conserves_messages_witness:
  "rrun (NewReporter None) [ROpSend None (demo_msg ''a''), ROpConn [None] (Some 1), ROpSend (Some (PlainError ''eof'')) (demo_msg ''b'')] =
     ([demo_msg ''a''], \<lparr>rp_conn = Some 1, rp_buf = [demo_msg ''b'']\<rparr>) \<and>
   mset [demo_msg ''a''] + mset [demo_msg ''b''] =
     mset (submitted [ROpSend None (demo_msg ''a''), ROpConn [None] (Some 1), ROpSend (Some (PlainError ''eof'')) (demo_msg ''b'')])"
proof -
  have r: "rrun (NewReporter None) [ROpSend None (demo_msg ''a''), ROpConn [None] (Some 1), ROpSend (Some (PlainError ''eof'')) (demo_msg ''b'')] =
     ([demo_msg ''a''], \<lparr>rp_conn = Some 1, rp_buf = [demo_msg ''b'']\<rparr>)"
    by code_simp
  from reporter_conserves_messages [OF r] r show ?thesis by simp
qed

text \<open>
  The order of the messages is not kept: one that could not be written waits for the next change
  of the connection, and every message sent meanwhile on the same connection goes out before it.
\<close>

theorem buffered_message_is_overtaken:
  "rrun r [ROpSend (Some err) m, ROpSend None m'] =
     (if rp_conn r = None then ([], Reporter_buffer (Reporter_buffer r m) m') else ([m'], Reporter_buffer r m))"
  by (auto simp: Reporter_Send_def buffer_mset(3) split: option.splits)

end
