(* ===== verification/Protocol.thy ===== *)
theory Protocol
  imports Interfaces
begin

text \<open>
  \<^verbatim>\<open>src/internal/protocol\<close>: probing a printer's ports (\<open>probe.go\<close>) and the four print adapters
  (\<open>raw.go\<close>, \<open>lpr.go\<close>, \<open>ipp.go\<close>, \<open>cups.go\<close>). The network, the printer and the commands the adapters
  run are the environment, a record of what each call returns; the bytes an adapter puts on the wire
  and the arguments it passes to \<open>lp\<close> are computed by the model.
\<close>

section \<open>The environment\<close>

text \<open>
  \<open>en_dial\<close> is the error of connecting to an address; \<open>en_done\<close> is \<open>Some err\<close> when a \<open>select\<close> takes the
  branch of the finished context. For a connection, \<open>en_write\<close> and \<open>en_flush\<close> give the error of writing
  more bytes (resp. flushing) after those already written, and \<open>en_read\<close> the next reply byte once the
  given bytes have been sent. \<open>en_newreq\<close> and \<open>en_http\<close> are \<open>http.NewRequestWithContext\<close> and
  \<open>Client.Do\<close>, the latter with the response's status. \<open>en_lpstat\<close> tells whether \<open>lpstat\<close> succeeds.
\<close>

type_synonym files = "string \<rightharpoonup> bytes"

record env =
  en_dial :: "string \<Rightarrow> goerror option"
  en_done :: "goerror option"
  en_write :: "bytes \<Rightarrow> bytes \<Rightarrow> goerror option"
  en_flush :: "bytes \<Rightarrow> goerror option"
  en_read :: "bytes \<Rightarrow> goerror + byte"
  en_newreq :: "string \<Rightarrow> goerror option"
  en_http :: "string \<Rightarrow> bytes \<Rightarrow> goerror + int"
  en_lpstat :: "string \<Rightarrow> bool"
  en_files :: files
  en_createtemp :: "goerror + string \<times> string"
  en_open :: "goerror option"
  en_rename :: "goerror option"
  en_soffice :: "string list \<Rightarrow> goerror option \<times> bytes option"
  en_lp :: "string list \<Rightarrow> goerror option \<times> string"

section \<open>Probing\<close>

definition probeOrder :: "(Protocol \<times> int) list" where
  "probeOrder = [(ProtocolRAW, 9100), (ProtocolLPR, 515), (ProtocolIPP, 631)]"

definition probePort :: "env \<Rightarrow> string \<Rightarrow> int \<Rightarrow> goerror + bool" where
  "probePort env ip port =
     (case en_done env of
        Some err \<Rightarrow> Inl err
      | None \<Rightarrow> Inr (en_dial env (host_port ip port) = None))"

text \<open>The loop over \<open>probeOrder\<close>; the environment of each pass is that of its call.\<close>

fun probe_loop ::
  "(Protocol \<times> int) list \<Rightarrow> (int \<Rightarrow> env) \<Rightarrow> string \<Rightarrow> Protocol \<times> DeviceStatus \<times> goerror option" where
  "probe_loop [] envs ip = (ProtocolUnknown, DeviceStatusProbeFailed, None)"
| "probe_loop ((proto, port) # pps) envs ip =
     (case probePort (envs port) ip port of
        Inl err \<Rightarrow> (ProtocolUnknown, DeviceStatusProbeFailed, Some err)
      | Inr ok \<Rightarrow> if ok then (proto, DeviceStatusOnline, None) else probe_loop pps envs ip)"

definition ProbeProtocol :: "(int \<Rightarrow> env) \<Rightarrow> string \<Rightarrow> Protocol \<times> DeviceStatus \<times> goerror option" where
  "ProbeProtocol envs ip = probe_loop probeOrder envs ip"

text \<open>The common body of the \<open>Probe\<close> methods of the TCP adapters.\<close>

definition tcp_probe :: "int \<Rightarrow> env \<Rightarrow> string \<Rightarrow> int \<Rightarrow> bool \<times> goerror option" where
  "tcp_probe dflt env ip port0 =
     (let port = (if port0 \<le> 0 then dflt else port0)
      in case en_done env of
           Some err \<Rightarrow> (False, Some err)
         | None \<Rightarrow> (case en_dial env (host_port ip port) of
                      Some err \<Rightarrow> (False, Some err)
                    | None \<Rightarrow> (True, None)))"

section \<open>RAW\<close>

definition rawDefaultPort :: int where "rawDefaultPort = 9100"

definition RawAdapter_Probe :: "env \<Rightarrow> string \<Rightarrow> int \<Rightarrow> bool \<times> goerror option" where
  "RawAdapter_Probe = tcp_probe rawDefaultPort"

text \<open>
  The document is what reading the \<open>io.Reader\<close> to its end gives: its bytes or an error. \<open>io.Copy\<close>
  fails with the reader's error or with the connection's.
\<close>

definition io_copy :: "env \<Rightarrow> goerror + bytes \<Rightarrow> goerror option" where
  "io_copy env data = (case data of Inl err \<Rightarrow> Some err | Inr bs \<Rightarrow> en_write env [] bs)"

definition RawAdapter_Send ::
  "env \<Rightarrow> string \<Rightarrow> int \<Rightarrow> goerror + bytes \<Rightarrow> PrintParams \<Rightarrow> goerror option" where
  "RawAdapter_Send env ip port0 data params =
     (let port = (if port0 \<le> 0 then rawDefaultPort else port0)
      in case en_dial env (host_port ip port) of
           Some err \<Rightarrow> Some (Wrap ErrProtocolSendFail ''raw dial'' err)
         | None \<Rightarrow>
             (case en_done env of
                Some err \<Rightarrow> Some (Wrap ErrTaskTimeout ''raw send timeout'' err)
              | None \<Rightarrow>
                  (case io_copy env data of
                     Some err \<Rightarrow> Some (Wrap ErrProtocolSendFail ''raw copy'' err)
                   | None \<Rightarrow> None)))"

section \<open>LPR\<close>

definition lprDefaultPort :: int where "lprDefaultPort = 515"
definition lprDefaultQueue :: string where [go_consts]: "lprDefaultQueue = ''lp''"
definition lprLocalHost :: string where [go_consts]: "lprLocalHost = ''localhost''"

definition LprAdapter_Probe :: "env \<Rightarrow> string \<Rightarrow> int \<Rightarrow> bool \<times> goerror option" where
  "LprAdapter_Probe = tcp_probe lprDefaultPort"

text \<open>
  The buffered writer and reader on the connection: \<open>w\<close> is what has been written so far. Each helper
  returns the wrapped error, if any, and what has been written then.
\<close>

definition bw_write :: "env \<Rightarrow> string \<Rightarrow> bytes \<Rightarrow> bytes \<Rightarrow> goerror option \<times> bytes" where
  "bw_write env msg bs w =
     (case en_write env w bs of
        Some err \<Rightarrow> (Some (Wrap ErrProtocolSendFail msg err), w)
      | None \<Rightarrow> (None, w @ bs))"

definition bw_flush :: "env \<Rightarrow> string \<Rightarrow> bytes \<Rightarrow> goerror option" where
  "bw_flush env msg w = map_option (Wrap ErrProtocolSendFail msg) (en_flush env w)"

definition lprReadAck :: "env \<Rightarrow> bytes \<Rightarrow> goerror option" where
  "lprReadAck env w =
     (case en_read env w of
        Inl err \<Rightarrow> Some (Wrap ErrProtocolSendFail ''lpr read ack'' err)
      | Inr b \<Rightarrow> if b \<noteq> 0 then Some (New ErrProtocolSendFail (''lpr rejected: code 0x'' @ hex_byte b))
                 else None)"

text \<open>
  The body both files share: the subcommand line, an acknowledgement, the file with its closing
  zero byte, an acknowledgement. \<open>what\<close> is \<open>data\<close> or \<open>ctrl\<close>, as in the error messages.
\<close>

definition lpr_command :: "byte \<Rightarrow> nat \<Rightarrow> string \<Rightarrow> bytes" where
  "lpr_command code len name = code # bytes_of (itoa (int len) @ '' '' @ name) @ [0]"

definition lpr_send_file :: "env \<Rightarrow> string \<Rightarrow> bytes \<Rightarrow> bytes \<Rightarrow> bytes \<Rightarrow> goerror option \<times> bytes" where
  "lpr_send_file env what cmd file w0 =
     (case bw_write env (''lpr '' @ what @ '' cmd'') cmd w0 of
        (Some err, w1) \<Rightarrow> (Some err, w1)
      | (None, w1) \<Rightarrow>
        case bw_flush env (''lpr '' @ what @ '' cmd flush'') w1 of
          Some err \<Rightarrow> (Some err, w1)
        | None \<Rightarrow>
        case lprReadAck env w1 of
          Some err \<Rightarrow> (Some err, w1)
        | None \<Rightarrow>
        case bw_write env (''lpr '' @ what @ '' write'') file w1 of
          (Some err, w2) \<Rightarrow> (Some err, w2)
        | (None, w2) \<Rightarrow>
        case bw_write env (''lpr '' @ what @ '' end'') [0] w2 of
          (Some err, w3) \<Rightarrow> (Some err, w3)
        | (None, w3) \<Rightarrow>
        case bw_flush env (''lpr '' @ what @ '' flush'') w3 of
          Some err \<Rightarrow> (Some err, w3)
        | None \<Rightarrow> (lprReadAck env w3, w3))"

definition lprSendDataFile :: "env \<Rightarrow> bytes \<Rightarrow> bytes \<Rightarrow> goerror option \<times> bytes" where
  "lprSendDataFile env payload w =
     (let dfName = ''dfA001'' @ lprLocalHost
      in lpr_send_file env ''data'' (lpr_command 2 (length payload) dfName) payload w)"

definition lpr_ctrl :: "string \<Rightarrow> string" where
  "lpr_ctrl queue = ''H'' @ lprLocalHost @ ''\<newline>Pagent\<newline>fdfA001\<newline>Ndoc\<newline>UdfA001\<newline>L'' @ queue @ ''\<newline>''"

definition lprSendControlFile :: "env \<Rightarrow> string \<Rightarrow> bytes \<Rightarrow> goerror option \<times> bytes" where
  "lprSendControlFile env queue w =
     (let cfName = ''cfA001'' @ lprLocalHost; ctrl = lpr_ctrl queue
      in lpr_send_file env ''ctrl'' (lpr_command 3 (length ctrl) cfName) (bytes_of ctrl) w)"

text \<open>\<open>Send\<close> returns the error and, for the theorems, what was written to the connection.\<close>

definition lpr_session :: "env \<Rightarrow> string \<Rightarrow> bytes \<Rightarrow> goerror option \<times> bytes" where
  "lpr_session env queue payload =
     (case lprSendDataFile env payload [] of
        (Some err, w) \<Rightarrow> (Some err, w)
      | (None, w) \<Rightarrow> lprSendControlFile env queue w)"

definition LprAdapter_Send ::
  "string \<Rightarrow> env \<Rightarrow> string \<Rightarrow> int \<Rightarrow> goerror + bytes \<Rightarrow> PrintParams \<Rightarrow> goerror option" where
  "LprAdapter_Send queue env ip port0 data params =
     (let port = (if port0 \<le> 0 then lprDefaultPort else port0)
      in case en_dial env (host_port ip port) of
           Some err \<Rightarrow> Some (Wrap ErrProtocolSendFail ''lpr dial'' err)
         | None \<Rightarrow>
             (case data of
                Inl err \<Rightarrow> Some (Wrap ErrProtocolSendFail ''lpr read data'' err)
              | Inr payload \<Rightarrow> fst (lpr_session env queue payload)))"

definition LprAdapter_WithQueue :: "string \<Rightarrow> string \<Rightarrow> string" where
  "LprAdapter_WithQueue queue q = (if q \<noteq> [] then q else queue)"

section \<open>IPP\<close>

definition ippDefaultPort :: int where "ippDefaultPort = 631"
definition ippDefaultURI :: string where [go_consts]: "ippDefaultURI = ''/ipp''"
definition ippOpSendDocument :: nat where "ippOpSendDocument = 6"

definition ippTagOperationAttrs :: byte where [go_consts]: "ippTagOperationAttrs = 0x01"
definition ippTagCharset :: byte where [go_consts]: "ippTagCharset = 0x47"
definition ippTagNaturalLanguage :: byte where [go_consts]: "ippTagNaturalLanguage = 0x48"
definition ippTagEndOfAttributes :: byte where [go_consts]: "ippTagEndOfAttributes = 0x03"
definition ippTagDocumentData :: byte where [go_consts]: "ippTagDocumentData = 0x04"

definition writeIPPStringAttr :: "byte \<Rightarrow> string \<Rightarrow> string \<Rightarrow> bytes" where
  "writeIPPStringAttr tag name val =
     [tag] @ be_bytes 2 (length name) @ bytes_of name @ be_bytes 2 (length val) @ bytes_of val"

text \<open>An \<open>int32\<close> is written as the four bytes of its two's complement.\<close>

definition writeIPPIntegerAttr :: "byte \<Rightarrow> string \<Rightarrow> int \<Rightarrow> bytes" where
  "writeIPPIntegerAttr tag name val =
     [tag] @ be_bytes 2 (length name) @ bytes_of name @ be_bytes 2 4 @ be_bytes 4 (nat (val mod 2 ^ 32))"

definition writeIPPBooleanAttr :: "byte \<Rightarrow> string \<Rightarrow> bool \<Rightarrow> bytes" where
  "writeIPPBooleanAttr tag name val =
     [tag] @ be_bytes 2 (length name) @ bytes_of name @ be_bytes 2 1 @ [if val then 1 else 0]"

definition buildIPPRequest :: "bytes \<Rightarrow> PrintParams \<Rightarrow> bytes" where
  "buildIPPRequest data params =
     (let copies = (if pp_Copies params \<le> 0 then 1 else pp_Copies params)
      in [1, 1] @ be_bytes 2 ippOpSendDocument @ be_bytes 4 1 @ [ippTagOperationAttrs] @
         writeIPPStringAttr ippTagCharset ''attributes-charset'' ''utf-8'' @
         writeIPPStringAttr ippTagNaturalLanguage ''attributes-natural-language'' ''en'' @
         writeIPPIntegerAttr 0x02 ''copies'' (wrap32 copies) @
         writeIPPBooleanAttr 0x22 ''last-document'' True @
         [ippTagDocumentData] @ data @ [ippTagEndOfAttributes])"

definition IppAdapter_Probe :: "env \<Rightarrow> string \<Rightarrow> int \<Rightarrow> bool \<times> goerror option" where
  "IppAdapter_Probe = tcp_probe ippDefaultPort"

definition IppAdapter_Send ::
  "string \<Rightarrow> env \<Rightarrow> string \<Rightarrow> int \<Rightarrow> goerror + bytes \<Rightarrow> PrintParams \<Rightarrow> goerror option" where
  "IppAdapter_Send uri env ip port0 data params =
     (let port = (if port0 \<le> 0 then ippDefaultPort else port0)
      in case data of
           Inl err \<Rightarrow> Some (Wrap ErrProtocolSendFail ''ipp read data'' err)
         | Inr payload \<Rightarrow>
             let body = buildIPPRequest payload params;
                 url = ''http://'' @ ip @ '':'' @ itoa port @ uri
             in case en_newreq env url of
                  Some err \<Rightarrow> Some (Wrap ErrProtocolSendFail ''ipp build request'' err)
                | None \<Rightarrow>
                    (case en_http env url body of
                       Inl err \<Rightarrow> Some (Wrap ErrProtocolSendFail ''ipp send'' err)
                     | Inr status \<Rightarrow>
                         if status < 200 \<or> 300 \<le> status
                         then Some (New ErrProtocolSendFail (''ipp http status '' @ itoa status))
                         else None))"

definition IppAdapter_WithURI :: "string \<Rightarrow> string \<Rightarrow> string" where
  "IppAdapter_WithURI uri u = (if u \<noteq> [] then u else uri)"

section \<open>CUPS\<close>

text \<open>
  The files the adapter works on are a map from paths to contents, \<open>en_files\<close> at the start.
  \<open>en_createtemp\<close> gives the directory
  and the base name of the new temporary file; \<open>en_soffice\<close> is the run of LibreOffice on its arguments,
  with the PDF it left in the output directory, if any.
\<close>

definition os_remove :: "string \<Rightarrow> files \<Rightarrow> files" where
  "os_remove path fs = fs(path := None)"

definition os_rename :: "string \<Rightarrow> string \<Rightarrow> files \<Rightarrow> files" where
  "os_rename old new fs = (case fs old of None \<Rightarrow> fs | Some c \<Rightarrow> fs(old := None, new \<mapsto> c))"

definition path_join :: "string \<Rightarrow> string \<Rightarrow> string" where
  "path_join dir base = dir @ ''/'' @ base"

text \<open>What the magic numbers at the start of the file say: the extension, if it is an office document.\<close>

definition office_ext :: "bytes \<Rightarrow> string option" where
  "office_ext content =
     (let buf = take 8 content @ replicate (8 - length (take 8 content)) 0
      in if length (take 8 content) < 4 then None
         else if take 8 buf = [0xD0, 0xCF, 0x11, 0xE0, 0xA1, 0xB1, 0x1A, 0xE1] then Some ''.doc''
         else if take 4 buf = [0x50, 0x4B, 0x03, 0x04] then Some ''.docx''
         else None)"

definition soffice_args :: "string \<Rightarrow> string \<Rightarrow> string list" where
  "soffice_args dir extPath =
     [''--headless'', ''-env:UserInstallation=file:///var/lib/cloud-print-agent/lo_profile'',
      ''--convert-to'', ''pdf'', ''--outdir'', dir, extPath]"

text \<open>
  \<open>convertOfficeToPDF\<close>: the path of the PDF, \<open>Inr None\<close> for the empty path of a document that needs
  no conversion, or the error. The deferred function renames the document back in every case.
\<close>

definition convertOfficeToPDF ::
  "env \<Rightarrow> string \<Rightarrow> string \<Rightarrow> files \<Rightarrow> (goerror + string option) \<times> files" where
  "convertOfficeToPDF env dir base fs =
     (let filePath = path_join dir base in
      case en_open env of
        Some err \<Rightarrow> (Inl err, fs)
      | None \<Rightarrow>
      case office_ext (case fs filePath of None \<Rightarrow> [] | Some c \<Rightarrow> c) of
        None \<Rightarrow> (Inr None, fs)
      | Some ext \<Rightarrow>
          let extPath = filePath @ ext in
          case en_rename env of
            Some err \<Rightarrow> (Inl err, fs)
          | None \<Rightarrow>
              let fs1 = os_rename filePath extPath fs;
                  (runErr, pdf) = en_soffice env (soffice_args dir extPath);
                  pdfPath = path_join dir (base @ ''.pdf'');
                  fs2 = (case pdf of None \<Rightarrow> fs1 | Some c \<Rightarrow> fs1(pdfPath \<mapsto> c));
                  r = (case runErr of
                         Some err \<Rightarrow> Inl err
                       | None \<Rightarrow>
                           (case fs2 pdfPath of
                              None \<Rightarrow> Inl (PlainError (''stat '' @ pdfPath @ '': no such file or directory''))
                            | Some _ \<Rightarrow> Inr (Some pdfPath)))
              in (r, os_rename extPath filePath fs2))"

definition cups_args :: "string \<Rightarrow> PrintParams \<Rightarrow> string \<Rightarrow> string list" where
  "cups_args printerName params printFile =
     [''-d'', printerName] @
     (if 1 < pp_Copies params then [''-n'', itoa (pp_Copies params)] else []) @
     (case pp_Extra params ''paper_size'' of
        Some sz \<Rightarrow> if sz \<noteq> [] then [''-o'', ''media='' @ sz] else []
      | None \<Rightarrow> []) @
     (if pp_Orientation params = ''landscape'' then [''-o'', ''landscape''] else []) @
     [printFile]"

definition cups_run ::
  "env \<Rightarrow> string \<Rightarrow> goerror + bytes \<Rightarrow> PrintParams \<Rightarrow> files \<Rightarrow> goerror option \<times> files" where
  "cups_run env printerName data params fs0 =
     (case en_createtemp env of
        Inl err \<Rightarrow> (Some (Wrap ErrProtocolSendFail ''create temp file'' err), fs0)
      | Inr (dir, base) \<Rightarrow>
          let tmpPath = path_join dir base;
              fs1 = fs0(tmpPath \<mapsto> [])
          in case io_copy env data of
               Some err \<Rightarrow> (Some (Wrap ErrProtocolSendFail ''write temp file'' err), os_remove tmpPath fs1)
             | None \<Rightarrow>
                 let fs2 = fs1(tmpPath \<mapsto> (case data of Inl _ \<Rightarrow> [] | Inr bs \<Rightarrow> bs));
                     (conv, fs3) = convertOfficeToPDF env dir base fs2;
                     converted = (case conv of Inl _ \<Rightarrow> None | Inr p \<Rightarrow> p);
                     printFile = (case converted of None \<Rightarrow> tmpPath | Some p \<Rightarrow> p);
                     (lpErr, output) = en_lp env (cups_args printerName params printFile);
                     fs4 = (case converted of None \<Rightarrow> fs3 | Some p \<Rightarrow> os_remove p fs3)
                 in (map_option (Wrap ErrProtocolSendFail (''lp failed: '' @ output)) lpErr,
                     os_remove tmpPath fs4))"

definition CupsAdapter_Probe :: "env \<Rightarrow> string \<Rightarrow> int \<Rightarrow> bool \<times> goerror option" where
  "CupsAdapter_Probe env printerName port = (en_lpstat env printerName, None)"

definition CupsAdapter_Send ::
  "env \<Rightarrow> string \<Rightarrow> int \<Rightarrow> goerror + bytes \<Rightarrow> PrintParams \<Rightarrow> goerror option" where
  "CupsAdapter_Send env printerName port data params = fst (cups_run env printerName data params (en_files env))"

section \<open>Choosing an adapter\<close>

datatype PrintAdapter = RawAdapter | LprAdapter string | IppAdapter string | CupsAdapter

definition AdapterFor :: "Protocol \<Rightarrow> PrintAdapter option" where
  "AdapterFor protocol =
     (if protocol = ProtocolRAW then Some RawAdapter
      else if protocol = ProtocolLPR then Some (LprAdapter lprDefaultQueue)
      else if protocol = ProtocolIPP then Some (IppAdapter ippDefaultURI)
      else if protocol = ProtocolCUPS then Some CupsAdapter
      else None)"

fun Adapter_Send ::
  "PrintAdapter \<Rightarrow> env \<Rightarrow> string \<Rightarrow> int \<Rightarrow> goerror + bytes \<Rightarrow> PrintParams \<Rightarrow> goerror option" where
  "Adapter_Send RawAdapter = RawAdapter_Send"
| "Adapter_Send (LprAdapter queue) = LprAdapter_Send queue"
| "Adapter_Send (IppAdapter uri) = IppAdapter_Send uri"
| "Adapter_Send CupsAdapter = CupsAdapter_Send"

fun Adapter_Probe :: "PrintAdapter \<Rightarrow> env \<Rightarrow> string \<Rightarrow> int \<Rightarrow> bool \<times> goerror option" where
  "Adapter_Probe RawAdapter = RawAdapter_Probe"
| "Adapter_Probe (LprAdapter queue) = LprAdapter_Probe"
| "Adapter_Probe (IppAdapter uri) = IppAdapter_Probe"
| "Adapter_Probe CupsAdapter = CupsAdapter_Probe"

section \<open>The adapters implement the executor's interface\<close>

interpretation raw: print_adapter RawAdapter_Send
  by unfold_locales
    (auto simp: RawAdapter_Send_def Let_def split: option.splits)

lemma bw_write_code: "bw_write env msg bs w = (Some e, w') \<Longrightarrow> CodeFromErr e = Some ErrProtocolSendFail"
  by (auto simp: bw_write_def split: option.splits)

lemma bw_flush_code: "bw_flush env msg w = Some e \<Longrightarrow> CodeFromErr e = Some ErrProtocolSendFail"
  by (auto simp: bw_flush_def)

lemma lprReadAck_code: "lprReadAck env w = Some e \<Longrightarrow> CodeFromErr e = Some ErrProtocolSendFail"
  by (auto simp: lprReadAck_def split: sum.splits if_splits)

lemma lpr_send_file_code:
  "fst (lpr_send_file env what cmd file w) = Some e \<Longrightarrow> CodeFromErr e = Some ErrProtocolSendFail"
  unfolding lpr_send_file_def
  by (auto dest: bw_write_code bw_flush_code lprReadAck_code split: prod.splits option.splits)

lemma lpr_session_code:
  assumes "fst (lpr_session env queue payload) = Some e"
  shows "CodeFromErr e = Some ErrProtocolSendFail"
proof (cases "lprSendDataFile env payload []")
  case (Pair r w)
  show ?thesis
  proof (cases r)
    case None
    with assms Pair have "fst (lprSendControlFile env queue w) = Some e" by (simp add: lpr_session_def)
    then show ?thesis unfolding lprSendControlFile_def Let_def by (rule lpr_send_file_code)
  next
    case (Some e')
    with assms Pair have "fst (lprSendDataFile env payload []) = Some e" by (simp add: lpr_session_def)
    then show ?thesis unfolding lprSendDataFile_def Let_def by (rule lpr_send_file_code)
  qed
qed

interpretation lpr: print_adapter "LprAdapter_Send queue" for queue
  by unfold_locales
    (auto simp: LprAdapter_Send_def Let_def dest: lpr_session_code split: option.splits sum.splits)

interpretation ipp: print_adapter "IppAdapter_Send uri" for uri
  by unfold_locales
    (auto simp: IppAdapter_Send_def Let_def split: option.splits sum.splits if_splits)

interpretation cups: print_adapter CupsAdapter_Send
  by unfold_locales
    (auto simp: CupsAdapter_Send_def cups_run_def Let_def split: option.splits sum.splits prod.splits)

section \<open>LPR on the wire\<close>

text \<open>
  A receiver of the framing the adapter uses: the subcommand byte, the decimal length, a space, the
  name, a zero byte, then that many bytes and a zero byte.
\<close>

definition lpr_take_file :: "bytes \<Rightarrow> ((byte \<times> string \<times> bytes) \<times> bytes) option" where
  "lpr_take_file bs =
     (case bs of
        [] \<Rightarrow> None
      | code # rest \<Rightarrow>
          let line = takeWhile (\<lambda>b. b \<noteq> 0) rest;
              num = takeWhile (\<lambda>c. c \<noteq> CHR '' '') (string_of line);
              name = drop (Suc (length num)) (string_of line);
              after = drop (Suc (length line)) rest
          in case digits_val 0 num of
               None \<Rightarrow> None
             | Some n \<Rightarrow> if n < length after \<and> after ! n = 0
                         then Some ((code, name, take n after), drop (Suc n) after) else None)"

definition lpr_receive :: "bytes \<Rightarrow> (byte \<times> string \<times> bytes) list option" where
  "lpr_receive bs =
     (case lpr_take_file bs of
        None \<Rightarrow> None
      | Some (f1, rest) \<Rightarrow>
          (case lpr_take_file rest of
             None \<Rightarrow> None
           | Some (f2, rest') \<Rightarrow> if rest' = [] then Some [f1, f2] else None))"

lemma string_of_append [simp]: "string_of (xs @ ys) = string_of xs @ string_of ys"
  by (simp add: string_of_def)

lemma of_char_eq_0: "(of_char c :: byte) = 0 \<longleftrightarrow> c = CHR 0x00"
proof
  assume "(of_char c :: byte) = 0"
  then have "(of_char c :: nat) = of_char (CHR 0x00)" using unat_of_char_word [of c] by simp
  then show "c = CHR 0x00" by (simp only: of_char_eq_iff)
qed simp

lemma lpr_take_command:
  assumes "CHR 0x00 \<notin> set name"
  shows "lpr_take_file (lpr_command code (length file) name @ file @ [0] @ rest) =
    Some ((code, name, file), rest)"
proof -
  let ?n = "itoa_nat (length file)" let ?line = "bytes_of (?n @ '' '' @ name)"
  have d: "c \<noteq> CHR '' ''" "c \<noteq> CHR 0x00" if "c \<in> set ?n" for c
    using itoa_nat_digits [OF that] by (auto simp: digit_val_def)
  have nz: "b \<noteq> 0" if "b \<in> set ?line" for b
    using that d(2) assms by (auto simp: bytes_of_def of_char_eq_0)
  have line: "takeWhile (\<lambda>b. b \<noteq> 0) (?line @ 0 # file @ 0 # rest) = ?line"
    using nz by (simp add: takeWhile_append2)
  have num: "takeWhile (\<lambda>c. c \<noteq> CHR '' '') (?n @ '' '' @ name) = ?n"
    using d(1) by (simp add: takeWhile_append2)
  have "drop (Suc (length ?line)) (?line @ 0 # file @ 0 # rest) = file @ 0 # rest" by simp
  then show ?thesis
    using line num digits_val_itoa_nat [of "length file"]
    by (simp add: lpr_take_file_def lpr_command_def itoa_of_nat Let_def nth_append del: append_Cons)
       simp
qed

lemma lpr_send_file_ok:
  assumes "lpr_send_file env what cmd file w = (None, w')"
  shows "w' = w @ cmd @ file @ [0]" "en_read env (w @ cmd) = Inr 0" "en_read env w' = Inr 0"
  using assms
  by (auto simp: lpr_send_file_def bw_write_def bw_flush_def lprReadAck_def
      split: prod.splits option.splits sum.splits if_splits)

lemma lpr_session_ok:
  assumes "fst (lpr_session env queue payload) = None"
  shows "snd (lpr_session env queue payload) =
      lpr_command 2 (length payload) (''dfA001'' @ lprLocalHost) @ payload @ [0] @
      lpr_command 3 (length (lpr_ctrl queue)) (''cfA001'' @ lprLocalHost) @ bytes_of (lpr_ctrl queue) @ [0]"
    and "en_read env (snd (lpr_session env queue payload)) = Inr 0"
proof -
  obtain r w where d: "lprSendDataFile env payload [] = (r, w)" by fastforce
  with assms have r: "r = None" by (cases r) (auto simp: lpr_session_def)
  obtain r' w' where c: "lprSendControlFile env queue w = (r', w')" by fastforce
  with assms d r have r': "r' = None" "lpr_session env queue payload = (None, w')"
    by (auto simp: lpr_session_def)
  note d' = lpr_send_file_ok [OF d [unfolded r lprSendDataFile_def Let_def]]
  note c' = lpr_send_file_ok [OF c [unfolded r'(1) lprSendControlFile_def Let_def]]
  show "snd (lpr_session env queue payload) =
      lpr_command 2 (length payload) (''dfA001'' @ lprLocalHost) @ payload @ [0] @
      lpr_command 3 (length (lpr_ctrl queue)) (''cfA001'' @ lprLocalHost) @ bytes_of (lpr_ctrl queue) @ [0]"
    using d'(1) c'(1) r'(2) by simp
  show "en_read env (snd (lpr_session env queue payload)) = Inr 0" using c'(3) r'(2) by simp
qed

text \<open>
  (C29) LPR delivery. When \<open>Send\<close> returns no error, a receiver that reads the length-prefixed framing
  gets exactly two files: the data file, whose content is the document byte for byte (whatever bytes
  it holds), and the control file, which names the queue; and the printer has acknowledged the last
  of them with a zero byte.
\<close>

theorem lpr_send_delivers:
  assumes "LprAdapter_Send queue env ip port (Inr payload) params = None"
  shows "lpr_receive (snd (lpr_session env queue payload)) =
           Some [(2, ''dfA001localhost'', payload), (3, ''cfA001localhost'', bytes_of (lpr_ctrl queue))] \<and>
         en_read env (snd (lpr_session env queue payload)) = Inr 0"
proof -
  have s: "fst (lpr_session env queue payload) = None"
    using assms by (auto simp: LprAdapter_Send_def Let_def split: option.splits)
  have n: "CHR 0x00 \<notin> set (''dfA001'' @ lprLocalHost)" "CHR 0x00 \<notin> set (''cfA001'' @ lprLocalHost)"
    by (simp_all add: go_consts)
  let ?ctrl = "bytes_of (lpr_ctrl queue)"
  have "lpr_take_file (snd (lpr_session env queue payload)) =
      Some ((2, ''dfA001'' @ lprLocalHost, payload),
        lpr_command 3 (length ?ctrl) (''cfA001'' @ lprLocalHost) @ ?ctrl @ [0] @ [])"
    using lpr_take_command [OF n(1), of 2 payload "lpr_command 3 (length ?ctrl) (''cfA001'' @ lprLocalHost) @ ?ctrl @ [0] @ []"]
    by (simp add: lpr_session_ok(1) [OF s])
  moreover note lpr_take_command [OF n(2), of 3 ?ctrl "[]"]
  ultimately show ?thesis
    using lpr_session_ok(2) [OF s] by (simp add: lpr_receive_def go_consts)
qed

section \<open>IPP on the wire\<close>

text \<open>
  A reader of the request: the attributes (tag, name, value) up to the document tag, then the
  document up to the final tag.
\<close>

function ipp_attrs :: "bytes \<Rightarrow> ((byte \<times> string \<times> bytes) list \<times> bytes) option" where
  "ipp_attrs bs =
     (case bs of
        [] \<Rightarrow> None
      | tag # r \<Rightarrow>
          if tag = ippTagDocumentData then Some ([], r)
          else
            let n = be_val (take 2 r); name = take n (drop 2 r); r2 = drop (2 + n) r;
                m = be_val (take 2 r2); v = take m (drop 2 r2); r3 = drop (2 + m) r2
            in (case ipp_attrs r3 of None \<Rightarrow> None | Some (as, d) \<Rightarrow> Some ((tag, string_of name, v) # as, d)))"
  by auto
termination by (relation "measure length") auto

declare ipp_attrs.simps [simp del]

definition ipp_read :: "bytes \<Rightarrow> (nat \<times> (byte \<times> string \<times> bytes) list \<times> bytes) option" where
  "ipp_read bs =
     (case ipp_attrs (drop 9 bs) of
        None \<Rightarrow> None
      | Some (as, d) \<Rightarrow> Some (be_val (take 2 (drop 2 bs)), as, butlast d))"

lemma ipp_attrs_doc: "ipp_attrs (ippTagDocumentData # d) = Some ([], d)"
  by (simp add: ipp_attrs.simps)

lemma ipp_attrs_attr:
  assumes "tag \<noteq> ippTagDocumentData" "length name < 65536" "length v < 65536"
  shows "ipp_attrs (tag # be_bytes 2 (length name) @ bytes_of name @ be_bytes 2 (length v) @ v @ rest) =
    map_option (\<lambda>(as, d). ((tag, name, v) # as, d)) (ipp_attrs rest)"
  using assms
  by (subst ipp_attrs.simps) (simp add: be_val_be_bytes Let_def split: option.splits)

lemma ipp_attrs_writers:
  assumes "tag \<noteq> ippTagDocumentData" "length name < 65536"
  shows "length v < 65536 \<Longrightarrow> ipp_attrs (writeIPPStringAttr tag name v @ rest) =
      map_option (\<lambda>(as, d). ((tag, name, bytes_of v) # as, d)) (ipp_attrs rest)"
    and "ipp_attrs (writeIPPIntegerAttr tag name i @ rest) =
      map_option (\<lambda>(as, d). ((tag, name, be_bytes 4 (nat (i mod 2 ^ 32))) # as, d)) (ipp_attrs rest)"
    and "ipp_attrs (writeIPPBooleanAttr tag name b @ rest) =
      map_option (\<lambda>(as, d). ((tag, name, [if b then 1 else 0]) # as, d)) (ipp_attrs rest)"
  using ipp_attrs_attr [OF assms, of "bytes_of v"] ipp_attrs_attr [OF assms, of "be_bytes 4 (nat (i mod 2 ^ 32))"]
    ipp_attrs_attr [OF assms, of "[if b then 1 else 0]"]
  by (simp_all add: writeIPPStringAttr_def writeIPPIntegerAttr_def writeIPPBooleanAttr_def)

text \<open>
  (C30) IPP request. Reading back what \<open>buildIPPRequest\<close> wrote gives the operation \<open>Send-Document\<close>, the
  four attributes with their values, and the document byte for byte, which stands between the
  document tag and the closing end-of-attributes tag. The copies value is the number asked for, from
  1 up to the largest \<open>int32\<close>; a number below 1 counts as 1.
\<close>

theorem ipp_request_roundtrip:
  "\<exists>copies. ipp_read (buildIPPRequest data params) =
      Some (6, [(0x47, ''attributes-charset'', bytes_of ''utf-8''),
                (0x48, ''attributes-natural-language'', bytes_of ''en''),
                (0x02, ''copies'', copies),
                (0x22, ''last-document'', [1])], data) \<and>
    (pp_Copies params < 2 ^ 31 \<longrightarrow> int (be_val copies) = max 1 (pp_Copies params)) \<and>
    last (buildIPPRequest data params) = ippTagEndOfAttributes"
proof -
  define c where "c = wrap32 (if pp_Copies params \<le> 0 then 1 else pp_Copies params)"
  define cb where "cb = be_bytes 4 (nat (c mod 2 ^ 32))"
  let ?tail = "ippTagDocumentData # data @ [ippTagEndOfAttributes]"
  have drop: "drop 9 (buildIPPRequest data params) =
      writeIPPStringAttr ippTagCharset ''attributes-charset'' ''utf-8'' @
      writeIPPStringAttr ippTagNaturalLanguage ''attributes-natural-language'' ''en'' @
      writeIPPIntegerAttr 0x02 ''copies'' c @ writeIPPBooleanAttr 0x22 ''last-document'' True @ ?tail"
    by (simp add: buildIPPRequest_def c_def Let_def)
  have attrs: "ipp_attrs (drop 9 (buildIPPRequest data params)) =
      Some ([(0x47, ''attributes-charset'', bytes_of ''utf-8''),
             (0x48, ''attributes-natural-language'', bytes_of ''en''),
             (0x02, ''copies'', cb), (0x22, ''last-document'', [1])], data @ [ippTagEndOfAttributes])"
    unfolding drop by (simp add: ipp_attrs_writers ipp_attrs_doc [unfolded ippTagDocumentData_def] cb_def go_consts)
  have op: "be_val (take 2 (drop 2 (buildIPPRequest data params))) = 6"
    by (simp add: buildIPPRequest_def ippOpSendDocument_def Let_def be_val_be_bytes)
  have "int (be_val cb) = max 1 (pp_Copies params)" if "pp_Copies params < 2 ^ 31"
  proof -
    have "c = max 1 (pp_Copies params)"
      using that unfolding c_def by (subst wrap32_id) auto
    moreover from this have "c mod 2 ^ 32 = c" using that by simp
    ultimately show ?thesis using that by (simp add: cb_def be_val_be_bytes)
  qed
  moreover have "last (buildIPPRequest data params) = ippTagEndOfAttributes"
    by (simp add: buildIPPRequest_def Let_def)
  ultimately show ?thesis
    using attrs op by (intro exI [of _ cb]) (simp add: ipp_read_def)
qed

section \<open>Sending and probing\<close>

text \<open>
  (C31) The errors of every adapter. Whatever adapter \<open>AdapterFor\<close> chooses, whatever the network, the
  printer and the document do, a \<open>Send\<close> that fails carries the code for a failed send or for a timeout,
  and so is one the error classification calls retryable and never terminal. There is an adapter for
  exactly the four known protocols.
\<close>

theorem adapter_send_errors:
  "(AdapterFor p = None \<longleftrightarrow> p \<notin> {ProtocolRAW, ProtocolLPR, ProtocolIPP, ProtocolCUPS}) \<and>
   (AdapterFor p = Some a \<longrightarrow> Adapter_Send a env ip port data params = Some e \<longrightarrow>
      (CodeFromErr e = Some ErrProtocolSendFail \<or> CodeFromErr e = Some ErrTaskTimeout) \<and>
      IsRetryable e \<and> \<not> IsTerminal e)"
proof -
  have "AdapterFor p = None \<longleftrightarrow> p \<notin> {ProtocolRAW, ProtocolLPR, ProtocolIPP, ProtocolCUPS}"
    by (simp add: AdapterFor_def)
  moreover have "(CodeFromErr e = Some ErrProtocolSendFail \<or> CodeFromErr e = Some ErrTaskTimeout) \<and>
      IsRetryable e \<and> \<not> IsTerminal e" if "Adapter_Send a env ip port data params = Some e"
    using that raw.send_code raw.send_retryable lpr.send_code lpr.send_retryable
      ipp.send_code ipp.send_retryable cups.send_code cups.send_retryable
    by (cases a) (simp; blast)+
  ultimately show ?thesis by blast
qed

lemma probe_loop_find:
  "(\<forall>(p, port) \<in> set pps. en_done (envs port) = None) \<Longrightarrow>
   probe_loop pps envs ip =
     (case find (\<lambda>(p, port). en_dial (envs port) (host_port ip port) = None) pps of
        Some (p, _) \<Rightarrow> (p, DeviceStatusOnline, None)
      | None \<Rightarrow> (ProtocolUnknown, DeviceStatusProbeFailed, None))"
  by (induction pps) (auto simp: probePort_def)

lemma probe_loop_status:
  "probe_loop pps envs ip = (p, st, err) \<Longrightarrow>
     (st = DeviceStatusOnline \<and> err = None \<and>
        (\<exists>port. (p, port) \<in> set pps \<and> en_dial (envs port) (host_port ip port) = None)) \<or>
     (st = DeviceStatusProbeFailed \<and> p = ProtocolUnknown)"
  by (induction pps) (auto simp: probePort_def split: sum.splits option.splits if_splits)

text \<open>
  Probing a printer. \<open>ProbeProtocol\<close> reports a device online only with a protocol whose standard
  port accepted a connection, and there is an adapter for it; otherwise it reports a failed probe and
  an unknown protocol. If the context is not cancelled, the answer is the first open port in the order
  RAW, LPR, IPP, with no error even if all are closed.
\<close>

theorem probe_protocol_outcome:
  assumes "ProbeProtocol envs ip = (p, st, err)"
  shows "(st = DeviceStatusOnline \<and> err = None \<and> AdapterFor p \<noteq> None \<and>
            (\<exists>port. (p, port) \<in> set probeOrder \<and> en_dial (envs port) (host_port ip port) = None) \<or>
          st = DeviceStatusProbeFailed \<and> p = ProtocolUnknown) \<and>
         ((\<forall>port. en_done (envs port) = None) \<longrightarrow>
            err = None \<and>
            map_option fst (find (\<lambda>(p, port). en_dial (envs port) (host_port ip port) = None) probeOrder) =
              (if st = DeviceStatusOnline then Some p else None))"
proof -
  have "AdapterFor q \<noteq> None" if "(q, port) \<in> set probeOrder" for q port
    using that by (auto simp: probeOrder_def AdapterFor_def)
  moreover note probe_loop_status [OF assms [unfolded ProbeProtocol_def]]
  moreover have "err = None \<and>
      map_option fst (find (\<lambda>(p, port). en_dial (envs port) (host_port ip port) = None) probeOrder) =
        (if st = DeviceStatusOnline then Some p else None)" if "\<forall>port. en_done (envs port) = None"
  proof -
    have "(p, st, err) = (case find (\<lambda>(p, port). en_dial (envs port) (host_port ip port) = None) probeOrder of
        Some (p, _) \<Rightarrow> (p, DeviceStatusOnline, None)
      | None \<Rightarrow> (ProtocolUnknown, DeviceStatusProbeFailed, None))"
      using probe_loop_find [of probeOrder envs ip] that assms by (auto simp: ProbeProtocol_def)
    moreover have "DeviceStatusProbeFailed \<noteq> DeviceStatusOnline" by (simp add: go_consts)
    ultimately show ?thesis by (auto split: option.splits)
  qed
  ultimately show ?thesis by blast
qed

section \<open>The temporary files of the CUPS adapter\<close>

lemma office_ext_cases: "office_ext c = Some ext \<Longrightarrow> ext = ''.doc'' \<or> ext = ''.docx''"
  by (auto simp: office_ext_def Let_def split: if_splits)

lemma convert_files:
  assumes conv: "convertOfficeToPDF env dir base fs = (r, fs')"
    and tmp: "fs (path_join dir base) = Some c"
    and fresh: "fs (path_join dir base @ ''.doc'') = None" "fs (path_join dir base @ ''.docx'') = None"
    and x: "x \<noteq> path_join dir (base @ ''.pdf'')"
  shows "fs' x = fs x"
    and "r = Inr (Some p) \<Longrightarrow> p = path_join dir (base @ ''.pdf'')"
proof -
  show "fs' x = fs x"
    using conv tmp fresh x office_ext_cases
    by (fastforce simp: convertOfficeToPDF_def Let_def os_rename_def path_join_def
        split: option.splits prod.splits if_splits)
  show "r = Inr (Some p) \<Longrightarrow> p = path_join dir (base @ ''.pdf'')"
    using conv by (auto simp: convertOfficeToPDF_def Let_def split: option.splits prod.splits)
qed

lemma convert_pdf:
  assumes conv: "convertOfficeToPDF env dir base fs = (r, fs')"
    and "fs (path_join dir (base @ ''.pdf'')) = None"
    and clean: "\<forall>args. fst (en_soffice env args) \<noteq> None \<longrightarrow> snd (en_soffice env args) = None"
    and r: "r \<noteq> Inr (Some (path_join dir (base @ ''.pdf'')))"
  shows "fs' (path_join dir (base @ ''.pdf'')) = None"
proof -
  have neq: "path_join dir (base @ ''.pdf'') \<noteq> path_join dir base"
    "path_join dir (base @ ''.pdf'') \<noteq> path_join dir base @ ''.doc''"
    "path_join dir (base @ ''.pdf'') \<noteq> path_join dir base @ ''.docx''"
    by (simp_all add: path_join_def)
  show ?thesis
  proof (cases "en_open env = None \<and> en_rename env = None")
    case False
    with assms show ?thesis
      by (auto simp: convertOfficeToPDF_def Let_def split: option.splits prod.splits)
  next
    case True
    show ?thesis
    proof (cases "office_ext (case fs (path_join dir base) of None \<Rightarrow> [] | Some c \<Rightarrow> c)")
      case None
      with True assms show ?thesis by (auto simp: convertOfficeToPDF_def Let_def)
    next
      case (Some ext)
      obtain runErr pdf where so: "en_soffice env (soffice_args dir (path_join dir base @ ext)) = (runErr, pdf)"
        by fastforce
      have "pdf = None"
        using clean [rule_format, of "soffice_args dir (path_join dir base @ ext)"] so r conv True Some
        by (cases runErr; cases pdf) (auto simp: convertOfficeToPDF_def Let_def)
      then show ?thesis
        using conv True Some so assms(2) neq office_ext_cases [OF Some]
        by (auto simp: convertOfficeToPDF_def Let_def os_rename_def split: option.splits)
    qed
  qed
qed

text \<open>
  The CUPS adapter's temporary files. With fresh names for the temporary file and its renamed
  copies, \<open>Send\<close> leaves every file as it was, whatever fails on the way, with one exception: the PDF of
  a conversion. It too is gone, provided LibreOffice leaves none behind when it fails.
\<close>

theorem cups_cleans_up:
  assumes "en_createtemp env = Inr (dir, base)"
    and "fs (path_join dir base) = None" "fs (path_join dir base @ ''.doc'') = None"
      "fs (path_join dir base @ ''.docx'') = None" "fs (path_join dir (base @ ''.pdf'')) = None"
    and "cups_run env printerName data params fs = (err, fs')"
  shows "(\<forall>x. x \<noteq> path_join dir (base @ ''.pdf'') \<longrightarrow> fs' x = fs x) \<and>
         ((\<forall>args. fst (en_soffice env args) \<noteq> None \<longrightarrow> snd (en_soffice env args) = None) \<longrightarrow> fs' = fs)"
proof -
  let ?tmp = "path_join dir base" and ?pdf = "path_join dir (base @ ''.pdf'')"
  have neq: "?pdf \<noteq> ?tmp" "?tmp \<noteq> ?pdf" "?tmp @ ''.doc'' \<noteq> ?tmp" "?tmp @ ''.docx'' \<noteq> ?tmp"
    by (simp_all add: path_join_def)
  show ?thesis
  proof (cases "io_copy env data")
    case (Some e)
    then have "fs' = fs(?tmp := None)"
      using assms(1,6) by (auto simp: cups_run_def Let_def os_remove_def)
    with assms(2) show ?thesis by (auto simp: fun_eq_iff)
  next
    case None
    let ?fs2 = "fs(?tmp \<mapsto> (case data of Inl _ \<Rightarrow> [] | Inr bs \<Rightarrow> bs))"
    obtain r fs3 where conv: "convertOfficeToPDF env dir base ?fs2 = (r, fs3)" by fastforce
    note files = convert_files [OF conv, where c = "case data of Inl _ \<Rightarrow> [] | Inr bs \<Rightarrow> bs"]
    have same: "fs3 x = ?fs2 x" if "x \<noteq> ?pdf" for x
      using files(1) [of x] that assms(3,4) neq by simp
    have r: "p = ?pdf" if "r = Inr (Some p)" for p
      using files(2) [of ?tmp p] that assms(3,4) neq by simp
    have fs': "fs' = (case r of Inr (Some p) \<Rightarrow> fs3(p := None, ?tmp := None) | _ \<Rightarrow> fs3(?tmp := None))"
      using assms(1,6) None conv
      by (auto simp: cups_run_def Let_def os_remove_def split: prod.splits sum.splits option.splits)
    have a: "fs' x = fs x" if "x \<noteq> ?pdf" for x
      using same [OF that] assms(2) that
      by (auto simp: fs' dest!: r split: sum.splits option.splits)
    have "fs' ?pdf = fs ?pdf"
      if "\<forall>args. fst (en_soffice env args) \<noteq> None \<longrightarrow> snd (en_soffice env args) = None"
    proof (cases "r = Inr (Some ?pdf)")
      case True
      then show ?thesis using assms(5) by (simp add: fs')
    next
      case False
      have "fs3 ?pdf = None"
        using convert_pdf [OF conv _ that False] assms(5) neq by simp
      then show ?thesis using assms(5) False neq by (auto simp: fs' dest!: r split: sum.splits option.splits)
    qed
    then have "fs' = fs"
      if "\<forall>args. fst (en_soffice env args) \<noteq> None \<longrightarrow> snd (en_soffice env args) = None"
      using that a by (intro ext) metis
    with a show ?thesis by (intro conjI allI impI)
  qed
qed

section \<open>Witnesses\<close>

text \<open>A network in which every call succeeds, and one in which nothing answers.\<close>

definition env_up :: env where
  "env_up = \<lparr>en_dial = (\<lambda>_. None), en_done = None, en_write = (\<lambda>_ _. None), en_flush = (\<lambda>_. None),
     en_read = (\<lambda>_. Inr 0), en_newreq = (\<lambda>_. None), en_http = (\<lambda>_ _. Inr 200), en_lpstat = (\<lambda>_. True),
     en_files = Map.empty, en_createtemp = Inr (''/tmp'', ''cups-print-1''), en_open = None,
     en_rename = None, en_soffice = (\<lambda>_. (None, Some [0x25])), en_lp = (\<lambda>_. (None, []))\<rparr>"

definition env_down :: env where
  "env_down = env_up\<lparr>en_dial := (\<lambda>_. Some (PlainError ''connection refused''))\<rparr>"

lemma env_up_sel [simp]:
  "en_dial env_up = (\<lambda>_. None)" "en_done env_up = None" "en_write env_up = (\<lambda>_ _. None)"
  "en_flush env_up = (\<lambda>_. None)" "en_read env_up = (\<lambda>_. Inr 0)"
  "en_createtemp env_up = Inr (''/tmp'', ''cups-print-1'')" "en_soffice env_up = (\<lambda>_. (None, Some [0x25]))"
  "en_dial env_down = (\<lambda>_. Some (PlainError ''connection refused''))" "en_done env_down = None"
  by (simp_all add: env_up_def env_down_def)

lemma lpr_send_up: "fst (lpr_send_file env_up what cmd file w) = None"
  by (simp add: lpr_send_file_def bw_write_def bw_flush_def lprReadAck_def)

theorem lpr_send_delivers_witness:
  "lpr_receive (snd (lpr_session env_up ''lp'' [7, 0, 7])) =
     Some [(2, ''dfA001localhost'', [7, 0, 7]), (3, ''cfA001localhost'', bytes_of (lpr_ctrl ''lp''))]"
proof -
  have "LprAdapter_Send ''lp'' env_up ''10.0.0.9'' 0 (Inr [7, 0, 7]) params = None" for params
    using lpr_send_up
    by (auto simp: LprAdapter_Send_def lpr_session_def lprSendDataFile_def lprSendControlFile_def Let_def
        split: prod.splits option.splits) (metis fst_conv option.distinct(1))+
  from lpr_send_delivers [OF this] show ?thesis by blast
qed

theorem ipp_request_roundtrip_witness:
  "\<exists>copies. ipp_read (buildIPPRequest [1, 2] \<lparr>pp_Copies = 3, pp_Orientation = [], pp_Extra = Map.empty\<rparr>) =
      Some (6, [(0x47, ''attributes-charset'', bytes_of ''utf-8''),
                (0x48, ''attributes-natural-language'', bytes_of ''en''),
                (0x02, ''copies'', copies), (0x22, ''last-document'', [1])], [1, 2]) \<and>
    int (be_val copies) = 3"
  using ipp_request_roundtrip [of "[1, 2]" "\<lparr>pp_Copies = 3, pp_Orientation = [], pp_Extra = Map.empty\<rparr>"]
  by auto

theorem adapter_send_errors_witness:
  "(let e = Wrap ErrProtocolSendFail ''raw dial'' (PlainError ''connection refused'')
    in AdapterFor ''RAW'' = Some RawAdapter \<and>
       RawAdapter_Send env_down ''10.0.0.9'' 0 (Inr [1]) (t_Params zero_PrintTask) = Some e \<and> IsRetryable e)"
proof -
  have a: "AdapterFor ''RAW'' = Some RawAdapter" by (simp add: AdapterFor_def go_consts)
  have s: "RawAdapter_Send env_down ''10.0.0.9'' 0 (Inr [1]) (t_Params zero_PrintTask) =
      Some (Wrap ErrProtocolSendFail ''raw dial'' (PlainError ''connection refused''))"
    by (simp add: RawAdapter_Send_def)
  show ?thesis
    using adapter_send_errors [of "''RAW''" RawAdapter env_down "''10.0.0.9''" 0 "Inr [1]"
        "t_Params zero_PrintTask" "Wrap ErrProtocolSendFail ''raw dial'' (PlainError ''connection refused'')"] a s
    by simp
qed

theorem probe_protocol_outcome_witness:
  "fst (ProbeProtocol (\<lambda>port. if port = 9100 then env_down else env_up) ''10.0.0.9'') = ProtocolLPR \<and>
   AdapterFor ProtocolLPR \<noteq> None"
proof -
  have p: "ProbeProtocol (\<lambda>port. if port = 9100 then env_down else env_up) ''10.0.0.9'' =
      (ProtocolLPR, DeviceStatusOnline, None)"
    by (simp add: ProbeProtocol_def probeOrder_def probePort_def)
  have "DeviceStatusOnline \<noteq> DeviceStatusProbeFailed" by (simp add: go_consts)
  with probe_protocol_outcome [OF p] p show ?thesis by simp
qed

theorem cups_cleans_up_witness:
  "snd (cups_run env_up ''ps01'' (Inr [0x50, 0x4B, 0x03, 0x04]) (t_Params zero_PrintTask) Map.empty) = Map.empty"
  using cups_cleans_up [of env_up "''/tmp''" "''cups-print-1''" Map.empty "''ps01''" "Inr [0x50, 0x4B, 0x03, 0x04]"
      "t_Params zero_PrintTask"]
  by (cases "cups_run env_up ''ps01'' (Inr [0x50, 0x4B, 0x03, 0x04]) (t_Params zero_PrintTask) Map.empty") simp

end
