(* ===== verification/DeviceMgr.thy ===== *)
theory DeviceMgr
  imports Interfaces Protocol NetAddr "HOL-Library.AList"
begin

text \<open>
  \<^verbatim>\<open>src/internal/device\<close>: the registry of devices (\<open>manager.go\<close>), the periodic health check
  (\<open>health.go\<close>), the protocol probe of a registered device (\<open>probe_scheduler.go\<close>) and the debouncer of
  status reports (\<open>debounce.go\<close>). A Go map is an association list, whose order stands for the order in
  which a \<open>range\<close> over the map visits it.
\<close>

section \<open>The manager\<close>

record Manager =
  m_devices :: "(string \<times> Device) list"

definition NewManager :: Manager where
  "NewManager = \<lparr>m_devices = []\<rparr>"

text \<open>The pattern \<^verbatim>\<open>^[A-Za-z0-9\-]{3,64}$\<close>.\<close>

definition id_char :: "char \<Rightarrow> bool" where
  "id_char c \<longleftrightarrow> (let n = of_char c :: nat in
     65 \<le> n \<and> n \<le> 90 \<or> 97 \<le> n \<and> n \<le> 122 \<or> 48 \<le> n \<and> n \<le> 57 \<or> n = 45)"

definition deviceIDPattern :: "string \<Rightarrow> bool" where
  "deviceIDPattern s \<longleftrightarrow> 3 \<le> length s \<and> length s \<le> 64 \<and> list_all id_char s"

definition Manager_validate :: "Device option \<Rightarrow> goerror option" where
  "Manager_validate dv =
     (case dv of
        None \<Rightarrow> Some (New ErrDeviceFieldInvalid ''device is nil'')
      | Some dev \<Rightarrow>
        if \<not> deviceIDPattern (d_DeviceID dev) then
          Some (New ErrDeviceFieldInvalid
            (''device_id must be 3-32 chars of uppercase letters and digits, got '' @ go_quote (d_DeviceID dev)))
        else if length (d_Name dev) < 1 \<or> 64 < length (d_Name dev) then
          Some (New ErrDeviceFieldInvalid (''name length must be 1-64, got '' @ itoa (int (length (d_Name dev)))))
        else if d_Protocol dev \<noteq> ProtocolCUPS \<and> Option.bind (ParseIP (d_IP dev)) To4 = None then
          Some (New ErrDeviceFieldInvalid (''ip must be valid IPv4, got '' @ go_quote (d_IP dev)))
        else if length (d_Model dev) < 1 \<or> 64 < length (d_Model dev) then
          Some (New ErrDeviceFieldInvalid (''model length must be 1-64, got '' @ itoa (int (length (d_Model dev)))))
        else if length (d_Factory dev) < 1 \<or> 64 < length (d_Factory dev) then
          Some (New ErrDeviceFieldInvalid (''factory length must be 1-64, got '' @ itoa (int (length (d_Factory dev)))))
        else None)"

text \<open>The entry \<open>Add\<close> stores.\<close>

definition add_clone :: "gotime \<Rightarrow> Device \<Rightarrow> Device" where
  "add_clone now dev =
     (let c1 = (if IsZero (d_CreatedAt dev) then dev\<lparr>d_CreatedAt := now\<rparr> else dev);
          c2 = c1\<lparr>d_UpdatedAt := now\<rparr>
      in if d_Status c2 = [] then c2\<lparr>d_Status := DeviceStatusOffline\<rparr> else c2)"

definition Manager_Add :: "gotime \<Rightarrow> Manager \<Rightarrow> Device \<Rightarrow> goerror option \<times> Manager" where
  "Manager_Add now m dev =
     (case Manager_validate (Some dev) of
        Some err \<Rightarrow> (Some err, m)
      | None \<Rightarrow>
        if map_of (m_devices m) (d_DeviceID dev) \<noteq> None then
          (Some (New ErrDeviceIDConflict (''device_id '' @ d_DeviceID dev @ '' already exists'')), m)
        else (None, m\<lparr>m_devices := AList.update (d_DeviceID dev) (add_clone now dev) (m_devices m)\<rparr>))"

definition Manager_Update :: "gotime \<Rightarrow> Manager \<Rightarrow> Device \<Rightarrow> goerror option \<times> Manager" where
  "Manager_Update now m dev =
     (case Manager_validate (Some dev) of
        Some err \<Rightarrow> (Some err, m)
      | None \<Rightarrow>
        (case map_of (m_devices m) (d_DeviceID dev) of
           None \<Rightarrow> (Some (New ErrDeviceNotFound (''device_id '' @ d_DeviceID dev @ '' not found'')), m)
         | Some existing \<Rightarrow>
             (None, m\<lparr>m_devices := AList.update (d_DeviceID dev)
                        (dev\<lparr>d_CreatedAt := d_CreatedAt existing, d_UpdatedAt := now\<rparr>) (m_devices m)\<rparr>)))"

definition Manager_Remove :: "Manager \<Rightarrow> string \<Rightarrow> goerror option \<times> Manager" where
  "Manager_Remove m deviceID =
     (if map_of (m_devices m) deviceID = None then
        (Some (New ErrDeviceNotFound (''device_id '' @ deviceID @ '' not found'')), m)
      else (None, m\<lparr>m_devices := AList.delete deviceID (m_devices m)\<rparr>))"

definition Manager_Get :: "Manager \<Rightarrow> string \<Rightarrow> Device option" where
  "Manager_Get m deviceID = map_of (m_devices m) deviceID"

definition Manager_List :: "Manager \<Rightarrow> Device list" where
  "Manager_List m = map snd (m_devices m)"

definition Manager_Count :: "Manager \<Rightarrow> int" where
  "Manager_Count m = int (length (m_devices m))"

definition Manager_applyProbeResult ::
  "gotime \<Rightarrow> Manager \<Rightarrow> string \<Rightarrow> Protocol \<Rightarrow> DeviceStatus \<Rightarrow> Manager" where
  "Manager_applyProbeResult now m deviceID protocol status =
     (case map_of (m_devices m) deviceID of
        None \<Rightarrow> m
      | Some dev \<Rightarrow>
          m\<lparr>m_devices := AList.update deviceID
              (dev\<lparr>d_Protocol := protocol, d_Status := status, d_LastProbeAt := now, d_UpdatedAt := now\<rparr>)
              (m_devices m)\<rparr>)"

section \<open>The health check\<close>

text \<open>A callback is known by its position; firing yields the calls made.\<close>

record HealthChecker =
  hc_manager :: Manager
  hc_callbacks :: "nat list"

type_synonym status_call = "nat \<times> string \<times> DeviceStatus \<times> DeviceStatus"

definition HealthChecker_OnStatusChange :: "HealthChecker \<Rightarrow> nat \<Rightarrow> HealthChecker" where
  "HealthChecker_OnStatusChange h callback = h\<lparr>hc_callbacks := hc_callbacks h @ [callback]\<rparr>"

definition HealthChecker_fireStatusChange ::
  "HealthChecker \<Rightarrow> string \<Rightarrow> DeviceStatus \<Rightarrow> DeviceStatus \<Rightarrow> status_call list" where
  "HealthChecker_fireStatusChange h deviceID oldStatus newStatus =
     (if oldStatus = newStatus then []
      else map (\<lambda>cb. (cb, deviceID, oldStatus, newStatus)) (hc_callbacks h))"

definition health_addr :: "Device \<Rightarrow> string" where
  "health_addr dev =
     (let port = (if DefaultPort dev \<le> 0 then 9100 else DefaultPort dev) in host_port (d_IP dev) port)"

definition HealthChecker_checkDevice ::
  "(string \<Rightarrow> goerror option) \<Rightarrow> gotime \<Rightarrow> HealthChecker \<Rightarrow> Device \<Rightarrow> status_call list \<times> HealthChecker" where
  "HealthChecker_checkDevice dial now h dev =
     (let newStatus = (if dial (health_addr dev) = None then DeviceStatusOnline else DeviceStatusOffline);
          m = hc_manager h
      in case map_of (m_devices m) (d_DeviceID dev) of
           None \<Rightarrow> ([], h)
         | Some existing \<Rightarrow>
             if d_Status existing = newStatus then ([], h)
             else
               let m' = m\<lparr>m_devices := AList.update (d_DeviceID dev)
                           (existing\<lparr>d_Status := newStatus, d_UpdatedAt := now\<rparr>) (m_devices m)\<rparr>
               in (HealthChecker_fireStatusChange h (d_DeviceID dev) (d_Status existing) newStatus,
                   h\<lparr>hc_manager := m'\<rparr>))"

text \<open>
  One tick of \<open>StartHealthCheck\<close>: the devices listed at its start are checked one by one, until the
  context is found finished (\<open>alive\<close> tells for each device whether it is not).
\<close>

fun health_tick ::
  "(string \<Rightarrow> goerror option) \<Rightarrow> gotime \<Rightarrow> bool list \<Rightarrow> Device list \<Rightarrow> HealthChecker \<Rightarrow>
     status_call list \<times> HealthChecker" where
  "health_tick dial now alive [] h = ([], h)"
| "health_tick dial now alive (dev # devs) h =
     (if alive = [] \<or> \<not> hd alive then ([], h)
      else let (calls, h1) = HealthChecker_checkDevice dial now h dev;
               (calls', h2) = health_tick dial now (tl alive) devs h1
           in (calls @ calls', h2))"

section \<open>Probing a registered device\<close>

definition ProbeScheduler_ProbeAndUpdate ::
  "(int \<Rightarrow> env) \<Rightarrow> gotime \<Rightarrow> Manager \<Rightarrow> string \<Rightarrow> goerror option \<times> Manager" where
  "ProbeScheduler_ProbeAndUpdate envs now m deviceID =
     (case Manager_Get m deviceID of
        None \<Rightarrow> (Some (New ErrDeviceNotFound (''device_id '' @ deviceID @ '' not found'')), m)
      | Some dev \<Rightarrow>
          (case ProbeProtocol envs (d_IP dev) of
             (proto, status, Some err) \<Rightarrow>
               (Some (Wrap ErrProtocolProbeFail ''probe protocol'' err),
                Manager_applyProbeResult now m deviceID ProtocolUnknown DeviceStatusProbeFailed)
           | (proto, status, None) \<Rightarrow> (None, Manager_applyProbeResult now m deviceID proto status)))"

fun probe_all :: "(string \<Rightarrow> int \<Rightarrow> env) \<Rightarrow> gotime \<Rightarrow> bool list \<Rightarrow> Device list \<Rightarrow> Manager \<Rightarrow> Manager" where
  "probe_all envs now alive [] m = m"
| "probe_all envs now alive (dev # devs) m =
     (if alive = [] \<or> \<not> hd alive then m
      else probe_all envs now (tl alive) devs
             (snd (ProbeScheduler_ProbeAndUpdate (envs (d_DeviceID dev)) now m (d_DeviceID dev))))"

definition ProbeScheduler_ProbeAll :: "(string \<Rightarrow> int \<Rightarrow> env) \<Rightarrow> gotime \<Rightarrow> bool list \<Rightarrow> Manager \<Rightarrow> Manager" where
  "ProbeScheduler_ProbeAll envs now alive m = probe_all envs now alive (Manager_List m) m"

section \<open>The debouncer\<close>

definition debounceWindow :: duration where "debounceWindow = 30 * Second"

record pendingChange =
  pc_deviceID :: string
  pc_status :: DeviceStatus
  pc_firstSeen :: gotime

record Debouncer =
  db_pending :: "(string \<times> pendingChange) list"
  db_reporter :: bool

definition NewDebouncer :: "bool \<Rightarrow> Debouncer" where
  "NewDebouncer reporter = \<lparr>db_pending = [], db_reporter = reporter\<rparr>"

text \<open>
  \<open>ApplyChange\<close> starts a timer when it creates an entry; the timer is due \<open>debounceWindow\<close> after
  \<open>firstSeen\<close> and runs \<open>flush\<close>, which yields the report made.
\<close>

definition Debouncer_ApplyChange :: "gotime \<Rightarrow> Debouncer \<Rightarrow> string \<Rightarrow> DeviceStatus \<Rightarrow> Debouncer" where
  "Debouncer_ApplyChange now d deviceID newStatus =
     (case map_of (db_pending d) deviceID of
        Some existing \<Rightarrow>
          d\<lparr>db_pending := AList.update deviceID (existing\<lparr>pc_status := newStatus\<rparr>) (db_pending d)\<rparr>
      | None \<Rightarrow>
          d\<lparr>db_pending := AList.update deviceID
              \<lparr>pc_deviceID = deviceID, pc_status = newStatus, pc_firstSeen = now\<rparr> (db_pending d)\<rparr>)"

definition Debouncer_flush :: "Debouncer \<Rightarrow> string \<Rightarrow> (string \<times> DeviceStatus) list \<times> Debouncer" where
  "Debouncer_flush d deviceID =
     (case map_of (db_pending d) deviceID of
        None \<Rightarrow> ([], d)
      | Some pc \<Rightarrow>
          ((if db_reporter d then [(pc_deviceID pc, pc_status pc)] else []),
           d\<lparr>db_pending := AList.delete deviceID (db_pending d)\<rparr>))"

text \<open>What the goroutine of \<open>Start\<close> does when the context ends.\<close>

definition Debouncer_drain :: "Debouncer \<Rightarrow> (string \<times> DeviceStatus) list \<times> Debouncer" where
  "Debouncer_drain d =
     ((if db_reporter d then map (\<lambda>(_, pc). (pc_deviceID pc, pc_status pc)) (db_pending d) else []),
      d\<lparr>db_pending := []\<rparr>)"

section \<open>The manager implements the interfaces\<close>

text \<open>Every entry is a valid device under its own id, and there is one entry per id.\<close>

definition valid_device :: "Device \<Rightarrow> bool" where
  "valid_device d \<longleftrightarrow> Manager_validate (Some d) = None"

definition mgr_inv :: "Manager \<Rightarrow> bool" where
  "mgr_inv m \<longleftrightarrow> distinct (map fst (m_devices m)) \<and>
     (\<forall>(k, d) \<in> set (m_devices m). d_DeviceID d = k \<and> valid_device d)"

lemma valid_device_frame [simp]:
  "valid_device (d\<lparr>d_Status := st\<rparr>) = valid_device d"
  "valid_device (d\<lparr>d_CreatedAt := t\<rparr>) = valid_device d"
  "valid_device (d\<lparr>d_UpdatedAt := t\<rparr>) = valid_device d"
  "valid_device (d\<lparr>d_LastProbeAt := t\<rparr>) = valid_device d"
  by (simp_all add: valid_device_def Manager_validate_def)

lemma add_clone_frame [simp]:
  "valid_device (add_clone now d) = valid_device d" "d_DeviceID (add_clone now d) = d_DeviceID d"
  by (simp_all add: add_clone_def Let_def)

lemma update_mem: "(k, v) \<in> set (AList.update i x xs) \<Longrightarrow> (k, v) = (i, x) \<or> (k, v) \<in> set xs"
  by (induction xs) (auto split: if_splits)

lemma mgr_inv_put:
  assumes "mgr_inv m" "valid_device x" "d_DeviceID x = i"
  shows "mgr_inv (m\<lparr>m_devices := AList.update i x (m_devices m)\<rparr>)"
  using assms by (auto simp: mgr_inv_def distinct_update dest!: update_mem)

lemma mgr_inv_delete: "mgr_inv m \<Longrightarrow> mgr_inv (m\<lparr>m_devices := AList.delete i (m_devices m)\<rparr>)"
  by (auto simp: mgr_inv_def AList.delete_eq distinct_map_filter)

lemma mgr_inv_get:
  assumes "mgr_inv m" "map_of (m_devices m) i = Some d"
  shows "d_DeviceID d = i" "valid_device d"
  using assms(1) map_of_SomeD [OF assms(2)] by (auto simp: mgr_inv_def)

lemma Add_inv: "mgr_inv m \<Longrightarrow> mgr_inv (snd (Manager_Add now m d))"
  by (auto simp: Manager_Add_def valid_device_def [symmetric] intro!: mgr_inv_put split: option.splits)

lemma Update_inv: "mgr_inv m \<Longrightarrow> mgr_inv (snd (Manager_Update now m d))"
  by (auto simp: Manager_Update_def intro!: mgr_inv_put split: option.splits)
    (simp add: valid_device_def)

lemma Remove_inv: "mgr_inv m \<Longrightarrow> mgr_inv (snd (Manager_Remove m i))"
  by (auto simp: Manager_Remove_def intro!: mgr_inv_delete)

lemma checkDevice_inv:
  assumes "mgr_inv (hc_manager h)"
  shows "mgr_inv (hc_manager (snd (HealthChecker_checkDevice dial now h dev)))"
proof (cases "map_of (m_devices (hc_manager h)) (d_DeviceID dev)")
  case None
  with assms show ?thesis by (simp add: HealthChecker_checkDevice_def Let_def)
next
  case (Some x)
  with mgr_inv_get [OF assms Some] assms show ?thesis
    by (auto simp: HealthChecker_checkDevice_def Let_def intro!: mgr_inv_put)
qed

interpretation devmgr: device_mutator "Manager_Add now" "Manager_Update now" Manager_Remove Manager_Get mgr_inv
  for now
proof
  fix m d i e m'
  show "mgr_inv m \<Longrightarrow> mgr_inv (snd (Manager_Add now m d))" by (rule Add_inv)
  show "mgr_inv m \<Longrightarrow> mgr_inv (snd (Manager_Update now m d))" by (rule Update_inv)
  show "mgr_inv m \<Longrightarrow> mgr_inv (snd (Manager_Remove m i))" by (rule Remove_inv)
  show "Manager_Add now m d = (Some e, m') \<Longrightarrow> m' = m"
    by (auto simp: Manager_Add_def split: option.splits if_splits)
  show "Manager_Update now m d = (Some e, m') \<Longrightarrow> m' = m"
    by (auto simp: Manager_Update_def split: option.splits)
  show "Manager_Remove m i = (Some e, m') \<Longrightarrow> m' = m"
    by (auto simp: Manager_Remove_def split: if_splits)
  show "Manager_Add now m d = (None, m') \<Longrightarrow> Manager_Get m (d_DeviceID d) = None \<and>
      (\<exists>x. d_DeviceID x = d_DeviceID d \<and> Manager_Get m' = (Manager_Get m)(d_DeviceID d \<mapsto> x))"
    by (auto simp: Manager_Add_def Manager_Get_def [abs_def] update_conv' split: option.splits if_splits
        intro!: exI [of _ "add_clone now d"])
  show "Manager_Update now m d = (None, m') \<Longrightarrow> Manager_Get m (d_DeviceID d) \<noteq> None \<and>
      (\<exists>x. d_DeviceID x = d_DeviceID d \<and> Manager_Get m' = (Manager_Get m)(d_DeviceID d \<mapsto> x))"
    by (cases "map_of (m_devices m) (d_DeviceID d)")
      (auto simp: Manager_Update_def Manager_Get_def [abs_def] update_conv' split: option.splits
        intro!: exI [of _ "d\<lparr>d_CreatedAt := _, d_UpdatedAt := now\<rparr>"])
  show "Manager_Remove m i = (None, m') \<Longrightarrow> Manager_Get m i \<noteq> None \<and> Manager_Get m' = (Manager_Get m)(i := None)"
    by (auto simp: Manager_Remove_def Manager_Get_def [abs_def] delete_conv' split: if_splits)
qed

interpretation devlist: device_lister Manager_List Manager_Get mgr_inv
proof
  fix m d
  assume inv: "mgr_inv m"
  have "map d_DeviceID (Manager_List m) = map fst (m_devices m)"
    using inv by (auto simp: mgr_inv_def Manager_List_def)
  then show "distinct (map d_DeviceID (Manager_List m))"
    using inv by (simp only: mgr_inv_def)
  show "d \<in> set (Manager_List m) \<longleftrightarrow> Manager_Get m (d_DeviceID d) = Some d"
  proof
    assume "d \<in> set (Manager_List m)"
    then obtain k where "(k, d) \<in> set (m_devices m)" by (auto simp: Manager_List_def)
    moreover from this inv have "d_DeviceID d = k" by (auto simp: mgr_inv_def)
    ultimately show "Manager_Get m (d_DeviceID d) = Some d"
      using inv by (simp add: Manager_Get_def mgr_inv_def)
  next
    assume "Manager_Get m (d_DeviceID d) = Some d"
    then show "d \<in> set (Manager_List m)"
      by (auto simp: Manager_Get_def Manager_List_def image_iff dest!: map_of_SomeD intro!: bexI)
  qed
qed

section \<open>Properties of the manager\<close>

lemma distinct_mapI: "distinct (map f xs) \<Longrightarrow> distinct xs"
  by (simp add: distinct_map)

datatype devop =
    OpAdd gotime Device
  | OpUpdate gotime Device
  | OpRemove string
  | OpHealth gotime "string \<Rightarrow> goerror option" Device

fun devstep :: "Manager \<Rightarrow> devop \<Rightarrow> Manager" where
  "devstep m (OpAdd now d) = snd (Manager_Add now m d)"
| "devstep m (OpUpdate now d) = snd (Manager_Update now m d)"
| "devstep m (OpRemove i) = snd (Manager_Remove m i)"
| "devstep m (OpHealth now dial d) =
     hc_manager (snd (HealthChecker_checkDevice dial now \<lparr>hc_manager = m, hc_callbacks = []\<rparr> d))"

lemma devstep_inv: "mgr_inv m \<Longrightarrow> mgr_inv (devstep m x)"
  using checkDevice_inv [of "\<lparr>hc_manager = m, hc_callbacks = []\<rparr>"]
  by (cases x) (simp_all add: devmgr.add_inv devmgr.update_inv devmgr.remove_inv)

lemma devrun_inv: "mgr_inv m \<Longrightarrow> mgr_inv (foldl devstep m ops)"
  by (induction ops arbitrary: m) (simp_all add: devstep_inv)

text \<open>
  (C27) The registry's invariant. Whatever sequence of additions, updates, removals and health checks
  a new manager goes through, it lists each device once, under its own id; every listed device passes
  the validation; \<open>Get\<close> finds exactly the listed devices and \<open>Count\<close> counts them.
\<close>

theorem registry_invariant:
  "(let m = foldl devstep NewManager ops
    in distinct (map d_DeviceID (Manager_List m)) \<and>
       (\<forall>d. (d \<in> set (Manager_List m)) = (Manager_Get m (d_DeviceID d) = Some d)) \<and>
       list_all (\<lambda>d. Manager_validate (Some d) = None) (Manager_List m) \<and>
       Manager_Count m = int (card (set (Manager_List m))))"
proof -
  define m where "m = foldl devstep NewManager ops"
  have inv: "mgr_inv m"
    unfolding m_def by (rule devrun_inv) (simp add: mgr_inv_def NewManager_def)
  have ids: "distinct (map d_DeviceID (Manager_List m))" by (rule devlist.list_ids [OF inv])
  have "list_all (\<lambda>d. Manager_validate (Some d) = None) (Manager_List m)"
    using inv by (auto simp: mgr_inv_def Manager_List_def list_all_iff valid_device_def)
  moreover have "distinct (Manager_List m)" using ids by (rule distinct_mapI)
  then have "Manager_Count m = int (card (set (Manager_List m)))"
    using distinct_card [of "Manager_List m"] by (simp add: Manager_Count_def) (simp add: Manager_List_def)
  ultimately show ?thesis
    using ids devlist.list_mem [OF inv] unfolding m_def [symmetric] Let_def by blast
qed

lemma length_1_64: "length (xs :: string) \<in> {1..64} \<longleftrightarrow> \<not> (length xs < 1 \<or> 64 < length xs)"
  by (simp only: atLeastAtMost_iff) linarith

lemma validate_None_iff:
  "Manager_validate (Some dev) = None \<longleftrightarrow>
     deviceIDPattern (d_DeviceID dev) \<and> length (d_Name dev) \<in> {1..64} \<and>
     (d_Protocol dev = ProtocolCUPS \<or> Option.bind (ParseIP (d_IP dev)) To4 \<noteq> None) \<and>
     length (d_Model dev) \<in> {1..64} \<and> length (d_Factory dev) \<in> {1..64}"
  unfolding length_1_64 Manager_validate_def option.case by simp

text \<open>
  What the validation accepts: an id of 3 to 64 letters, digits and hyphens, a name, model and
  factory of 1 to 64 bytes, and, unless the device is a CUPS queue, an address which, when it has no
  colon, is a canonical dotted quad. (An IPv4-mapped IPv6 address also passes; the error text speaks of
  3 to 32 capital letters and digits.)
\<close>

theorem device_validation_exact:
  assumes "CHR '':'' \<notin> set (d_IP dev)"
  shows "Manager_validate (Some dev) = None \<longleftrightarrow>
    3 \<le> length (d_DeviceID dev) \<and> length (d_DeviceID dev) \<le> 64 \<and> list_all id_char (d_DeviceID dev) \<and>
    length (d_Name dev) \<in> {1..64} \<and> length (d_Model dev) \<in> {1..64} \<and> length (d_Factory dev) \<in> {1..64} \<and>
    (d_Protocol dev = ProtocolCUPS \<or> dotted_quad (d_IP dev))"
proof -
  have "Option.bind (ParseIP (d_IP dev)) To4 \<noteq> None \<longleftrightarrow> dotted_quad (d_IP dev)"
  proof (cases "ParseIP (d_IP dev)")
    case None
    then show ?thesis using ParseIP_dotted by (force simp: dotted_quad_def)
  next
    case (Some ip)
    from ParseIP_no_colon [OF assms Some] show ?thesis by (auto simp: Some dotted_quad_def)
  qed
  then show ?thesis unfolding validate_None_iff deviceIDPattern_def by blast
qed

text \<open>
  The outcome of \<open>Add\<close>, \<open>Update\<close> and \<open>Remove\<close> on a registry: the error code of each refusal, which
  leaves the registry as it was; and on acceptance the one entry that changes. \<open>Update\<close> keeps the
  creation time.
\<close>

theorem registry_outcomes:
  "(case Manager_Add now m d of
      (Some e, m') \<Rightarrow> m' = m \<and> CodeFromErr e =
        Some (if Manager_validate (Some d) = None then ErrDeviceIDConflict else ErrDeviceFieldInvalid)
    | (None, m') \<Rightarrow> Manager_Get m (d_DeviceID d) = None \<and>
        Manager_Get m' = (Manager_Get m)(d_DeviceID d \<mapsto> add_clone now d)) \<and>
   (case Manager_Update now m d of
      (Some e, m') \<Rightarrow> m' = m \<and> CodeFromErr e =
        Some (if Manager_validate (Some d) = None then ErrDeviceNotFound else ErrDeviceFieldInvalid)
    | (None, m') \<Rightarrow> (\<exists>old. Manager_Get m (d_DeviceID d) = Some old \<and> Manager_Get m' =
        (Manager_Get m)(d_DeviceID d \<mapsto> d\<lparr>d_CreatedAt := d_CreatedAt old, d_UpdatedAt := now\<rparr>))) \<and>
   (case Manager_Remove m i of
      (Some e, m') \<Rightarrow> m' = m \<and> CodeFromErr e = Some ErrDeviceNotFound \<and> Manager_Get m i = None
    | (None, m') \<Rightarrow> Manager_Get m i \<noteq> None \<and> Manager_Get m' = (Manager_Get m)(i := None))"
proof -
  have v: "Manager_validate (Some d) = Some e \<Longrightarrow> CodeFromErr e = Some ErrDeviceFieldInvalid" for e
    by (auto simp: Manager_validate_def split: if_splits)
  have "case Manager_Add now m d of
      (Some e, m') \<Rightarrow> m' = m \<and> CodeFromErr e =
        Some (if Manager_validate (Some d) = None then ErrDeviceIDConflict else ErrDeviceFieldInvalid)
    | (None, m') \<Rightarrow> Manager_Get m (d_DeviceID d) = None \<and>
        Manager_Get m' = (Manager_Get m)(d_DeviceID d \<mapsto> add_clone now d)"
    by (auto simp: Manager_Add_def Manager_Get_def [abs_def] update_conv' v split: option.splits)
  moreover have "case Manager_Update now m d of
      (Some e, m') \<Rightarrow> m' = m \<and> CodeFromErr e =
        Some (if Manager_validate (Some d) = None then ErrDeviceNotFound else ErrDeviceFieldInvalid)
    | (None, m') \<Rightarrow> (\<exists>old. Manager_Get m (d_DeviceID d) = Some old \<and> Manager_Get m' =
        (Manager_Get m)(d_DeviceID d \<mapsto> d\<lparr>d_CreatedAt := d_CreatedAt old, d_UpdatedAt := now\<rparr>))"
    by (auto simp: Manager_Update_def Manager_Get_def [abs_def] update_conv' v split: option.splits)
  moreover have "case Manager_Remove m i of
      (Some e, m') \<Rightarrow> m' = m \<and> CodeFromErr e = Some ErrDeviceNotFound \<and> Manager_Get m i = None
    | (None, m') \<Rightarrow> Manager_Get m i \<noteq> None \<and> Manager_Get m' = (Manager_Get m)(i := None)"
    by (auto simp: Manager_Remove_def Manager_Get_def [abs_def] delete_conv')
  ultimately show ?thesis by (intro conjI)
qed

section \<open>Properties of the health check\<close>

text \<open>
  A health check of a registered device sets its status to online or offline as the connection
  attempt says, and nothing else of any device but the update time of this one. Every callback is
  called, once and in the order of registration, exactly when the status changed, with the old and the
  new status; a device that is no longer registered is left alone.
\<close>

theorem health_check_outcome:
  "(let (calls, h') = HealthChecker_checkDevice dial now h dev;
        st = (if dial (health_addr dev) = None then DeviceStatusOnline else DeviceStatusOffline);
        i = d_DeviceID dev
    in hc_callbacks h' = hc_callbacks h \<and>
       (case Manager_Get (hc_manager h) i of
          None \<Rightarrow> calls = [] \<and> h' = h
        | Some old \<Rightarrow>
            if d_Status old = st then calls = [] \<and> h' = h
            else calls = map (\<lambda>cb. (cb, i, d_Status old, st)) (hc_callbacks h) \<and>
                 Manager_Get (hc_manager h') =
                   (Manager_Get (hc_manager h))(i \<mapsto> old\<lparr>d_Status := st, d_UpdatedAt := now\<rparr>)))"
  by (cases "map_of (m_devices (hc_manager h)) (d_DeviceID dev)")
    (auto simp: HealthChecker_checkDevice_def HealthChecker_fireStatusChange_def Manager_Get_def [abs_def]
      update_conv' Let_def)

section \<open>Properties of the debouncer\<close>

datatype dbevent = DApply gotime string DeviceStatus | DFlush string | DDrain

fun dbstep :: "Debouncer \<Rightarrow> dbevent \<Rightarrow> (string \<times> DeviceStatus) list \<times> Debouncer" where
  "dbstep d (DApply now i st) = ([], Debouncer_ApplyChange now d i st)"
| "dbstep d (DFlush i) = Debouncer_flush d i"
| "dbstep d DDrain = Debouncer_drain d"

fun dbrun :: "Debouncer \<Rightarrow> dbevent list \<Rightarrow> (string \<times> DeviceStatus) list \<times> Debouncer" where
  "dbrun d [] = ([], d)"
| "dbrun d (x # xs) = (let (r, d1) = dbstep d x; (rs, d2) = dbrun d1 xs in (r @ rs, d2))"

text \<open>The last element of a list that satisfies a predicate.\<close>

definition last_of :: "'a option \<Rightarrow> 'a list \<Rightarrow> 'a option" where
  "last_of dflt xs = (if xs = [] then dflt else Some (last xs))"

fun applied1 :: "string \<Rightarrow> dbevent \<Rightarrow> DeviceStatus list" where
  "applied1 i (DApply now j st) = (if j = i then [st] else [])"
| "applied1 i _ = []"

definition applied :: "string \<Rightarrow> dbevent list \<Rightarrow> DeviceStatus list" where
  "applied i xs = concat (map (applied1 i) xs)"

definition reports :: "string \<Rightarrow> (string \<times> DeviceStatus) list \<Rightarrow> DeviceStatus list" where
  "reports i rs = map snd (filter (\<lambda>(j, _). j = i) rs)"

definition db_inv :: "Debouncer \<Rightarrow> bool" where
  "db_inv d \<longleftrightarrow> db_reporter d \<and> distinct (map fst (db_pending d)) \<and>
     (\<forall>(k, pc) \<in> set (db_pending d). pc_deviceID pc = k)"

definition db_status :: "Debouncer \<Rightarrow> string \<Rightarrow> DeviceStatus option" where
  "db_status d i = map_option pc_status (map_of (db_pending d) i)"

text \<open>
  One step: the status that matters afterwards (pending, else last reported) is the one applied
  last, and a report is made only of what was pending.
\<close>

lemma filter_map_of:
  "distinct (map fst xs) \<Longrightarrow> filter (\<lambda>(j, _). j = i) xs = (case map_of xs i of None \<Rightarrow> [] | Some v \<Rightarrow> [(i, v)])"
  by (induction xs) (auto simp: filter_empty_conv split: option.splits dest!: map_of_SomeD intro: rev_image_eqI)

lemma drain_reports:
  assumes "db_inv d"
  shows "reports i (fst (Debouncer_drain d)) = (case db_status d i of None \<Rightarrow> [] | Some st \<Rightarrow> [st])"
proof -
  have "filter (\<lambda>(j, _). j = i) (map (\<lambda>(_, pc). (pc_deviceID pc, pc_status pc)) (db_pending d)) =
      map (\<lambda>(_, pc). (pc_deviceID pc, pc_status pc)) (filter (\<lambda>(j, _). j = i) (db_pending d))"
    using assms by (auto simp: filter_map o_def db_inv_def intro!: arg_cong [where f = "map _"] filter_cong)
  then show ?thesis
    using assms filter_map_of [of "db_pending d" i]
    by (auto simp: reports_def Debouncer_drain_def db_status_def db_inv_def split: option.splits)
qed

lemma dbstep_ok:
  assumes inv: "db_inv d" and s: "dbstep d x = (rs, d')"
  shows "db_inv d' \<and>
    (case db_status d' i of
       Some st \<Rightarrow> last_of (db_status d i) (applied1 i x) = Some st \<and> reports i rs = []
     | None \<Rightarrow> applied1 i x = [] \<and> reports i rs = (case db_status d i of None \<Rightarrow> [] | Some st \<Rightarrow> [st]))"
proof (cases x)
  case (DApply now j st)
  with s have d': "rs = []" "d' = Debouncer_ApplyChange now d j st" by auto
  show ?thesis
  proof (cases "map_of (db_pending d) j")
    case None
    with inv d' DApply show ?thesis
      by (auto simp: Debouncer_ApplyChange_def db_inv_def db_status_def last_of_def reports_def
          distinct_update update_conv' dest!: update_mem split: option.splits)
  next
    case (Some pc)
    with map_of_SomeD [OF Some] inv d' DApply show ?thesis
      by (auto simp: Debouncer_ApplyChange_def db_inv_def db_status_def last_of_def reports_def
          distinct_update update_conv' dest!: update_mem split: option.splits)
  qed
next
  case (DFlush j)
  show ?thesis
  proof (cases "map_of (db_pending d) j")
    case None
    with s inv DFlush show ?thesis
      by (auto simp: Debouncer_flush_def db_status_def last_of_def reports_def split: option.splits)
  next
    case (Some pc)
    have id: "pc_deviceID pc = j" using map_of_SomeD [OF Some] inv by (auto simp: db_inv_def)
    have rs: "rs = [(j, pc_status pc)]" and d': "d' = d\<lparr>db_pending := AList.delete j (db_pending d)\<rparr>"
      using s inv DFlush Some id by (auto simp: Debouncer_flush_def db_inv_def)
    have inv': "db_inv d'"
      using inv by (auto simp: d' db_inv_def AList.delete_eq distinct_map_filter)
    have "db_status d' i = (if i = j then None else db_status d i)"
      by (simp add: d' db_status_def delete_conv')
    moreover have "db_status d j = Some (pc_status pc)" by (simp add: db_status_def Some)
    ultimately show ?thesis using inv' DFlush
      by (cases "i = j") (auto simp: rs reports_def last_of_def split: option.splits)
  qed
next
  case DDrain
  with s have "rs = fst (Debouncer_drain d)" "d' = d\<lparr>db_pending := []\<rparr>"
    by (auto simp: Debouncer_drain_def)
  with drain_reports [OF inv, of i] inv DDrain show ?thesis
    by (simp add: db_inv_def db_status_def)
qed

lemma last_of_append: "last_of dflt (xs @ ys) = last_of (last_of dflt xs) ys"
  by (simp add: last_of_def)

lemma reports_append: "reports i (xs @ ys) = reports i xs @ reports i ys"
  by (simp add: reports_def)

lemma dbrun_ok:
  assumes "db_inv d" "dbrun d xs = (rs, d')"
  shows "db_inv d' \<and>
    (case db_status d' i of
       Some st \<Rightarrow> last_of (db_status d i) (applied i xs) = Some st
     | None \<Rightarrow> last_of r (reports i rs) =
                 last_of (case db_status d i of None \<Rightarrow> r | Some st \<Rightarrow> Some st) (applied i xs))"
  using assms
proof (induction xs arbitrary: d rs r)
  case Nil
  then show ?case by (auto simp: applied_def reports_def last_of_def split: option.splits)
next
  case (Cons x xs)
  obtain r1 d1 where s: "dbstep d x = (r1, d1)" by fastforce
  obtain r2 d2 where u: "dbrun d1 xs = (r2, d2)" by fastforce
  from Cons.prems(2) s u have e: "rs = r1 @ r2" "d' = d2" by auto
  note st = dbstep_ok [OF Cons.prems(1) s, of i]
  note IH = Cons.IH [OF conjunct1 [OF st] u [folded e(2)], of "last_of r (reports i r1)"]
  have ap: "applied i (x # xs) = applied1 i x @ applied i xs" by (simp add: applied_def)
  show ?case
    using IH st
    by (cases "db_status d' i"; cases "db_status d1 i"; cases "db_status d i")
      (auto simp: e(1) ap last_of_append reports_append, auto simp: last_of_def)
qed

lemma reports_count:
  assumes "db_inv d" "dbrun d xs = (rs, d')"
  shows "length (reports i rs) + (if db_status d' i = None then 0 else 1) \<le>
    (if db_status d i = None then 0 else 1) + length (applied i xs)"
  using assms
proof (induction xs arbitrary: d rs)
  case Nil
  then show ?case by (auto simp: reports_def)
next
  case (Cons x xs)
  obtain r1 d1 where s: "dbstep d x = (r1, d1)" by fastforce
  obtain r2 d2 where u: "dbrun d1 xs = (r2, d2)" by fastforce
  from Cons.prems(2) s u have e: "rs = r1 @ r2" "d' = d2" by auto
  note st = dbstep_ok [OF Cons.prems(1) s, of i]
  note IH = Cons.IH [OF conjunct1 [OF st] u [folded e(2)]]
  show ?case
    using IH st
    by (cases "db_status d1 i"; cases "db_status d i"; cases "applied1 i x")
      (auto simp: e(1) applied_def reports_append last_of_def split: if_splits)
qed

text \<open>
  Debouncing keeps the last state. Run any changes, timer flushes and a final drain on a new
  debouncer with a reporter. For every device with a change, the status applied last is the one still
  pending or, if none is pending, the one reported last; there are never more reports than changes.
\<close>

theorem debounce_keeps_last:
  assumes "dbrun (NewDebouncer True) xs = (rs, d')"
  shows "last_of None (applied i xs) =
           (case map_of (db_pending d') i of
              Some pc \<Rightarrow> Some (pc_status pc)
            | None \<Rightarrow> last_of None (reports i rs)) \<and>
         length (reports i rs) \<le> length (applied i xs)"
proof -
  have inv: "db_inv (NewDebouncer True)" by (simp add: db_inv_def NewDebouncer_def)
  have n: "db_status (NewDebouncer True) i = None" by (simp add: db_status_def NewDebouncer_def)
  note ok = dbrun_ok [OF inv assms, where i = i and r = None]
  have "last_of None (applied i xs) =
      (case map_of (db_pending d') i of
         Some pc \<Rightarrow> Some (pc_status pc) | None \<Rightarrow> last_of None (reports i rs))"
  proof (cases "map_of (db_pending d') i")
    case None
    then have "db_status d' i = None" by (simp add: db_status_def)
    with ok n None show ?thesis by (simp add: last_of_def split: if_splits)
  next
    case (Some pc)
    then have "db_status d' i = Some (pc_status pc)" by (simp add: db_status_def)
    with ok n Some show ?thesis by simp
  qed
  moreover have "length (reports i rs) \<le> length (applied i xs)"
    using reports_count [OF inv assms, of i] n by simp
  ultimately show ?thesis ..
qed

section \<open>Witnesses\<close>

definition dev_A :: Device where
  "dev_A = zero_Device\<lparr>d_DeviceID := ''D01'', d_Name := ''front'', d_IP := ''10.0.0.9'', d_Model := ''LQ'',
     d_Protocol := ''RAW'', d_Factory := ''F1''\<rparr>"

lemma dotted_A: "''10.0.0.9'' = dotted 10 0 0 9"
  by (simp add: dotted_def itoa_nat.simps)

theorem device_validation_exact_witness:
  "Manager_validate (Some dev_A) = None \<and> dotted_quad (d_IP dev_A)"
proof -
  have q: "dotted_quad ''10.0.0.9''"
    unfolding dotted_quad_def
    by (rule exI [of _ 10], rule exI [of _ 0], rule exI [of _ 0], rule exI [of _ 9]) (simp add: dotted_A)
  have "CHR '':'' \<notin> set (d_IP dev_A)" by (simp add: dev_A_def)
  from device_validation_exact [OF this] q show ?thesis
    by (simp add: dev_A_def id_char_def)
qed

theorem debounce_keeps_last_witness:
  "(let (rs, d') = dbrun (NewDebouncer True)
          [DApply 1 ''D01'' DeviceStatusOffline, DApply 2 ''D01'' DeviceStatusOnline, DFlush ''D01'']
    in last_of None (reports ''D01'' rs) = Some DeviceStatusOnline)"
proof -
  let ?xs = "[DApply 1 ''D01'' DeviceStatusOffline, DApply 2 ''D01'' DeviceStatusOnline, DFlush ''D01'']"
  obtain rs d' where r: "dbrun (NewDebouncer True) ?xs = (rs, d')" by fastforce
  have "db_pending d' = []"
    using r by (auto simp: NewDebouncer_def Debouncer_ApplyChange_def Debouncer_flush_def)
  with debounce_keeps_last [OF r, of "''D01''"] r show ?thesis
    by (simp add: applied_def last_of_def)
qed

end
