(* ===== verification/Dispatcher.thy ===== *)
theory Dispatcher
  imports Reporter TaskQueue DeviceMgr
begin

text \<open>
  \<^verbatim>\<open>src/internal/cloudlink/dispatcher.go\<close>: the messages from the cloud and what they do. The queue, the
  device manager and the domain updater are reached through their interfaces: a record \<open>dops\<close> of
  operations on the three states. The decoding of a payload is the parameter \<open>decoders\<close>.
\<close>

section \<open>State and interfaces\<close>

record Dispatcher =
  dp_conn :: "nat option"
  dp_running :: bool
  dp_loop :: bool

text \<open>
  \<open>dp_loop\<close> says that the reading goroutine is in its loop, that is, that the channel \<open>done\<close> is not
  closed yet.
\<close>

definition NewDispatcher :: "nat option \<Rightarrow> Dispatcher" where
  "NewDispatcher conn = \<lparr>dp_conn = conn, dp_running = False, dp_loop = False\<rparr>"

definition Dispatcher_UpdateConn :: "Dispatcher \<Rightarrow> nat option \<Rightarrow> Dispatcher" where
  "Dispatcher_UpdateConn d conn = d\<lparr>dp_conn := conn\<rparr>"

definition Dispatcher_Start :: "Dispatcher \<Rightarrow> Dispatcher" where
  "Dispatcher_Start d = (if dp_running d then d else d\<lparr>dp_running := True, dp_loop := True\<rparr>)"

text \<open>\<open>Stop\<close> cancels the context and waits for the goroutine to end.\<close>

definition Dispatcher_Stop :: "Dispatcher \<Rightarrow> Dispatcher" where
  "Dispatcher_Stop d = (if \<not> dp_running d then d else d\<lparr>dp_running := False, dp_loop := False\<rparr>)"

record control =
  ct_Action :: string
  ct_DeviceID :: string
  ct_TaskID :: string

record decoders =
  un_task :: "Payload \<Rightarrow> goerror + PrintTask"
  un_device :: "Payload \<Rightarrow> goerror + Device"
  un_remove :: "Payload \<Rightarrow> goerror + string"
  un_control :: "Payload \<Rightarrow> goerror + control"
  un_config :: "Payload \<Rightarrow> goerror + string"

record ('q, 'm, 's) dops =
  op_Enqueue :: "'q \<Rightarrow> PrintTask \<Rightarrow> goerror option \<times> 'q"
  op_Cancel :: "'q \<Rightarrow> string \<Rightarrow> string \<Rightarrow> goerror option \<times> 'q"
  op_Add :: "'m \<Rightarrow> Device \<Rightarrow> goerror option \<times> 'm"
  op_Update :: "'m \<Rightarrow> Device \<Rightarrow> goerror option \<times> 'm"
  op_Remove :: "'m \<Rightarrow> string \<Rightarrow> goerror option \<times> 'm"
  op_UpdateDomain :: "('s \<Rightarrow> string \<Rightarrow> goerror option \<times> 's) option"
  op_ReportConfigAck :: "'s \<Rightarrow> bool \<Rightarrow> string \<Rightarrow> string \<Rightarrow> 's"

text \<open>The states the handlers work on; \<open>dw_out\<close> collects what they wrote to the connection.\<close>

record ('q, 'm, 's) dworld =
  dw_queue :: 'q
  dw_mgr :: 'm
  dw_sys :: 's
  dw_out :: "Envelope list"

section \<open>The handlers\<close>

definition sendTaskAck ::
  "gotime \<Rightarrow> goerror option \<Rightarrow> string \<Rightarrow> bool \<Rightarrow> string \<Rightarrow> ('q, 'm, 's) dworld \<Rightarrow> ('q, 'm, 's) dworld" where
  "sendTaskAck now wr taskID isAccepted reason w =
     (let ack = \<lparr>ta_TaskID = taskID, ta_Accepted = isAccepted, ta_Reason = reason\<rparr>;
          env = NewEnvelope now ''task_ack'' (PTaskAck ack)
      in case wr of Some err \<Rightarrow> w | None \<Rightarrow> w\<lparr>dw_out := dw_out w @ [env]\<rparr>)"

definition handleTask ::
  "('q, 'm, 's) dops \<Rightarrow> decoders \<Rightarrow> gotime \<Rightarrow> goerror option \<Rightarrow> Envelope \<Rightarrow> ('q, 'm, 's) dworld \<Rightarrow> ('q, 'm, 's) dworld" where
  "handleTask ops un now wr msg w =
     (case un_task un (e_Payload msg) of
        Inl err \<Rightarrow> sendTaskAck now wr [] False ''bad payload'' w
      | Inr task0 \<Rightarrow>
          let task = (if t_TraceID task0 = [] then task0\<lparr>t_TraceID := e_TraceID msg\<rparr> else task0)
          in case op_Enqueue ops (dw_queue w) task of
               (Some err, q) \<Rightarrow> sendTaskAck now wr (t_TaskID task) False (Error err) (w\<lparr>dw_queue := q\<rparr>)
             | (None, q) \<Rightarrow> sendTaskAck now wr (t_TaskID task) True [] (w\<lparr>dw_queue := q\<rparr>))"

definition handleDeviceAdd ::
  "('q, 'm, 's) dops \<Rightarrow> decoders \<Rightarrow> Envelope \<Rightarrow> ('q, 'm, 's) dworld \<Rightarrow> ('q, 'm, 's) dworld" where
  "handleDeviceAdd ops un msg w =
     (case un_device un (e_Payload msg) of
        Inl err \<Rightarrow> w
      | Inr dev \<Rightarrow> w\<lparr>dw_mgr := snd (op_Add ops (dw_mgr w) dev)\<rparr>)"

definition handleDeviceUpdate ::
  "('q, 'm, 's) dops \<Rightarrow> decoders \<Rightarrow> Envelope \<Rightarrow> ('q, 'm, 's) dworld \<Rightarrow> ('q, 'm, 's) dworld" where
  "handleDeviceUpdate ops un msg w =
     (case un_device un (e_Payload msg) of
        Inl err \<Rightarrow> w
      | Inr dev \<Rightarrow> w\<lparr>dw_mgr := snd (op_Update ops (dw_mgr w) dev)\<rparr>)"

definition handleDeviceRemove ::
  "('q, 'm, 's) dops \<Rightarrow> decoders \<Rightarrow> Envelope \<Rightarrow> ('q, 'm, 's) dworld \<Rightarrow> ('q, 'm, 's) dworld" where
  "handleDeviceRemove ops un msg w =
     (case un_remove un (e_Payload msg) of
        Inl err \<Rightarrow> w
      | Inr i \<Rightarrow> w\<lparr>dw_mgr := snd (op_Remove ops (dw_mgr w) i)\<rparr>)"

text \<open>The test page and the queue query are placeholders in the source: they are only logged.\<close>

definition handleControl ::
  "('q, 'm, 's) dops \<Rightarrow> decoders \<Rightarrow> Envelope \<Rightarrow> ('q, 'm, 's) dworld \<Rightarrow> ('q, 'm, 's) dworld" where
  "handleControl ops un msg w =
     (case un_control un (e_Payload msg) of
        Inl err \<Rightarrow> w
      | Inr p \<Rightarrow>
          if ct_Action p = ''cancel'' then
            w\<lparr>dw_queue := snd (op_Cancel ops (dw_queue w) (ct_DeviceID p) (ct_TaskID p))\<rparr>
          else if ct_Action p = ''test_page'' \<or> ct_Action p = ''query_queue'' then w
          else w)"

definition handleConfigUpdate ::
  "('q, 'm, 's) dops \<Rightarrow> decoders \<Rightarrow> Envelope \<Rightarrow> ('q, 'm, 's) dworld \<Rightarrow> ('q, 'm, 's) dworld" where
  "handleConfigUpdate ops un msg w =
     (case op_UpdateDomain ops of
        None \<Rightarrow> w
      | Some UpdateDomain \<Rightarrow>
          (case un_config un (e_Payload msg) of
             Inl err \<Rightarrow> w\<lparr>dw_sys := op_ReportConfigAck ops (dw_sys w) False ''bad payload'' ''cloud.endpoint''\<rparr>
           | Inr endpoint \<Rightarrow> w\<lparr>dw_sys := snd (UpdateDomain (dw_sys w) endpoint)\<rparr>))"

definition handle ::
  "('q, 'm, 's) dops \<Rightarrow> decoders \<Rightarrow> gotime \<Rightarrow> goerror option \<Rightarrow> Envelope \<Rightarrow> ('q, 'm, 's) dworld \<Rightarrow> ('q, 'm, 's) dworld" where
  "handle ops un now wr msg w =
     (if e_Type msg = ''task'' then handleTask ops un now wr msg w
      else if e_Type msg = ''device_add'' then handleDeviceAdd ops un msg w
      else if e_Type msg = ''device_update'' then handleDeviceUpdate ops un msg w
      else if e_Type msg = ''device_remove'' then handleDeviceRemove ops un msg w
      else if e_Type msg = ''control'' then handleControl ops un msg w
      else if e_Type msg = ''config_update'' then handleConfigUpdate ops un msg w
      else w)"

section \<open>The reading loop\<close>

text \<open>
  One turn of the loop: whether the context has ended, what the read returned, and the result of the
  write the handler may make. The second component says whether the loop goes on.
\<close>

record turn =
  tn_done :: bool
  tn_read :: "goerror + Envelope"
  tn_now :: gotime
  tn_write :: "goerror option"

definition loop_turn ::
  "('q, 'm, 's) dops \<Rightarrow> decoders \<Rightarrow> turn \<Rightarrow> Dispatcher \<Rightarrow> ('q, 'm, 's) dworld \<Rightarrow> bool \<times> ('q, 'm, 's) dworld" where
  "loop_turn ops un tn d w =
     (if tn_done tn then (False, w)
      else case dp_conn d of
             None \<Rightarrow> (False, w)
           | Some conn \<Rightarrow>
               (case tn_read tn of
                  Inl err \<Rightarrow> (False, w)
                | Inr msg \<Rightarrow> (True, handle ops un (tn_now tn) (tn_write tn) msg w)))"

text \<open>
  The dispatcher with its environment: starting, stopping and changing the connection come from the
  other components, a turn from the goroutine.
\<close>

datatype dsp_op = DStart | DStop | DConn "nat option" | DTurn turn

fun dsp_step ::
  "('q, 'm, 's) dops \<Rightarrow> decoders \<Rightarrow> dsp_op \<Rightarrow> Dispatcher \<times> ('q, 'm, 's) dworld \<Rightarrow> Dispatcher \<times> ('q, 'm, 's) dworld" where
  "dsp_step ops un DStart (d, w) = (Dispatcher_Start d, w)"
| "dsp_step ops un DStop (d, w) = (Dispatcher_Stop d, w)"
| "dsp_step ops un (DConn conn) (d, w) = (Dispatcher_UpdateConn d conn, w)"
| "dsp_step ops un (DTurn tn) (d, w) =
     (if dp_loop d then
        (case loop_turn ops un tn d w of (go, w') \<Rightarrow> (if go then d else d\<lparr>dp_loop := False\<rparr>, w'))
      else (d, w))"

definition dsp_run ::
  "('q, 'm, 's) dops \<Rightarrow> decoders \<Rightarrow> dsp_op list \<Rightarrow> Dispatcher \<times> ('q, 'm, 's) dworld \<Rightarrow> Dispatcher \<times> ('q, 'm, 's) dworld" where
  "dsp_run ops un xs s = foldl (\<lambda>s x. dsp_step ops un x s) s xs"

section \<open>What the handlers do, from the laws of the interfaces\<close>

text \<open>
  The dispatcher's clients: a queue and a device manager that satisfy their contracts. The lemmas
  below hold for every such pair.
\<close>

locale dispatch_ops =
  queue_ops "op_Enqueue ops" "op_Cancel ops" pending stored qinv +
  device_mutator "op_Add ops" "op_Update ops" "op_Remove ops" lookup minv
  for ops :: "('q, 'm, 's) dops" and pending stored qinv lookup minv
begin

lemma handleTask_inv:
  assumes "qinv (dw_queue w)"
  shows "qinv (dw_queue (handleTask ops un now wr msg w)) \<and> dw_mgr (handleTask ops un now wr msg w) = dw_mgr w"
proof (cases "un_task un (e_Payload msg)")
  case (Inr t)
  let ?u = "if t_TraceID t = [] then t\<lparr>t_TraceID := e_TraceID msg\<rparr> else t"
  obtain e q where q: "op_Enqueue ops (dw_queue w) ?u = (e, q)" by fastforce
  with enqueue_inv [OF assms, of ?u] have "qinv q" by simp
  then show ?thesis using Inr q by (cases e) (simp_all add: handleTask_def sendTaskAck_def Let_def split: option.splits)
qed (simp add: handleTask_def sendTaskAck_def Let_def assms split: option.splits)

lemma handle_inv:
  assumes "qinv (dw_queue w)" "minv (dw_mgr w)"
  shows "qinv (dw_queue (handle ops un now wr msg w)) \<and> minv (dw_mgr (handle ops un now wr msg w))"
proof -
  have "qinv (dw_queue (handleDeviceAdd ops un msg w)) \<and> minv (dw_mgr (handleDeviceAdd ops un msg w))"
    using assms add_inv [OF assms(2)] by (simp add: handleDeviceAdd_def split: sum.splits)
  moreover have "qinv (dw_queue (handleDeviceUpdate ops un msg w)) \<and> minv (dw_mgr (handleDeviceUpdate ops un msg w))"
    using assms update_inv [OF assms(2)] by (simp add: handleDeviceUpdate_def split: sum.splits)
  moreover have "qinv (dw_queue (handleDeviceRemove ops un msg w)) \<and> minv (dw_mgr (handleDeviceRemove ops un msg w))"
    using assms remove_inv [OF assms(2)] by (simp add: handleDeviceRemove_def split: sum.splits)
  moreover have "qinv (dw_queue (handleControl ops un msg w)) \<and> minv (dw_mgr (handleControl ops un msg w))"
    using assms cancel_inv [OF assms(1)] by (simp add: handleControl_def split: sum.splits)
  moreover have "qinv (dw_queue (handleConfigUpdate ops un msg w)) \<and> minv (dw_mgr (handleConfigUpdate ops un msg w))"
    using assms by (simp add: handleConfigUpdate_def split: sum.splits option.splits)
  ultimately show ?thesis using assms handleTask_inv [OF assms(1), of un now wr msg] by (simp add: handle_def)
qed

lemma run_inv:
  "qinv (dw_queue w) \<Longrightarrow> minv (dw_mgr w) \<Longrightarrow>
     qinv (dw_queue (snd (dsp_run ops un xs (d, w)))) \<and> minv (dw_mgr (snd (dsp_run ops un xs (d, w))))"
proof (induction xs arbitrary: d w)
  case (Cons x xs)
  obtain d1 w1 where x: "dsp_step ops un x (d, w) = (d1, w1)" by fastforce
  have "qinv (dw_queue w1) \<and> minv (dw_mgr w1)"
    using x Cons.prems handle_inv [of w un]
    by (cases x) (auto simp: loop_turn_def split: if_splits option.splits sum.splits)
  then show ?case using Cons.IH [of w1 d1] x by (simp add: dsp_run_def)
qed (simp add: dsp_run_def)

text \<open>A task message: exactly one acknowledgement, which says what happened to the queue.\<close>

lemma task_ack:
  assumes "qinv (dw_queue w)" "un_task un (e_Payload msg) = Inr t"
  shows "\<exists>acc reason t'. dw_out (handleTask ops un now None msg w) = dw_out w @
      [NewEnvelope now ''task_ack'' (PTaskAck \<lparr>ta_TaskID = t_TaskID t, ta_Accepted = acc, ta_Reason = reason\<rparr>)] \<and>
    t_TaskID t' = t_TaskID t \<and> t_DeviceID t' = t_DeviceID t \<and>
    pending (dw_queue (handleTask ops un now None msg w)) =
      (if acc then (pending (dw_queue w))(t_DeviceID t := pending (dw_queue w) (t_DeviceID t) @ [t'])
       else pending (dw_queue w)) \<and>
    dw_mgr (handleTask ops un now None msg w) = dw_mgr w \<and> dw_sys (handleTask ops un now None msg w) = dw_sys w"
proof -
  define u where "u = (if t_TraceID t = [] then t\<lparr>t_TraceID := e_TraceID msg\<rparr> else t)"
  have u: "t_TaskID u = t_TaskID t" "t_DeviceID u = t_DeviceID t" by (simp_all add: u_def)
  obtain e q where q: "op_Enqueue ops (dw_queue w) u = (e, q)" by fastforce
  have s: "t_TaskID (stored u) = t_TaskID t" "t_DeviceID (stored u) = t_DeviceID t"
    using stored_ids [of u] u by simp_all
  show ?thesis
  proof (cases e)
    case None
    with q enqueue_accepted [OF assms(1)] s u show ?thesis
      by (intro exI [of _ True] exI [of _ "[]"] exI [of _ "stored u"] conjI)
        (simp_all add: handleTask_def assms(2) sendTaskAck_def Let_def u_def [symmetric])
  next
    case (Some err)
    with q enqueue_rejected [OF assms(1)] s u show ?thesis
      by (intro exI [of _ False] exI [of _ "Error err"] exI [of _ "stored u"] conjI)
        (simp_all add: handleTask_def assms(2) sendTaskAck_def Let_def u_def [symmetric])
  qed
qed

text \<open>A device message changes at most the entry of the device it names.\<close>

lemma device_message_frame:
  assumes "minv (dw_mgr w)" "e_Type msg \<in> {''device_add'', ''device_update'', ''device_remove''}"
    "\<And>d. un_device un (e_Payload msg) = Inr d \<Longrightarrow> d_DeviceID d \<noteq> i"
    "un_remove un (e_Payload msg) \<noteq> Inr i"
  shows "lookup (dw_mgr (handle ops un now wr msg w)) i = lookup (dw_mgr w) i \<and>
    dw_queue (handle ops un now wr msg w) = dw_queue w \<and> dw_out (handle ops un now wr msg w) = dw_out w"
proof -
  have d: "un_device un (e_Payload msg) = Inr d \<Longrightarrow> i \<noteq> d_DeviceID d" for d using assms(3) by blast
  have r: "un_remove un (e_Payload msg) = Inr j \<Longrightarrow> i \<noteq> j" for j using assms(4) by blast
  show ?thesis
    using assms(2) d r add_frame [OF assms(1), of i] update_frame [OF assms(1), of i] remove_frame [OF assms(1), of i]
    by (auto simp: handle_def handleDeviceAdd_def handleDeviceUpdate_def handleDeviceRemove_def split: sum.splits)
qed

end

text \<open>The agent's own queue and manager satisfy the contracts.\<close>

definition agent_ops ::
  "'db bbolt \<Rightarrow> gob \<Rightarrow> gotime \<Rightarrow> ('s \<Rightarrow> string \<Rightarrow> goerror option \<times> 's) option \<Rightarrow> ('s \<Rightarrow> bool \<Rightarrow> string \<Rightarrow> string \<Rightarrow> 's) \<Rightarrow>
   ('db Queue, Manager, 's) dops" where
  "agent_ops b g now upd ack =
     \<lparr>op_Enqueue = (\<lambda>q t. Queue_Enqueue b g now q (Some t)), op_Cancel = Queue_Cancel b g,
      op_Add = Manager_Add now, op_Update = Manager_Update now, op_Remove = Manager_Remove,
      op_UpdateDomain = upd, op_ReportConfigAck = ack\<rparr>"

lemma agent_ops_sel [simp]:
  "op_Enqueue (agent_ops b g now upd ack) = (\<lambda>q t. Queue_Enqueue b g now q (Some t))"
  "op_Cancel (agent_ops b g now upd ack) = Queue_Cancel b g"
  "op_Add (agent_ops b g now upd ack) = Manager_Add now"
  "op_Update (agent_ops b g now upd ack) = Manager_Update now"
  "op_Remove (agent_ops b g now upd ack) = Manager_Remove"
  "op_UpdateDomain (agent_ops b g now upd ack) = upd"
  "op_ReportConfigAck (agent_ops b g now upd ack) = ack"
  by (simp_all add: agent_ops_def)

interpretation agent: dispatch_ops "agent_ops b g now upd ack" Queue_ListPending "enqueue_clone now" queue_inv
  Manager_Get mgr_inv for b g now upd ack
  unfolding dispatch_ops_def agent_ops_sel by (intro conjI queue.queue_ops_axioms devmgr.device_mutator_axioms)

section \<open>A reading goroutine that has ended\<close>

lemma dsp_dead:
  "dp_running d \<Longrightarrow> \<not> dp_loop d \<Longrightarrow> DStop \<notin> set xs \<Longrightarrow>
     snd (dsp_run ops un xs (d, w)) = w \<and> \<not> dp_loop (fst (dsp_run ops un xs (d, w)))"
proof (induction xs arbitrary: d)
  case (Cons x xs)
  then obtain d1 where "dsp_step ops un x (d, w) = (d1, w)" "dp_running d1" "\<not> dp_loop d1"
    by (cases x) (auto simp: Dispatcher_Start_def Dispatcher_UpdateConn_def)
  then show ?case using Cons.IH [of d1] Cons.prems(3) by (simp add: dsp_run_def)
qed (simp add: dsp_run_def)

section \<open>Properties\<close>

text \<open>
  (C16) A task message is answered truthfully and exactly once: when the answer can be written, it names the
  task and says \<open>accepted\<close> if and only if the task now is the last pending one of its device; otherwise
  no pending list has changed. Nothing else is touched.
\<close>

theorem task_message_acknowledged:
  assumes "queue_inv (dw_queue w)" "un_task un (e_Payload msg) = Inr t" "e_Type msg = ''task''"
  shows "\<exists>acc reason t'.
    dw_out (handle (agent_ops b g now upd ack) un now None msg w) = dw_out w @
      [NewEnvelope now ''task_ack'' (PTaskAck \<lparr>ta_TaskID = t_TaskID t, ta_Accepted = acc, ta_Reason = reason\<rparr>)] \<and>
    t_TaskID t' = t_TaskID t \<and> t_DeviceID t' = t_DeviceID t \<and>
    Queue_ListPending (dw_queue (handle (agent_ops b g now upd ack) un now None msg w)) =
      (if acc then (Queue_ListPending (dw_queue w))(t_DeviceID t := Queue_ListPending (dw_queue w) (t_DeviceID t) @ [t'])
       else Queue_ListPending (dw_queue w)) \<and>
    dw_mgr (handle (agent_ops b g now upd ack) un now None msg w) = dw_mgr w \<and>
    dw_sys (handle (agent_ops b g now upd ack) un now None msg w) = dw_sys w"
proof -
  have "handle (agent_ops b g now upd ack) un now None msg w = handleTask (agent_ops b g now upd ack) un now None msg w"
    using assms(3) by (simp add: handle_def)
  then show ?thesis using agent.task_ack [OF assms(1,2), of b g now upd ack] by simp
qed

text \<open>
  (C15) The messages of the cloud cannot corrupt the agent's state: over any run of the dispatcher, whatever
  is received and however the connection changes, the queue and the device registry keep their
  invariants.
\<close>

theorem messages_keep_invariants:
  assumes "queue_inv (dw_queue w)" "mgr_inv (dw_mgr w)"
    "dsp_run (agent_ops b g now upd ack) un xs (d, w) = (d', w')"
  shows "queue_inv (dw_queue w') \<and> mgr_inv (dw_mgr w')"
  using agent.run_inv [OF assms(1,2), of b g now upd ack un xs d] assms(3) by simp

text \<open>
  A device message concerns one device: the registry entry of every other device, the queue and the
  connection are as before.
\<close>

theorem device_message_is_local:
  assumes "mgr_inv (dw_mgr w)" "e_Type msg \<in> {''device_add'', ''device_update'', ''device_remove''}"
    "\<And>d. un_device un (e_Payload msg) = Inr d \<Longrightarrow> d_DeviceID d \<noteq> i" "un_remove un (e_Payload msg) \<noteq> Inr i"
  shows "Manager_Get (dw_mgr (handle (agent_ops b g now upd ack) un now wr msg w)) i = Manager_Get (dw_mgr w) i \<and>
    dw_queue (handle (agent_ops b g now upd ack) un now wr msg w) = dw_queue w \<and>
    dw_out (handle (agent_ops b g now upd ack) un now wr msg w) = dw_out w"
  by (rule agent.device_message_frame [OF assms])

text \<open>
  (C28) The first failed read is the last: the goroutine ends while the dispatcher still counts as running,
  so that until a \<open>Stop\<close> no new connection and no \<open>Start\<close> brings it back, and no message is handled.
\<close>

theorem dispatcher_stops_at_read_error:
  assumes "dp_running d" "dp_loop d" "tn_read tn = Inl err" "DStop \<notin> set xs"
  shows "snd (dsp_run ops un (DTurn tn # xs) (d, w)) = w"
proof -
  have "dsp_step ops un (DTurn tn) (d, w) = (d\<lparr>dp_loop := False\<rparr>, w)"
    using assms(2,3) by (simp add: loop_turn_def split: option.splits)
  then show ?thesis using dsp_dead [of "d\<lparr>dp_loop := False\<rparr>" xs ops un w] assms by (simp add: dsp_run_def)
qed

section \<open>Witnesses\<close>

definition demo_un :: decoders where
  "demo_un = \<lparr>un_task = (\<lambda>_. Inr task_B), un_device = (\<lambda>_. Inr zero_Device), un_remove = (\<lambda>_. Inr ''D02''),
     un_control = (\<lambda>_. Inr \<lparr>ct_Action = ''cancel'', ct_DeviceID = ''D01'', ct_TaskID = ''B''\<rparr>),
     un_config = (\<lambda>_. Inr ''c.example.com'')\<rparr>"

definition demo_world :: "(mem_db Queue, Manager, nat) dworld" where
  "demo_world = \<lparr>dw_queue = NewQueue 2 None, dw_mgr = NewManager, dw_sys = 0, dw_out = []\<rparr>"

definition demo_env :: "string \<Rightarrow> Envelope" where
  "demo_env ty = \<lparr>e_Type = ty, e_TraceID = ''t1'', e_TS = 3, e_Payload = PRaw []\<rparr>"

abbreviation demo_ops :: "(mem_db Queue, Manager, nat) dops" where
  "demo_ops \<equiv> agent_ops mem_bbolt AB_gob 5 None (\<lambda>n _ _ _. Suc n)"

lemma demo_world_inv: "queue_inv (dw_queue demo_world)" "mgr_inv (dw_mgr demo_world)"
  by (simp_all add: demo_world_def NewQueue_inv mgr_inv_def NewManager_def)

theorem task_message_acknowledged_witness:
  "\<exists>acc reason.
     dw_out (handle demo_ops demo_un 5 None (demo_env ''task'') demo_world) =
       [NewEnvelope 5 ''task_ack'' (PTaskAck \<lparr>ta_TaskID = ''B'', ta_Accepted = acc, ta_Reason = reason\<rparr>)]"
proof -
  have "un_task demo_un (e_Payload (demo_env ''task'')) = Inr task_B" "e_Type (demo_env ''task'') = ''task''"
    by (simp_all add: demo_un_def demo_env_def)
  from task_message_acknowledged [OF demo_world_inv(1) this, of mem_bbolt AB_gob 5 None "\<lambda>n _ _ _. Suc n"]
  show ?thesis by (auto simp: demo_world_def task_B_def)
qed

theorem messages_keep_invariants_witness:
  "mgr_inv (dw_mgr (snd (dsp_run demo_ops demo_un [DStart, DConn (Some 1),
     DTurn \<lparr>tn_done = False, tn_read = Inr (demo_env ''device_add''), tn_now = 5, tn_write = None\<rparr>]
     (NewDispatcher None, demo_world))))"
  using messages_keep_invariants [OF demo_world_inv, of mem_bbolt AB_gob 5 None "\<lambda>n _ _ _. Suc n" demo_un
      "[DStart, DConn (Some 1), DTurn \<lparr>tn_done = False, tn_read = Inr (demo_env ''device_add''), tn_now = 5, tn_write = None\<rparr>]"
      "NewDispatcher None"]
  by (metis prod.collapse)

theorem device_message_is_local_witness:
  "Manager_Get (dw_mgr (handle demo_ops demo_un 5 None (demo_env ''device_remove'') demo_world)) ''D01'' =
     Manager_Get NewManager ''D01''"
  using device_message_is_local [OF demo_world_inv(2), of "demo_env ''device_remove''" demo_un "''D01''"
      mem_bbolt AB_gob 5 None "\<lambda>n _ _ _. Suc n" None]
  by (simp add: demo_un_def demo_env_def demo_world_def zero_Device_def)

theorem dispatcher_stops_at_read_error_witness:
  "snd (dsp_run demo_ops demo_un
     [DTurn \<lparr>tn_done = False, tn_read = Inl (PlainError ''eof''), tn_now = 5, tn_write = None\<rparr>, DConn (Some 2), DStart,
      DTurn \<lparr>tn_done = False, tn_read = Inr (demo_env ''task''), tn_now = 6, tn_write = None\<rparr>]
     (\<lparr>dp_conn = Some 1, dp_running = True, dp_loop = True\<rparr>, demo_world)) = demo_world"
  by (rule dispatcher_stops_at_read_error) simp_all

end
