(* ===== verification/Executor.thy ===== *)
theory Executor
  imports TaskQueue DeviceMgr
begin

text \<open>
  \<^verbatim>\<open>src/internal/executor\<close>: the execution of one task with its retries (\<open>execute.go\<close>, \<open>retry.go\<close>). The
  consumers and workers that feed it (\<open>executor.go\<close>) are in \<open>Pipeline\<close> and \<open>Agent\<close>. One task's execution is
  a function of what each attempt meets: the registry, the clock, the network, the files and whether
  the context is over. It yields the task's final record and the trace of result callbacks and audit
  entries.
\<close>

section \<open>What an attempt meets\<close>

text \<open>
  The files: the errors of creating, writing and reopening the temporary copy of inline content, and
  what opening a document gives: an error with \<open>os.IsNotExist\<close>, or the result of reading it.
\<close>

record load_env =
  le_createtemp :: "goerror option"
  le_write :: "goerror option"
  le_reopen :: "goerror option"
  le_open :: "string \<Rightarrow> (goerror \<times> bool) + (goerror + bytes)"
  le_read :: "bytes \<Rightarrow> goerror + bytes"

text \<open>
  An attempt: the context at the head of the loop, after the execution and at the end of the wait
  (\<open>True\<close> when it is finished), the registry and clock, the network and the files.
\<close>

record attempt =
  at_done_head :: bool
  at_done_after :: bool
  at_done_wait :: bool
  at_manager :: Manager
  at_now :: gotime
  at_env :: env
  at_load :: load_env

text \<open>What the outside sees: result callbacks with the task as it is then, and audit entries.\<close>

datatype exec_event =
    TaskResult PrintTask
  | AuditExecuted string string string int
  | AuditRetry string string string int string

section \<open>One attempt\<close>

definition maxRetryCount :: int where "maxRetryCount = 3"
definition retryInitDelay :: duration where "retryInitDelay = 5 * Second"
definition retryMaxBackoff :: duration where "retryMaxBackoff = 300 * Second"
definition defaultWorkerCount :: nat where "defaultWorkerCount = 5"

definition markTaskFailed :: "gotime \<Rightarrow> PrintTask \<Rightarrow> string \<Rightarrow> string \<Rightarrow> PrintTask" where
  "markTaskFailed now task code msg =
     task\<lparr>t_Status := TaskStatusFailed, t_FinishedAt := now, t_ErrorCode := code, t_ErrorMsg := msg\<rparr>"

definition isDeviceOfflineErr :: "goerror \<Rightarrow> bool" where
  "isDeviceOfflineErr err =
     (case errors_As err of None \<Rightarrow> False | Some (code, _) \<Rightarrow> code = ErrDeviceOffline)"

text \<open>\<open>loadTaskData\<close>: an error, or the reader, whose value is what reading it to the end gives.\<close>

definition loadTaskData :: "load_env \<Rightarrow> PrintTask \<Rightarrow> goerror + (goerror + bytes)" where
  "loadTaskData le task =
     (if t_Content task \<noteq> [] then
        (case le_createtemp le of
           Some err \<Rightarrow> Inl (Wrap ErrStorageIO ''create temp file'' err)
         | None \<Rightarrow>
           (case le_write le of
              Some err \<Rightarrow> Inl (Wrap ErrStorageIO ''write temp file'' err)
            | None \<Rightarrow>
              (case le_reopen le of
                 Some err \<Rightarrow> Inl (Wrap ErrStorageIO ''reopen temp file'' err)
               | None \<Rightarrow> Inr (le_read le (t_Content task)))))
      else if t_DocumentRef task = [] then
        Inl (New ErrTaskDataInvalid (''task '' @ t_TaskID task @ '' document_ref empty''))
      else case le_open le (t_DocumentRef task) of
             Inl (err, notExist) \<Rightarrow>
               if notExist then Inl (New ErrTaskNotFound (''task '' @ t_TaskID task @ '' data not found''))
               else Inl (Wrap ErrStorageIO ''open task data'' err)
           | Inr data \<Rightarrow> Inr data)"

text \<open>\<open>audit\<close> tells whether the executor has an audit logger.\<close>

definition executeTask ::
  "bool \<Rightarrow> attempt \<Rightarrow> PrintTask \<Rightarrow> goerror option \<times> PrintTask \<times> exec_event list" where
  "executeTask audit a task =
     (case Manager_Get (at_manager a) (t_DeviceID task) of
        None \<Rightarrow>
          let t1 = markTaskFailed (at_now a) task (ErrorCode_string ErrDeviceNotFound) ''device not found''
          in (Some (New ErrDeviceNotFound (''device '' @ t_DeviceID task @ '' not found'')), t1, [TaskResult t1])
      | Some dev \<Rightarrow>
        if d_Status dev = DeviceStatusOffline \<or> d_Status dev = DeviceStatusProbeFailed then
          (Some (New ErrDeviceOffline (''device '' @ t_DeviceID task @ '' offline'')), task, [])
        else
        (case AdapterFor (d_Protocol dev) of
           None \<Rightarrow>
             let t1 = markTaskFailed (at_now a) task (ErrorCode_string ErrProtocolSendFail)
                        (''no adapter for protocol '' @ d_Protocol dev)
             in (Some (New ErrProtocolSendFail (''no adapter for protocol '' @ d_Protocol dev)), t1, [TaskResult t1])
         | Some adapter \<Rightarrow>
             let t1 = task\<lparr>t_Status := TaskStatusRunning, t_StartedAt := at_now a\<rparr>;
                 ev = (if audit then [AuditExecuted (t_TaskID t1) (t_DeviceID t1) (t_TraceID t1) (t_RetryCount t1)]
                       else [])
             in (case loadTaskData (at_load a) t1 of
                   Inl err \<Rightarrow> (Some err, t1, ev)
                 | Inr data \<Rightarrow>
                     (case Adapter_Send adapter (at_env a) (d_IP dev) (DefaultPort dev) data (t_Params t1) of
                        Some err \<Rightarrow> (Some err, t1, ev)
                      | None \<Rightarrow>
                          let t2 = t1\<lparr>t_Status := TaskStatusSuccess, t_FinishedAt := at_now a,
                                      t_ErrorCode := [], t_ErrorMsg := []\<rparr>
                          in (None, t2, ev @ [TaskResult t2])))))"

section \<open>Retrying\<close>

text \<open>
  \<open>handleRetry\<close>: \<open>None\<close> is the run-time panic of a shift by a negative amount; otherwise whether to
  try again, the task and the events. The wait ends early when the context does.
\<close>

definition retry_backoff :: "int \<Rightarrow> duration option" where
  "retry_backoff retryCount =
     (if retryCount - 1 < 0 then None
      else let backoff = wrap64 (retryInitDelay * wrap64 (2 ^ nat (retryCount - 1)))
           in Some (if retryMaxBackoff < backoff then retryMaxBackoff else backoff))"

definition handleRetry ::
  "bool \<Rightarrow> attempt \<Rightarrow> PrintTask \<Rightarrow> goerror \<Rightarrow> (bool \<times> PrintTask \<times> exec_event list) option" where
  "handleRetry audit a task0 err =
     (let task = task0\<lparr>t_RetryCount := wrap64 (t_RetryCount task0 + 1)\<rparr>;
          auditEv = (if audit then [AuditRetry (t_TaskID task) (t_DeviceID task) (t_TraceID task)
                                      (t_RetryCount task) (Error err)] else [])
      in if maxRetryCount < t_RetryCount task then
           let code = (if CodeFromErr_string err = [] then ErrorCode_string ErrProtocolSendFail
                       else CodeFromErr_string err);
               t1 = markTaskFailed (at_now a) task code (Error err)
           in Some (False, t1, auditEv @ [TaskResult t1])
         else
           (case retry_backoff (t_RetryCount task) of
              None \<Rightarrow> None
            | Some backoff \<Rightarrow>
                let t1 = task\<lparr>t_Status := TaskStatusRetrying, t_ErrorCode := CodeFromErr_string err,
                              t_ErrorMsg := Error err, t_NextRetryAt := at_now a + backoff\<rparr>
                in if at_done_wait a then Some (False, t1, auditEv)
                   else Some (True, t1\<lparr>t_Status := TaskStatusPending, t_ErrorCode := [], t_ErrorMsg := [],
                                       t_NextRetryAt := 0\<rparr>, auditEv)))"

text \<open>
  \<open>executeTaskLoop\<close>, one element of the list per pass: the loop has returned, it has panicked, or
  the list is used up and the loop goes on.
\<close>

datatype loop_end = Returned PrintTask | Panicked | Running PrintTask

fun executeTaskLoop :: "bool \<Rightarrow> attempt list \<Rightarrow> PrintTask \<Rightarrow> loop_end \<times> exec_event list" where
  "executeTaskLoop audit [] task = (Running task, [])"
| "executeTaskLoop audit (a # as) task =
     (if at_done_head a then (Returned task, [])
      else if TaskStatus_IsTerminal (t_Status task) then (Returned task, [])
      else case executeTask audit a task of
             (None, t1, ev) \<Rightarrow> (Returned t1, ev)
           | (Some err, t1, ev) \<Rightarrow>
               if at_done_after a then (Returned t1, ev)
               else if isDeviceOfflineErr err then
                 (if at_done_wait a then (Returned t1, ev)
                  else case executeTaskLoop audit as t1 of (r, ev') \<Rightarrow> (r, ev @ ev'))
               else
                 (case handleRetry audit a t1 err of
                    None \<Rightarrow> (Panicked, ev)
                  | Some (again, t2, ev2) \<Rightarrow>
                      if again then
                        (case executeTaskLoop audit as t2 of (r, ev') \<Rightarrow> (r, ev @ ev2 @ ev'))
                      else (Returned t2, ev @ ev2)))"

section \<open>Handing over the results\<close>

text \<open>
  The callbacks as functions on whatever they change: \<open>OnTaskResult\<close> registers one, \<open>fireTaskResult\<close>
  calls all of them in the order of registration.
\<close>

definition OnTaskResult :: "('w \<Rightarrow> PrintTask \<Rightarrow> 'w) list \<Rightarrow> ('w \<Rightarrow> PrintTask \<Rightarrow> 'w) \<Rightarrow> ('w \<Rightarrow> PrintTask \<Rightarrow> 'w) list" where
  "OnTaskResult cbs callback = cbs @ [callback]"

definition fireTaskResult :: "('w \<Rightarrow> PrintTask \<Rightarrow> 'w) list \<Rightarrow> PrintTask \<Rightarrow> 'w \<Rightarrow> 'w" where
  "fireTaskResult cbs task w = foldl (\<lambda>w cb. cb w task) w cbs"

section \<open>Facts about one pass\<close>

lemma executeTask_ok:
  assumes "executeTask audit a t = (None, t1, ev)"
  shows "t_Status t1 = TaskStatusSuccess" "\<exists>ev0. ev = ev0 @ [TaskResult t1] \<and> (\<forall>u. TaskResult u \<notin> set ev0)"
    "t_TaskID t1 = t_TaskID t" "t_RetryCount t1 = t_RetryCount t"
proof -
  show "t_Status t1 = TaskStatusSuccess" "t_TaskID t1 = t_TaskID t" "t_RetryCount t1 = t_RetryCount t"
    "\<exists>ev0. ev = ev0 @ [TaskResult t1] \<and> (\<forall>u. TaskResult u \<notin> set ev0)"
    using assms
    by (auto simp: executeTask_def Let_def split: option.splits if_splits sum.splits)
qed

lemma executeTask_err:
  assumes "executeTask audit a t = (Some err, t1, ev)"
  shows "t_RetryCount t1 = t_RetryCount t" "t_TaskID t1 = t_TaskID t" "t_DeviceID t1 = t_DeviceID t"
    "TaskResult u \<in> set ev \<Longrightarrow> t_Status u = TaskStatusFailed"
  using assms
  by (auto simp: executeTask_def markTaskFailed_def Let_def split: option.splits if_splits sum.splits)

lemma retry_backoff_None: "retry_backoff n = None \<longleftrightarrow> n < 1"
  by (auto simp: retry_backoff_def Let_def)

lemma handleRetry_again:
  assumes "handleRetry audit a t err = Some (True, t2, ev)"
  shows "t_RetryCount t2 = wrap64 (t_RetryCount t + 1)" "t_RetryCount t2 \<le> maxRetryCount"
    "t_Status t2 = TaskStatusPending" "t_TaskID t2 = t_TaskID t" "t_DeviceID t2 = t_DeviceID t"
    "TaskResult u \<notin> set ev" "\<not> at_done_wait a"
  using assms
  by (auto simp: handleRetry_def markTaskFailed_def Let_def split: option.splits if_splits)

lemma handleRetry_stop:
  assumes "handleRetry audit a t err = Some (False, t2, ev)" "\<not> at_done_wait a"
  shows "t_Status t2 = TaskStatusFailed" "\<exists>ev0. ev = ev0 @ [TaskResult t2]" "t_TaskID t2 = t_TaskID t"
    "maxRetryCount < t_RetryCount t2" "TaskResult u \<in> set ev \<Longrightarrow> u = t2"
  using assms
  by (auto simp: handleRetry_def markTaskFailed_def Let_def split: option.splits if_splits)

lemma handleRetry_results:
  "handleRetry audit a t err = Some (again, t2, ev) \<Longrightarrow> TaskResult u \<in> set ev \<Longrightarrow> t_Status u = TaskStatusFailed"
  by (auto simp: handleRetry_def markTaskFailed_def Let_def split: option.splits if_splits)

lemma handleRetry_no_panic: "0 \<le> t_RetryCount t \<Longrightarrow> t_RetryCount t \<le> 3 \<Longrightarrow> handleRetry audit a t err \<noteq> None"
  by (auto simp: handleRetry_def retry_backoff_None maxRetryCount_def wrap64_id is_int64_def Let_def
      split: option.splits if_splits)

section \<open>A task comes to an end\<close>

text \<open>An attempt in which the context is never found finished and the device is not offline.\<close>

definition online_attempt :: "string \<Rightarrow> attempt \<Rightarrow> bool" where
  "online_attempt dev a \<longleftrightarrow> \<not> at_done_head a \<and> \<not> at_done_after a \<and> \<not> at_done_wait a \<and>
     (case Manager_Get (at_manager a) dev of
        None \<Rightarrow> True
      | Some d \<Rightarrow> d_Status d \<noteq> DeviceStatusOffline \<and> d_Status d \<noteq> DeviceStatusProbeFailed)"

definition offline_attempt :: "string \<Rightarrow> attempt \<Rightarrow> bool" where
  "offline_attempt dev a \<longleftrightarrow> \<not> at_done_head a \<and> \<not> at_done_after a \<and> \<not> at_done_wait a \<and>
     map_option d_Status (Manager_Get (at_manager a) dev) = Some DeviceStatusOffline"

lemma offline_iff: "isDeviceOfflineErr e \<longleftrightarrow> CodeFromErr e = Some ErrDeviceOffline"
  by (auto simp: CodeFromErr_def isDeviceOfflineErr_def split: option.splits)

lemma loadTaskData_not_offline: "loadTaskData le t = Inl err \<Longrightarrow> CodeFromErr err \<noteq> Some ErrDeviceOffline"
  by (auto simp: loadTaskData_def split: if_splits option.splits sum.splits)

lemma Adapter_Send_code:
  "Adapter_Send ad env ip port data params = Some e \<Longrightarrow>
     CodeFromErr e = Some ErrProtocolSendFail \<or> CodeFromErr e = Some ErrTaskTimeout"
  by (cases ad) (auto dest: raw.send_code lpr.send_code ipp.send_code cups.send_code)

lemma executeTask_not_offline:
  assumes "executeTask audit a t = (Some err, t1, ev)" "online_attempt (t_DeviceID t) a"
  shows "\<not> isDeviceOfflineErr err"
proof (cases "Manager_Get (at_manager a) (t_DeviceID t)")
  case None
  with assms(1) show ?thesis by (auto simp: executeTask_def Let_def offline_iff)
next
  case (Some dev)
  with assms(2) have st: "d_Status dev \<noteq> DeviceStatusOffline" "d_Status dev \<noteq> DeviceStatusProbeFailed"
    by (auto simp: online_attempt_def)
  show ?thesis
    using assms(1) Some st
    by (auto simp: executeTask_def Let_def offline_iff dest: loadTaskData_not_offline Adapter_Send_code
        split: option.splits sum.splits)
qed

lemma loop_ends:
  assumes "0 \<le> t_RetryCount t" "t_RetryCount t \<le> 3" "\<not> TaskStatus_IsTerminal (t_Status t)"
    and "\<forall>a \<in> set as. online_attempt (t_DeviceID t) a" "4 - t_RetryCount t \<le> int (length as)"
  shows "\<exists>t' ev. executeTaskLoop audit as t = (Returned t', ev @ [TaskResult t']) \<and>
    t_TaskID t' = t_TaskID t \<and>
    (t_Status t' = TaskStatusSuccess \<and> t_RetryCount t' \<le> 3 \<or>
     t_Status t' = TaskStatusFailed \<and> 3 < t_RetryCount t')"
  using assms
proof (induction as arbitrary: t)
  case Nil
  then show ?case by simp
next
  case (Cons a as)
  have on: "online_attempt (t_DeviceID t) a" using Cons.prems by simp
  then have ctx: "\<not> at_done_head a" "\<not> at_done_after a" "\<not> at_done_wait a" by (simp_all add: online_attempt_def)
  obtain r t1 ev where e: "executeTask audit a t = (r, t1, ev)" by (metis prod_cases3)
  show ?case
  proof (cases r)
    case None
    note ok = executeTask_ok [OF e [unfolded None]]
    from ok(2) obtain ev0 where "ev = ev0 @ [TaskResult t1]" by blast
    with ok Cons.prems(2,3) ctx e None show ?thesis by auto
  next
    case (Some err)
    note er = executeTask_err [OF e [unfolded Some]]
    have off: "\<not> isDeviceOfflineErr err" by (rule executeTask_not_offline [OF e [unfolded Some] on])
    have "handleRetry audit a t1 err \<noteq> None"
      using handleRetry_no_panic [of t1] er(1) Cons.prems(1,2) by simp
    then obtain again t2 ev2 where h: "handleRetry audit a t1 err = Some (again, t2, ev2)" by auto
    have step: "executeTaskLoop audit (a # as) t =
        (if again then (case executeTaskLoop audit as t2 of (r, ev') \<Rightarrow> (r, ev @ ev2 @ ev'))
         else (Returned t2, ev @ ev2))"
      using ctx Cons.prems(3) e Some off h by simp
    show ?thesis
    proof (cases again)
      case True
      with h have "handleRetry audit a t1 err = Some (True, t2, ev2)" by simp
      note ha = handleRetry_again [OF this]
      have rc: "t_RetryCount t2 = t_RetryCount t + 1"
        using ha(1) er(1) Cons.prems(1,2) by (simp add: wrap64_id is_int64_def)
      have "\<exists>t' ev. executeTaskLoop audit as t2 = (Returned t', ev @ [TaskResult t']) \<and>
          t_TaskID t' = t_TaskID t2 \<and> (t_Status t' = TaskStatusSuccess \<and> t_RetryCount t' \<le> 3 \<or>
            t_Status t' = TaskStatusFailed \<and> 3 < t_RetryCount t')"
        using rc ha(2,3,5) er(3) Cons.prems by (intro Cons.IH) (auto simp: maxRetryCount_def)
      then obtain t' ev' where "executeTaskLoop audit as t2 = (Returned t', ev' @ [TaskResult t'])"
        "t_TaskID t' = t_TaskID t2" "t_Status t' = TaskStatusSuccess \<and> t_RetryCount t' \<le> 3 \<or>
            t_Status t' = TaskStatusFailed \<and> 3 < t_RetryCount t'" by blast
      with step True ha(4) er(2) show ?thesis by (intro exI [of _ t'] exI [of _ "ev @ ev2 @ ev'"]) simp
    next
      case False
      with h have "handleRetry audit a t1 err = Some (False, t2, ev2)" by simp
      note hs = handleRetry_stop [OF this ctx(3)]
      from hs(2) obtain ev0 where "ev2 = ev0 @ [TaskResult t2]" by blast
      with step False have "executeTaskLoop audit (a # as) t = (Returned t2, (ev @ ev0) @ [TaskResult t2])"
        by simp
      with hs(1,3,4) er(2) show ?thesis by (auto simp: maxRetryCount_def)
    qed
  qed
qed

section \<open>What is reported\<close>

definition results :: "exec_event list \<Rightarrow> PrintTask list" where
  "results ev = concat (map (\<lambda>e. case e of TaskResult t \<Rightarrow> [t] | _ \<Rightarrow> []) ev)"

lemma results_simps [simp]:
  "results [] = []" "results (TaskResult t # ev) = t # results ev"
  "results (AuditExecuted a b c d # ev) = results ev" "results (AuditRetry a b c d e # ev) = results ev"
  "results (ev @ ev') = results ev @ results ev'"
  by (simp_all add: results_def)

lemma set_results: "u \<in> set (results ev) \<longleftrightarrow> TaskResult u \<in> set ev"
  by (induction ev) (auto simp: results_def split: exec_event.splits)

lemma status_distinct: "TaskStatusFailed \<noteq> TaskStatusSuccess" "TaskStatusRetrying \<noteq> TaskStatusSuccess"
  "TaskStatusRunning \<noteq> TaskStatusSuccess" "TaskStatusPending \<noteq> TaskStatusSuccess"
  by (simp_all add: go_consts)

definition success_of :: "loop_end \<Rightarrow> PrintTask list" where
  "success_of r = (case r of Returned u \<Rightarrow> if t_Status u = TaskStatusSuccess then [u] else [] | _ \<Rightarrow> [])"

lemma handleRetry_not_success:
  "handleRetry audit a t err = Some (again, t2, ev) \<Longrightarrow> t_Status t2 \<noteq> TaskStatusSuccess"
  using status_distinct
  by (auto simp: handleRetry_def markTaskFailed_def Let_def split: option.splits if_splits)

lemma executeTask_err_status:
  "executeTask audit a t = (Some err, t1, ev) \<Longrightarrow> t_Status t \<noteq> TaskStatusSuccess \<Longrightarrow>
     t_Status t1 \<noteq> TaskStatusSuccess"
  using status_distinct
  by (auto simp: executeTask_def markTaskFailed_def Let_def split: option.splits if_splits sum.splits)

lemma loop_results:
  "executeTaskLoop audit as t = (r, ev) \<Longrightarrow> t_Status t \<noteq> TaskStatusSuccess \<Longrightarrow>
     \<exists>fs. results ev = fs @ success_of r \<and> (\<forall>u \<in> set fs. t_Status u = TaskStatusFailed)"
proof (induction as arbitrary: t r ev)
  case Nil
  then show ?case by (auto simp: success_of_def)
next
  case (Cons a as)
  obtain x t1 e1 where e: "executeTask audit a t = (x, t1, e1)" by (metis prod_cases3)
  show ?case
  proof (cases "at_done_head a \<or> TaskStatus_IsTerminal (t_Status t)")
    case True
    then have "executeTaskLoop audit (a # as) t = (Returned t, [])" by auto
    with Cons.prems show ?thesis by (simp add: success_of_def)
  next
    case head: False
    show ?thesis
    proof (cases x)
      case None
      note ok = executeTask_ok [OF e [unfolded None]]
      from ok(2) obtain ev0 where ev0: "e1 = ev0 @ [TaskResult t1]" "\<forall>u. TaskResult u \<notin> set ev0" by blast
      from ev0(2) have "results ev0 = []" using set_results [of _ ev0] by (cases "results ev0") auto
      with ev0 ok(1) Cons.prems(1) head e None show ?thesis by (auto simp: success_of_def)
    next
      case (Some err)
      note e' = e [unfolded Some]
      have f1: "\<forall>u \<in> set (results e1). t_Status u = TaskStatusFailed"
        using executeTask_err(4) [OF e'] by (simp add: set_results)
      have s1: "t_Status t1 \<noteq> TaskStatusSuccess"
        by (rule executeTask_err_status [OF e' Cons.prems(2)])
      consider "at_done_after a" | "\<not> at_done_after a" "isDeviceOfflineErr err"
        | "\<not> at_done_after a" "\<not> isDeviceOfflineErr err" by blast
      then show ?thesis
      proof cases
        case 1
        with Cons.prems(1) head e' f1 s1 show ?thesis by (auto simp: success_of_def)
      next
        case 2
        obtain r' ev' where l: "executeTaskLoop audit as t1 = (r', ev')" by fastforce
        show ?thesis
          using Cons.prems(1) head e' 2 l Cons.IH [OF l s1] f1 s1
          by (auto simp: success_of_def split: if_splits)
      next
        case 3
        show ?thesis
        proof (cases "handleRetry audit a t1 err")
          case None
          with Cons.prems(1) head e' 3 f1 show ?thesis by (auto simp: success_of_def)
        next
          case (Some h)
          obtain again t2 e2 where h: "handleRetry audit a t1 err = Some (again, t2, e2)"
            using Some by (metis prod_cases3)
          have f2: "\<forall>u \<in> set (results e2). t_Status u = TaskStatusFailed"
            using handleRetry_results [OF h] by (simp add: set_results)
          have s2: "t_Status t2 \<noteq> TaskStatusSuccess" by (rule handleRetry_not_success [OF h])
          obtain r' ev' where l: "executeTaskLoop audit as t2 = (r', ev')" by fastforce
          from Cons.IH [OF l s2] obtain fs where fs: "results ev' = fs @ success_of r'"
            "\<forall>u \<in> set fs. t_Status u = TaskStatusFailed" by blast
          have "(r, ev) = (if again then (r', e1 @ e2 @ ev') else (Returned t2, e1 @ e2))"
            using Cons.prems(1) head e' 3 h l by (cases again) simp_all
          with fs f1 f2 s2 show ?thesis
            by (cases again) (auto simp: success_of_def intro: exI [of _ "results e1 @ results e2 @ fs"])
        qed
      qed
    qed
  qed
qed

section \<open>Properties of a task's execution\<close>

text \<open>
  (C13) Every task is decided. A pending task with at most three retries behind it, whose device is
  not offline and while the agent is not shutting down, is finished after at most four minus its
  retry count passes of the loop: it ends as a success, or as a failure once the three retries are
  spent, and the last thing the loop does is to report that result.
\<close>

theorem task_is_decided:
  assumes "0 \<le> t_RetryCount t" "t_RetryCount t \<le> 3" "\<not> TaskStatus_IsTerminal (t_Status t)"
    and "\<forall>a \<in> set as. online_attempt (t_DeviceID t) a" "4 - t_RetryCount t \<le> int (length as)"
  shows "\<exists>t' ev. executeTaskLoop audit as t = (Returned t', ev @ [TaskResult t']) \<and>
    t_TaskID t' = t_TaskID t \<and>
    (t_Status t' = TaskStatusSuccess \<and> t_RetryCount t' \<le> 3 \<or>
     t_Status t' = TaskStatusFailed \<and> 3 < t_RetryCount t')"
  by (rule loop_ends [OF assms])

text \<open>
  Success is reported once and last. Whatever the attempts meet, the results reported for a task
  are failures, followed by one success exactly when the loop returned the task as a success.
\<close>

theorem success_reported_once:
  assumes "executeTaskLoop audit as t = (r, ev)" "t_Status t \<noteq> TaskStatusSuccess"
  shows "\<exists>fs. (\<forall>u \<in> set fs. t_Status u = TaskStatusFailed) \<and>
    results ev = fs @ (case r of Returned u \<Rightarrow> if t_Status u = TaskStatusSuccess then [u] else [] | _ \<Rightarrow> [])"
  using loop_results [OF assms] unfolding success_of_def by blast

lemma retry_backoff_values:
  assumes "1 \<le> k" "k \<le> maxRetryCount"
  shows "retry_backoff k = Some (5 * 2 ^ nat (k - 1) * Second)"
proof -
  have "k = 1 \<or> k = 2 \<or> k = 3" using assms by (auto simp: maxRetryCount_def)
  then show ?thesis
    by (auto simp: retry_backoff_def retryInitDelay_def retryMaxBackoff_def Second_def wrap64_def Let_def)
qed

text \<open>
  The retry schedule: the waits before the first, second and third retry are 5, 10 and 20
  seconds. There is no fourth, so that the cap of 300 seconds is never reached; and a retry count
  below 1, which is what a task sent with a negative count has, makes the shift amount negative, which
  is a run-time panic.
\<close>

theorem retry_schedule:
  "map retry_backoff [1..maxRetryCount] = map Some [5 * Second, 10 * Second, 20 * Second] \<and>
   list_all (\<lambda>k. the (retry_backoff k) < retryMaxBackoff) [1..maxRetryCount] \<and>
   (\<forall>k. (retry_backoff k = None) = (k < 1))"
proof -
  have r: "[1..maxRetryCount] = [1, 2, 3]" by (simp add: maxRetryCount_def upto_rec1)
  have b: "retry_backoff 1 = Some (5 * Second)" "retry_backoff 2 = Some (10 * Second)"
    "retry_backoff 3 = Some (20 * Second)"
    using retry_backoff_values by (simp_all add: maxRetryCount_def)
  show ?thesis unfolding r using retry_backoff_None by (simp add: b retryMaxBackoff_def Second_def)
qed

text \<open>
  A negative retry count stops the agent. A task that arrives with a negative \<open>retry_count\<close> and
  whose first attempt fails, on a device that is not offline, panics in \<open>handleRetry\<close>.
\<close>

theorem negative_retry_panics:
  assumes "t_RetryCount t < 0" "is_int64 (t_RetryCount t)" "\<not> TaskStatus_IsTerminal (t_Status t)"
    and "online_attempt (t_DeviceID t) a" "fst (executeTask audit a t) \<noteq> None"
  shows "fst (executeTaskLoop audit (a # as) t) = Panicked"
proof -
  obtain err t1 ev where e: "executeTask audit a t = (Some err, t1, ev)"
    using assms(5) by (metis fst_conv option.exhaust prod_cases3)
  note off = executeTask_not_offline [OF e assms(4)]
  have "wrap64 (t_RetryCount t1 + 1) = t_RetryCount t + 1"
    using executeTask_err(1) [OF e] assms(1,2) by (simp add: wrap64_id is_int64_def)
  then have "handleRetry audit a t1 err = None"
    using assms(1) retry_backoff_None [of "t_RetryCount t + 1"]
    by (simp add: handleRetry_def maxRetryCount_def Let_def)
  with e off assms(3,4) show ?thesis by (simp add: online_attempt_def)
qed

lemma missing_device_step:
  assumes "Manager_Get (at_manager a) (t_DeviceID t) = None"
  shows "\<exists>t1. executeTask audit a t =
      (Some (New ErrDeviceNotFound (''device '' @ t_DeviceID t @ '' not found'')), t1, [TaskResult t1]) \<and>
      t_Status t1 = TaskStatusFailed \<and> t_RetryCount t1 = t_RetryCount t \<and> t_DeviceID t1 = t_DeviceID t"
  using assms by (simp add: executeTask_def markTaskFailed_def Let_def)

lemma missing_device_loop:
  assumes "0 \<le> t_RetryCount t" "t_RetryCount t \<le> 3" "\<not> TaskStatus_IsTerminal (t_Status t)"
    and "\<forall>a \<in> set as. online_attempt (t_DeviceID t) a \<and> Manager_Get (at_manager a) (t_DeviceID t) = None"
    and "4 - t_RetryCount t \<le> int (length as)"
  shows "int (length (results (snd (executeTaskLoop audit as t)))) = 5 - t_RetryCount t"
  using assms
proof (induction as arbitrary: t)
  case (Cons a as)
  obtain t1 err where e: "executeTask audit a t = (Some err, t1, [TaskResult t1])"
    and t1: "t_RetryCount t1 = t_RetryCount t" "t_DeviceID t1 = t_DeviceID t"
    using missing_device_step [of a t audit] Cons.prems(4) by auto
  have on: "online_attempt (t_DeviceID t) a" using Cons.prems(4) by simp
  note off = executeTask_not_offline [OF e on]
  have ctx: "\<not> at_done_head a" "\<not> at_done_after a" "\<not> at_done_wait a" using on by (simp_all add: online_attempt_def)
  obtain again t2 ev2 where h: "handleRetry audit a t1 err = Some (again, t2, ev2)"
    using handleRetry_no_panic [of t1 audit a err] t1(1) Cons.prems(1,2) by (cases "handleRetry audit a t1 err") auto
  show ?case
  proof (cases again)
    case True
    with h have h': "handleRetry audit a t1 err = Some (True, t2, ev2)" by simp
    note ha = handleRetry_again [OF h']
    have r2: "results ev2 = []" using ha(6) set_results [of _ ev2] by (cases "results ev2") auto
    have rc: "t_RetryCount t2 = t_RetryCount t + 1"
      using ha(1) t1(1) Cons.prems(1,2) by (simp add: wrap64_id is_int64_def)
    have "int (length (results (snd (executeTaskLoop audit as t2)))) = 5 - t_RetryCount t2"
      using rc ha(2,3,5) t1(2) Cons.prems by (intro Cons.IH) (auto simp: maxRetryCount_def)
    then show ?thesis
      using ctx Cons.prems(3) e off h' rc r2 by (cases "executeTaskLoop audit as t2") simp
  next
    case False
    with h have h': "handleRetry audit a t1 err = Some (False, t2, ev2)" by simp
    have "3 < t_RetryCount t1 + 1"
      using h' ctx(3) t1(1) Cons.prems(1,2)
      by (auto simp: handleRetry_def maxRetryCount_def wrap64_id is_int64_def Let_def split: if_splits option.splits)
    then have rc: "t_RetryCount t = 3" using t1(1) Cons.prems(2) by simp
    have "results ev2 = [t2]"
      using h' ctx(3) by (auto simp: handleRetry_def Let_def split: if_splits option.splits)
    then show ?thesis using ctx Cons.prems(3) e off h' rc by simp
  qed
qed simp

text \<open>
  A task for an unknown device is retried like any other and reported as failed again and
  again: with the device missing at every attempt, a fresh task yields five failure reports instead of
  one, although the error is one the classification calls terminal.
\<close>

theorem missing_device_reported_five_times:
  assumes "t_RetryCount t = 0" "\<not> TaskStatus_IsTerminal (t_Status t)" "length as = 4"
    and "\<forall>a \<in> set as. online_attempt (t_DeviceID t) a \<and> Manager_Get (at_manager a) (t_DeviceID t) = None"
  shows "length (results (snd (executeTaskLoop audit as t))) = 5 \<and>
    IsTerminal (New ErrDeviceNotFound (''device '' @ t_DeviceID t @ '' not found''))"
proof -
  have "int (length (results (snd (executeTaskLoop audit as t)))) = 5 - t_RetryCount t"
    using assms by (intro missing_device_loop) auto
  then show ?thesis using assms(1) by (simp add: IsTerminal_def)
qed

text \<open>
  A task for an offline device is kept: as long as the device is registered and offline, the loop
  goes on, the task is unchanged, its retry count included, and nothing is reported.
\<close>

theorem offline_task_is_kept:
  assumes "\<not> TaskStatus_IsTerminal (t_Status t)"
    and "\<forall>a \<in> set as. offline_attempt (t_DeviceID t) a"
  shows "executeTaskLoop audit as t = (Running t, [])"
  using assms(2)
proof (induction as)
  case (Cons a as)
  then have a: "offline_attempt (t_DeviceID t) a" by simp
  then have "executeTask audit a t =
      (Some (New ErrDeviceOffline (''device '' @ t_DeviceID t @ '' offline'')), t, [])"
    by (auto simp: executeTask_def offline_attempt_def split: option.splits)
  with Cons a assms(1) show ?case by (simp add: offline_iff offline_attempt_def)
qed simp

section \<open>Witnesses\<close>

definition load_ok :: load_env where
  "load_ok = \<lparr>le_createtemp = None, le_write = None, le_reopen = None, le_open = (\<lambda>_. Inr (Inr [])), le_read = Inr\<rparr>"

definition att :: "Manager \<Rightarrow> attempt" where
  "att m = \<lparr>at_done_head = False, at_done_after = False, at_done_wait = False, at_manager = m, at_now = 9,
     at_env = env_up, at_load = load_ok\<rparr>"

definition m_dev :: "DeviceStatus \<Rightarrow> Manager" where
  "m_dev st = \<lparr>m_devices = [(''D01'', dev_A\<lparr>d_Status := st\<rparr>)]\<rparr>"

lemma att_sel [simp]:
  "at_done_head (att m) = False" "at_done_after (att m) = False" "at_done_wait (att m) = False"
  "at_manager (att m) = m" "at_now (att m) = 9" "at_env (att m) = env_up" "at_load (att m) = load_ok"
  by (simp_all add: att_def)

lemma get_none: "Manager_Get NewManager d = None"
  by (simp add: Manager_Get_def NewManager_def)

lemma online_none: "online_attempt d (att NewManager)"
  by (simp add: online_attempt_def get_none)

lemma task_B_sel: "t_RetryCount task_B = 0" "\<not> TaskStatus_IsTerminal (t_Status task_B)"
  "t_DeviceID task_B = ''D01''" "t_Status task_B \<noteq> TaskStatusSuccess"
  by (simp_all add: task_B_def zero_PrintTask_def status_distinct)

theorem task_is_decided_witness:
  "\<exists>t' ev. executeTaskLoop True (replicate 4 (att NewManager)) task_B = (Returned t', ev @ [TaskResult t']) \<and>
     t_TaskID t' = t_TaskID task_B \<and>
     (t_Status t' = TaskStatusSuccess \<and> t_RetryCount t' \<le> 3 \<or>
      t_Status t' = TaskStatusFailed \<and> 3 < t_RetryCount t')"
  using task_is_decided [of task_B "replicate 4 (att NewManager)" True] online_none task_B_sel by simp

theorem success_reported_once_witness:
  "\<exists>r ev fs. executeTaskLoop False (replicate 4 (att NewManager)) task_B = (r, ev) \<and>
     (\<forall>u \<in> set fs. t_Status u = TaskStatusFailed) \<and>
     results ev = fs @ (case r of Returned u \<Rightarrow> if t_Status u = TaskStatusSuccess then [u] else [] | _ \<Rightarrow> [])"
proof -
  obtain r ev where e: "executeTaskLoop False (replicate 4 (att NewManager)) task_B = (r, ev)" by fastforce
  from success_reported_once [OF e task_B_sel(4)] e show ?thesis by blast
qed

theorem missing_device_reported_five_times_witness:
  "length (results (snd (executeTaskLoop True (replicate 4 (att NewManager)) task_B))) = 5"
  using missing_device_reported_five_times [of task_B "replicate 4 (att NewManager)" True]
    online_none get_none task_B_sel by simp

theorem negative_retry_panics_witness:
  "fst (executeTaskLoop True [att NewManager] (task_B\<lparr>t_RetryCount := -1\<rparr>)) = Panicked"
proof (rule negative_retry_panics)
  show "fst (executeTask True (att NewManager) (task_B\<lparr>t_RetryCount := -1\<rparr>)) \<noteq> None"
    by (simp add: executeTask_def get_none Let_def)
qed (simp_all add: is_int64_def online_none task_B_sel)

theorem offline_task_is_kept_witness:
  "executeTaskLoop True (replicate 7 (att (m_dev DeviceStatusOffline))) task_B = (Running task_B, [])"
  using offline_task_is_kept [of task_B "replicate 7 (att (m_dev DeviceStatusOffline))" True] task_B_sel
  by (simp add: offline_attempt_def m_dev_def Manager_Get_def)

end
