(* ===== verification/Pipeline.thy ===== *)
theory Pipeline
  imports Executor
begin

text \<open>
  \<^verbatim>\<open>src/internal/executor/executor.go\<close>: what \<open>Start\<close> sets up between the task queue and the execution of a task, and the
  queue of one printer that the examples use. The steps of the goroutines are in \<open>Agent\<close>.
\<close>

section \<open>Starting the executor\<close>

text \<open>
  After \<open>Start\<close>: one consumer per device listed at that moment (\<open>ps_consumers\<close>), which dequeues a
  task, holds it and sends it into the channel \<open>taskCh\<close>, whose capacity is the number of workers; each
  worker receives a task and executes it.
\<close>

record 'db pipe =
  ps_queue :: "'db Queue"
  ps_hold :: "string \<rightharpoonup> PrintTask"
  ps_chan :: "PrintTask list"
  ps_running :: "PrintTask list"
  ps_consumers :: "string set"
  ps_workers :: nat

definition Executor_Start :: "'db Queue \<Rightarrow> Manager \<Rightarrow> int \<Rightarrow> 'db pipe" where
  "Executor_Start q m workerCount =
     \<lparr>ps_queue = q, ps_hold = Map.empty, ps_chan = [], ps_running = [],
      ps_consumers = set (map d_DeviceID (Manager_List m)),
      ps_workers = (if workerCount \<le> 0 then defaultWorkerCount else nat workerCount)\<rparr>"

text \<open>The tasks of one device, in order.\<close>

definition of_dev :: "string \<Rightarrow> PrintTask list \<Rightarrow> PrintTask list" where
  "of_dev d ts = filter (\<lambda>t. t_DeviceID t = d) ts"

lemma of_dev_simps [simp]:
  "of_dev d [] = []" "of_dev d (xs @ ys) = of_dev d xs @ of_dev d ys"
  "of_dev d (t # ts) = (if t_DeviceID t = d then [t] else []) @ of_dev d ts"
  by (simp_all add: of_dev_def)

lemma of_dev_all: "\<forall>t \<in> set ts. t_DeviceID t = d \<Longrightarrow> of_dev d ts = ts"
  by (simp add: of_dev_def)

section \<open>The queue of one printer\<close>

text \<open>What enqueueing and dequeueing a pending task do to a device's list, in a queue without repository.\<close>

definition q_with :: "PrintTask list \<Rightarrow> mem_db Queue" where
  "q_with ts = \<lparr>q_queues = [''D01'' \<mapsto> \<lparr>dq_tasks = ts, dq_closed = False\<rparr>], q_capacity = 100,
     q_repo = None, q_closed = False\<rparr>"

lemma enqueue_q_with:
  assumes "t_DeviceID t = ''D01''" "t_TaskID t \<noteq> []" "length ts < 100" "enqueue_clone 5 t = t"
  shows "Queue_Enqueue mem_bbolt AB_gob 5 (q_with ts) (Some t) = (None, q_with (ts @ [t]))"
  using assms
  by (simp add: Queue_Enqueue_def q_with_def Queue_getOrCreate_def set_dq_def)

lemma enqueue_new:
  assumes "t_DeviceID t = ''D01''" "t_TaskID t \<noteq> []" "enqueue_clone 5 t = t"
  shows "Queue_Enqueue mem_bbolt AB_gob 5 (NewQueue 100 None) (Some t) = (None, q_with [t])"
  using assms
  by (simp add: Queue_Enqueue_def q_with_def Queue_getOrCreate_def set_dq_def NewQueue_def newDeviceQueue_def)

lemma dequeue_q_with: "Queue_Dequeue (q_with (t # ts)) ''D01'' = (Some (Inr t), q_with ts)"
  by (simp add: Queue_Dequeue_def q_with_def Queue_getOrCreate_def set_dq_def dq_pass_def)

definition task_C :: PrintTask where
  "task_C = task_B\<lparr>t_TaskID := ''C''\<rparr>"

lemma tasks_BC: "enqueue_clone 5 task_B = task_B" "enqueue_clone 5 task_C = task_C"
  "t_DeviceID task_B = ''D01''" "t_DeviceID task_C = ''D01''" "t_TaskID task_B \<noteq> []" "t_TaskID task_C \<noteq> []"
  by (simp_all add: enqueue_clone_def IsZero_def task_C_def task_B_def go_consts)

end
