(* ===== verification/Agent.thy ===== *)
theory Agent
  imports Dispatcher Pipeline Reporter
begin

text \<open>
  The way of a task through the agent: from the message of the cloud (\<^verbatim>\<open>cloudlink/dispatcher.go\<close>) through
  the queue, the consumers and the workers (\<^verbatim>\<open>executor/executor.go\<close>), pass by pass through the execution
  (\<^verbatim>\<open>executor/execute.go\<close>, \<^verbatim>\<open>retry.go\<close>) to the reports (\<^verbatim>\<open>cloudlink/reporter.go\<close>), as the goroutines that
  \<open>Run\<close> starts interleave. Everything else that uses the reporter (heartbeat, reconnect, domain update) is
  the step \<open>cloud\<close>, which may do with it whatever they can.
\<close>

section \<open>The composed agent\<close>

text \<open>
  \<open>ag_consumers\<close> are the devices that got a consumer at the start, \<open>ag_active\<close> those whose consumer has not
  returned; \<open>ag_workers\<close> is the number of workers started and the capacity of the channel, \<open>ag_live\<close> the number of
  workers that have not returned; \<open>ag_ctx\<close> tells whether the context of the executor is cancelled. The executor
  is started before \<open>Run\<close> registers its result callback: \<open>ag_cb\<close> tells whether it has. The rest is a history: the
  tasks accepted, cancelled and begun by a worker; the tasks a worker has decided, in their final state, and
  those of them that were decided before the callback was registered; the tasks a consumer dropped and those whose
  execution was broken off when the context was cancelled; and what was done with the reporter.
\<close>

record 'db Agent =
  ag_queue :: "'db Queue"
  ag_mgr :: Manager
  ag_hold :: "string \<rightharpoonup> PrintTask"
  ag_chan :: "PrintTask list"
  ag_running :: "PrintTask list"
  ag_consumers :: "string set"
  ag_active :: "string set"
  ag_workers :: nat
  ag_live :: nat
  ag_ctx :: bool
  ag_cb :: bool
  ag_rep :: Reporter
  ag_sent :: "Envelope list"
  ag_acks :: "Envelope list"
  ag_accepted :: "PrintTask list"
  ag_cancelled :: "PrintTask list"
  ag_started :: "PrintTask list"
  ag_done :: "PrintTask list"
  ag_early :: "PrintTask list"
  ag_dropped :: "PrintTask list"
  ag_broken :: "PrintTask list"
  ag_rops :: "rop list"

definition Agent_start :: "'db Queue \<Rightarrow> Manager \<Rightarrow> int \<Rightarrow> nat option \<Rightarrow> 'db Agent" where
  "Agent_start q m workerCount conn =
     (let p = Executor_Start q m workerCount
      in \<lparr>ag_queue = ps_queue p, ag_mgr = m, ag_hold = ps_hold p, ag_chan = ps_chan p, ag_running = ps_running p,
          ag_consumers = ps_consumers p, ag_active = ps_consumers p, ag_workers = ps_workers p, ag_live = ps_workers p,
          ag_ctx = False, ag_cb = False, ag_rep = NewReporter conn, ag_sent = [], ag_acks = [],
          ag_accepted = [], ag_cancelled = [], ag_started = [], ag_done = [], ag_early = [], ag_dropped = [],
          ag_broken = [], ag_rops = []\<rparr>)"

text \<open>What the dispatcher sees of the agent, and what its message means for the history.\<close>

definition ag_world :: "'db Agent \<Rightarrow> ('db Queue, Manager, unit) dworld" where
  "ag_world s = \<lparr>dw_queue = ag_queue s, dw_mgr = ag_mgr s, dw_sys = (), dw_out = ag_acks s\<rparr>"

abbreviation ag_ops :: "'db bbolt \<Rightarrow> gob \<Rightarrow> gotime \<Rightarrow> ('db Queue, Manager, unit) dops" where
  "ag_ops b g now \<equiv> agent_ops b g now None (\<lambda>u _ _ _. u)"

definition traced :: "Envelope \<Rightarrow> PrintTask \<Rightarrow> PrintTask" where
  "traced msg t = (if t_TraceID t = [] then t\<lparr>t_TraceID := e_TraceID msg\<rparr> else t)"

definition msg_accepted :: "'db bbolt \<Rightarrow> gob \<Rightarrow> decoders \<Rightarrow> gotime \<Rightarrow> Envelope \<Rightarrow> 'db Queue \<Rightarrow> PrintTask list" where
  "msg_accepted b g un now msg q =
     (if e_Type msg = ''task'' then
        (case un_task un (e_Payload msg) of
           Inl err \<Rightarrow> []
         | Inr t \<Rightarrow> if fst (Queue_Enqueue b g now q (Some (traced msg t))) = None
                    then [enqueue_clone now (traced msg t)] else [])
      else [])"

definition msg_cancelled :: "'db bbolt \<Rightarrow> gob \<Rightarrow> decoders \<Rightarrow> Envelope \<Rightarrow> 'db Queue \<Rightarrow> PrintTask list" where
  "msg_cancelled b g un msg q =
     (if e_Type msg = ''control'' then
        (case un_control un (e_Payload msg) of
           Inl err \<Rightarrow> []
         | Inr p \<Rightarrow> if ct_Action p = ''cancel'' \<and> fst (Queue_Cancel b g q (ct_DeviceID p) (ct_TaskID p)) = None
                    then take 1 (filter (\<lambda>t. t_TaskID t = ct_TaskID p) (Queue_ListPending q (ct_DeviceID p))) else [])
      else [])"

text \<open>The result callback of \<open>Run\<close>: one report per result, with the outcomes of the writes.\<close>

definition result_rops :: "gotime \<Rightarrow> goerror option list \<Rightarrow> exec_event list \<Rightarrow> rop list" where
  "result_rops now wrs ev = map2 ROpSend wrs (map (task_result_envelope now) (results ev))"

definition fired :: "'db Agent \<Rightarrow> gotime \<Rightarrow> goerror option list \<Rightarrow> exec_event list \<Rightarrow> rop list" where
  "fired s now wrs ev = (if ag_cb s then result_rops now wrs ev else [])"

fun still_running :: "loop_end \<Rightarrow> PrintTask list" where
  "still_running (Running t) = [t]"
| "still_running _ = []"

text \<open>How a pass ended the loop: with a decided task, or with one that the end of the context left undecided.\<close>

fun returned :: "loop_end \<Rightarrow> PrintTask list" where
  "returned (Returned t) = [t]"
| "returned _ = []"

definition decided :: "loop_end \<Rightarrow> PrintTask list" where
  "decided r = filter (\<lambda>t. TaskStatus_IsTerminal (t_Status t)) (returned r)"

definition undecided :: "loop_end \<Rightarrow> PrintTask list" where
  "undecided r = filter (\<lambda>t. \<not> TaskStatus_IsTerminal (t_Status t)) (returned r)"

definition sees_ctx_end :: "attempt \<Rightarrow> bool" where
  "sees_ctx_end a \<longleftrightarrow> at_done_head a \<or> at_done_after a \<or> at_done_wait a"

text \<open>
  The goroutines of the executor, each step with a label that says which one it is.

  A consumer (\<open>deviceConsumer\<close>) takes the next task of its device and hands it to the channel when there is
  room. It returns when \<open>Dequeue\<close> fails, when it finds the context cancelled at the head of its loop, and when
  the select after \<open>Dequeue\<close> takes the branch of the context: then the task it holds is gone. Both branches of that
  select may be open at once; a consumer that sends with the context cancelled finds so at the head of its
  loop and returns. One that checked the context before it was cancelled may still dequeue.

  A worker takes a task from the channel, or returns when the context is cancelled, again either way when both
  are possible (\<open>taskCh\<close> is never closed), and executes one pass of the task's loop at a time, with the registry as
  it is at that moment; a pass may find the context finished only when it is cancelled. A pass that panics ends the
  process, so there is no step for it.
\<close>

datatype exec_label = Dequeues string | DequeueFails string | Returns string | Sends string | Drops string
  | Receives | WorkerReturns | Works PrintTask attempt

inductive exec_step :: "bool \<Rightarrow> 'db Agent \<Rightarrow> exec_label \<Rightarrow> 'db Agent \<Rightarrow> bool" for audit where
  dequeue: "d \<in> ag_active s \<Longrightarrow> ag_hold s d = None \<Longrightarrow> Queue_Dequeue (ag_queue s) d = (Some (Inr t), q') \<Longrightarrow>
    exec_step audit s (Dequeues d) (s\<lparr>ag_queue := q', ag_hold := (ag_hold s)(d \<mapsto> t)\<rparr>)"
| dequeue_fails: "d \<in> ag_active s \<Longrightarrow> ag_hold s d = None \<Longrightarrow> Queue_Dequeue (ag_queue s) d = (Some (Inl e), q') \<Longrightarrow>
    exec_step audit s (DequeueFails d) (s\<lparr>ag_queue := q', ag_active := ag_active s - {d}\<rparr>)"
| return: "d \<in> ag_active s \<Longrightarrow> ag_hold s d = None \<Longrightarrow> ag_ctx s \<Longrightarrow>
    exec_step audit s (Returns d) (s\<lparr>ag_active := ag_active s - {d}\<rparr>)"
| send: "ag_hold s d = Some t \<Longrightarrow> length (ag_chan s) < ag_workers s \<Longrightarrow>
    exec_step audit s (Sends d) (s\<lparr>ag_hold := (ag_hold s)(d := None), ag_chan := ag_chan s @ [t],
      ag_active := (if ag_ctx s then ag_active s - {d} else ag_active s)\<rparr>)"
| drop: "ag_hold s d = Some t \<Longrightarrow> ag_ctx s \<Longrightarrow>
    exec_step audit s (Drops d) (s\<lparr>ag_hold := (ag_hold s)(d := None), ag_dropped := ag_dropped s @ [t],
      ag_active := ag_active s - {d}\<rparr>)"
| receive: "ag_chan s = t # ts \<Longrightarrow> length (ag_running s) < ag_live s \<Longrightarrow>
    exec_step audit s Receives (s\<lparr>ag_chan := ts, ag_running := ag_running s @ [t], ag_started := ag_started s @ [t]\<rparr>)"
| worker_return: "ag_ctx s \<Longrightarrow> length (ag_running s) < ag_live s \<Longrightarrow>
    exec_step audit s WorkerReturns (s\<lparr>ag_live := ag_live s - 1\<rparr>)"
| work: "ag_running s = us @ t # vs \<Longrightarrow> at_manager a = ag_mgr s \<Longrightarrow> sees_ctx_end a \<longrightarrow> ag_ctx s \<Longrightarrow>
    executeTaskLoop audit [a] t = (r, ev) \<Longrightarrow> r \<noteq> Panicked \<Longrightarrow> length wrs = length (results ev) \<Longrightarrow>
    rrun (ag_rep s) (fired s (at_now a) wrs ev) = (out, rep') \<Longrightarrow>
    exec_step audit s (Works t a) (s\<lparr>ag_running := us @ still_running r @ vs, ag_done := ag_done s @ decided r,
      ag_early := ag_early s @ (if ag_cb s then [] else decided r), ag_broken := ag_broken s @ undecided r,
      ag_rep := rep', ag_sent := ag_sent s @ out, ag_rops := ag_rops s @ fired s (at_now a) wrs ev\<rparr>)"

text \<open>
  The whole agent: the dispatcher handles a message, the executor takes a step, \<open>Run\<close> registers the
  callback, or something else uses the reporter. The link is started after the callback is registered. \<open>Run\<close> ends
  later still: \<open>Executor.Stop\<close> cancels the context, and so does the deferred \<open>cancel\<close> of \<open>Run\<close>; after that
  \<open>Stop\<close> closes the queue, and \<open>Shutdown\<close> closes it once more.
\<close>

inductive agent_step :: "'db bbolt \<Rightarrow> gob \<Rightarrow> decoders \<Rightarrow> bool \<Rightarrow> 'db Agent \<Rightarrow> 'db Agent \<Rightarrow> bool" for b g un audit where
  message: "handle (ag_ops b g now) un now wr msg (ag_world s) = w \<Longrightarrow> ag_cb s \<Longrightarrow>
    agent_step b g un audit s (s\<lparr>ag_queue := dw_queue w, ag_mgr := dw_mgr w, ag_acks := dw_out w,
      ag_accepted := ag_accepted s @ msg_accepted b g un now msg (ag_queue s),
      ag_cancelled := ag_cancelled s @ msg_cancelled b g un msg (ag_queue s)\<rparr>)"
| register: "agent_step b g un audit s (s\<lparr>ag_cb := True\<rparr>)"
| exec: "exec_step audit s l s' \<Longrightarrow> agent_step b g un audit s s'"
| cloud: "rstep (ag_rep s) x = (out, rep') \<Longrightarrow> ag_cb s \<Longrightarrow>
    agent_step b g un audit s (s\<lparr>ag_rep := rep', ag_sent := ag_sent s @ out, ag_rops := ag_rops s @ [x]\<rparr>)"
| cancel_ctx: "ag_cb s \<Longrightarrow> agent_step b g un audit s (s\<lparr>ag_ctx := True\<rparr>)"
| close: "ag_ctx s \<Longrightarrow> agent_step b g un audit s (s\<lparr>ag_queue := Queue_Close (ag_queue s)\<rparr>)"

section \<open>What one step does to the tasks\<close>

text \<open>The ids of a device's tasks, as a multiset: execution changes a task's state but not its ids.\<close>

definition ids :: "string \<Rightarrow> PrintTask list \<Rightarrow> string multiset" where
  "ids d ts = mset (map t_TaskID (of_dev d ts))"

lemma ids_simps [simp]:
  "ids d [] = {#}" "ids d (ts @ us) = ids d ts + ids d us"
  "ids d (t # ts) = (if t_DeviceID t = d then {#t_TaskID t#} else {#}) + ids d ts"
  by (simp_all add: ids_def)

lemma ids_all: "\<forall>t \<in> set ts. t_DeviceID t = d \<Longrightarrow> ids d ts = mset (map t_TaskID ts)"
  by (induction ts) auto

definition ag_held :: "'db Agent \<Rightarrow> string \<Rightarrow> PrintTask list" where
  "ag_held s d = (case ag_hold s d of None \<Rightarrow> [] | Some t \<Rightarrow> [t])"

text \<open>The tasks of a device on their way, in the order in which they are served.\<close>

definition flow :: "'db Agent \<Rightarrow> string \<Rightarrow> PrintTask list" where
  "flow s d = of_dev d (ag_started s) @ of_dev d (ag_chan s) @ ag_held s d @ Queue_ListPending (ag_queue s) d"

lemma ids_mset: "ids d ts = image_mset t_TaskID (mset (of_dev d ts))"
  by (simp add: ids_def)

lemma ended_split: "ids d (decided r) + ids d (undecided r) = ids d (returned r)"
  by (cases r) (simp_all add: decided_def undecided_def)

lemma pass_ids:
  assumes "executeTaskLoop audit [a] t = (r, ev)" "r \<noteq> Panicked"
  shows "ids d (still_running r) + ids d (returned r) = ids d [t]"
proof -
  have e: "t_TaskID t1 = t_TaskID t \<and> t_DeviceID t1 = t_DeviceID t" if "executeTask audit a t = (e, t1, ev1)" for e t1 ev1
    using that by (auto simp: executeTask_def markTaskFailed_def Let_def split: option.splits if_splits sum.splits)
  have h: "t_TaskID t2 = t_TaskID t1 \<and> t_DeviceID t2 = t_DeviceID t1"
    if "handleRetry audit a t1 err = Some (again, t2, ev2)" for t1 err again t2 ev2
    using that by (auto simp: handleRetry_def markTaskFailed_def Let_def split: option.splits if_splits)
  show ?thesis using assms
    by (auto split: if_splits prod.splits option.splits dest!: e h)
qed

text \<open>A positive acknowledgement of a task id.\<close>

definition pos_ack :: "string \<Rightarrow> Envelope \<Rightarrow> bool" where
  "pos_ack i e \<longleftrightarrow> (case e_Payload e of PTaskAck a \<Rightarrow> ta_TaskID a = i \<and> ta_Accepted a | _ \<Rightarrow> False)"

lemma enqueue_clone_retry [simp]: "t_RetryCount (enqueue_clone now t) = t_RetryCount t"
  by (simp add: enqueue_clone_def Let_def)

lemma traced_ids [simp]:
  "t_DeviceID (traced msg t) = t_DeviceID t" "t_TaskID (traced msg t) = t_TaskID t"
  "t_RetryCount (traced msg t) = t_RetryCount t"
  by (simp_all add: traced_def)

lemma handleTask_effect:
  assumes "e_Type msg = ''task''" "un_task un (e_Payload msg) = Inr t"
    "Queue_Enqueue b g now (dw_queue w) (Some (traced msg t)) = (e, q)"
  shows "handle (ag_ops b g now) un now wr msg w =
    sendTaskAck now wr (t_TaskID t) (e = None) (case e of None \<Rightarrow> [] | Some err \<Rightarrow> Error err) (w\<lparr>dw_queue := q\<rparr>)"
  using assms by (cases e) (simp_all add: handle_def handleTask_def traced_def Let_def)

lemma sendTaskAck_frame [simp]:
  "dw_queue (sendTaskAck now wr i acc reason w) = dw_queue w" "dw_mgr (sendTaskAck now wr i acc reason w) = dw_mgr w"
  by (simp_all add: sendTaskAck_def Let_def split: option.splits)

lemma sendTaskAck_out:
  "\<exists>new. dw_out (sendTaskAck now wr i acc reason w) = dw_out w @ new \<and>
     length (filter (pos_ack j) new) \<le> (if acc \<and> i = j then 1 else 0)"
  by (auto simp: sendTaskAck_def Let_def pos_ack_def NewEnvelope_def split: option.splits)

text \<open>The messages that change the queue: a task, or the cancellation of one.\<close>

lemma message_cases:
  assumes "handle (ag_ops b g now) un now wr msg w = w'"
  obtains (task) t where "e_Type msg = ''task''" "un_task un (e_Payload msg) = Inr t"
  | (cancel) p where "e_Type msg = ''control''" "un_control un (e_Payload msg) = Inr p" "ct_Action p = ''cancel''"
      "dw_queue w' = snd (Queue_Cancel b g (dw_queue w) (ct_DeviceID p) (ct_TaskID p))"
  | (other) "dw_queue w' = dw_queue w" "msg_accepted b g un now msg (dw_queue w) = []"
      "msg_cancelled b g un msg (dw_queue w) = []"
  using assms
  by (auto simp: handle_def handleTask_def handleDeviceAdd_def handleDeviceUpdate_def handleDeviceRemove_def
      handleControl_def handleConfigUpdate_def msg_accepted_def msg_cancelled_def split: if_splits sum.splits)

lemma subseq_drop_one: "subseq (us @ vs) (us @ t # vs)"
  by (metis list_emb_append_mono list_emb_Cons subseq_order.order_refl)

lemma message_flow:
  assumes "handle (ag_ops b g now) un now wr msg w = w'" "queue_inv (dw_queue w)"
  shows "subseq (Queue_ListPending (dw_queue w') d) (Queue_ListPending (dw_queue w) d @ of_dev d (msg_accepted b g un now msg (dw_queue w)))"
    "mset (Queue_ListPending (dw_queue w) d) + mset (of_dev d (msg_accepted b g un now msg (dw_queue w))) =
     mset (Queue_ListPending (dw_queue w') d) + mset (of_dev d (msg_cancelled b g un msg (dw_queue w)))"
proof -
  from assms(1) have "subseq (Queue_ListPending (dw_queue w') d) (Queue_ListPending (dw_queue w) d @ of_dev d (msg_accepted b g un now msg (dw_queue w))) \<and>
     mset (Queue_ListPending (dw_queue w) d) + mset (of_dev d (msg_accepted b g un now msg (dw_queue w))) =
     mset (Queue_ListPending (dw_queue w') d) + mset (of_dev d (msg_cancelled b g un msg (dw_queue w)))"
  proof (cases rule: message_cases)
    case (task t)
    obtain e q where e: "Queue_Enqueue b g now (dw_queue w) (Some (traced msg t)) = (e, q)" by fastforce
    have q: "dw_queue w' = q" unfolding assms(1) [symmetric] handleTask_effect [OF task e] by simp
    show ?thesis
      using Enqueue_accepted(6) [of b g now "dw_queue w" "traced msg t" q] Enqueue_rejected(1) [of b g now "dw_queue w" "traced msg t" _ q]
        e task q by (cases e) (auto simp: msg_accepted_def msg_cancelled_def)
  next
    case (cancel p)
    obtain e q where c: "Queue_Cancel b g (dw_queue w) (ct_DeviceID p) (ct_TaskID p) = (e, q)" by fastforce
    have q: "dw_queue w' = q" using cancel(4) c by simp
    show ?thesis
    proof (cases e)
      case None
      have dev: "\<forall>t \<in> set (Queue_ListPending (dw_queue w) (ct_DeviceID p)). t_DeviceID t = ct_DeviceID p"
        using assms(2) by (simp add: queue_inv_def)
      from Cancel_frame(1) [OF c None] obtain us t vs
        where p: "Queue_ListPending (dw_queue w) (ct_DeviceID p) = us @ t # vs" "t_TaskID t = ct_TaskID p"
          "\<forall>u \<in> set us. t_TaskID u \<noteq> ct_TaskID p"
          "Queue_ListPending q = (Queue_ListPending (dw_queue w))(ct_DeviceID p := us @ vs)" by blast
      have "take 1 (filter (\<lambda>t. t_TaskID t = ct_TaskID p) (Queue_ListPending (dw_queue w) (ct_DeviceID p))) = [t]"
        unfolding p(1) using p(2,3) by (intro filter_split_first) simp_all
      then have "msg_cancelled b g un msg (dw_queue w) = [t]" "msg_accepted b g un now msg (dw_queue w) = []"
        using c None cancel by (simp_all add: msg_accepted_def msg_cancelled_def)
      then show ?thesis using p q dev subseq_drop_one [of us vs t] by (cases "d = ct_DeviceID p") auto
    next
      case (Some err)
      then show ?thesis using Cancel_frame(2) [OF c Some] q c cancel by (simp add: msg_accepted_def msg_cancelled_def)
    qed
  qed simp
  then show "subseq (Queue_ListPending (dw_queue w') d) (Queue_ListPending (dw_queue w) d @ of_dev d (msg_accepted b g un now msg (dw_queue w)))"
    "mset (Queue_ListPending (dw_queue w) d) + mset (of_dev d (msg_accepted b g un now msg (dw_queue w))) =
     mset (Queue_ListPending (dw_queue w') d) + mset (of_dev d (msg_cancelled b g un msg (dw_queue w)))" by simp_all
qed

lemma Enqueue_keeps_closed:
  assumes "Queue_Enqueue b g now q (Some t) = (r, q')"
  shows "dev_closed q' = dev_closed q"
proof -
  obtain dq q1 where gc: "Queue_getOrCreate q (t_DeviceID t) = (dq, q1)" by fastforce
  have "dev_closed (set_dq q1 (t_DeviceID t) (dq\<lparr>dq_tasks := ts\<rparr>)) = dev_closed q" for ts
    using getOrCreate_frame [OF gc] by (auto simp: dev_closed_set_dq fun_eq_iff)
  then show ?thesis using assms getOrCreate_frame [OF gc]
    by (auto simp: Queue_Enqueue_def gc Let_def split: if_splits option.splits prod.splits)
qed

lemma Dequeue_fails_closed:
  assumes "Queue_Dequeue q d = (Some (Inl e), q')"
  shows "dev_closed q d" "Queue_ListPending q' = Queue_ListPending q"
proof -
  obtain dq q1 where gc: "Queue_getOrCreate q d = (dq, q1)" by fastforce
  show "dev_closed q d" using assms getOrCreate_frame [OF gc]
    by (auto simp: Queue_Dequeue_def gc dq_pass_def split: if_splits list.splits)
  show "Queue_ListPending q' = Queue_ListPending q" using Dequeue_frame(2) [OF assms] by simp
qed

lemma message_closed:
  assumes "handle (ag_ops b g now) un now wr msg w = w'"
  shows "dev_closed (dw_queue w') = dev_closed (dw_queue w)"
proof -
  from assms show ?thesis
  proof (cases rule: message_cases)
    case (task t)
    obtain e q where e: "Queue_Enqueue b g now (dw_queue w) (Some (traced msg t)) = (e, q)" by fastforce
    have "dw_queue w' = q" unfolding assms [symmetric] handleTask_effect [OF task e] by simp
    then show ?thesis using Enqueue_keeps_closed [OF e] by simp
  next
    case (cancel p)
    then show ?thesis using Cancel_closed by (metis prod.collapse)
  qed simp
qed

lemma message_acks:
  assumes "handle (ag_ops b g now) un now wr msg w = w'"
  shows "\<exists>new. dw_out w' = dw_out w @ new \<and> length (filter (pos_ack i) new) \<le>
    length (filter (\<lambda>t. t_TaskID t = i) (msg_accepted b g un now msg (dw_queue w)))"
proof (cases "e_Type msg = ''task''")
  case True
  show ?thesis
  proof (cases "un_task un (e_Payload msg)")
    case (Inl err)
    then have "w' = sendTaskAck now wr [] False ''bad payload'' w" using assms True by (simp add: handle_def handleTask_def)
    then show ?thesis using sendTaskAck_out [of now wr "[]" False "''bad payload''" w i] by auto
  next
    case (Inr t)
    obtain e q where e: "Queue_Enqueue b g now (dw_queue w) (Some (traced msg t)) = (e, q)" by fastforce
    have w': "w' = sendTaskAck now wr (t_TaskID t) (e = None) (case e of None \<Rightarrow> [] | Some err \<Rightarrow> Error err) (w\<lparr>dw_queue := q\<rparr>)"
      using handleTask_effect [OF True Inr e] assms by simp
    have "msg_accepted b g un now msg (dw_queue w) = (if e = None then [enqueue_clone now (traced msg t)] else [])"
      using True Inr e by (simp add: msg_accepted_def)
    then show ?thesis
      using sendTaskAck_out [of now wr "t_TaskID t" "e = None" "case e of None \<Rightarrow> [] | Some err \<Rightarrow> Error err" "w\<lparr>dw_queue := q\<rparr>" i]
      unfolding w' by auto
  qed
next
  case False
  then have "dw_out w' = dw_out w"
    using assms by (auto simp: handle_def handleDeviceAdd_def handleDeviceUpdate_def handleDeviceRemove_def
        handleControl_def handleConfigUpdate_def split: if_splits sum.splits)
  then show ?thesis by simp
qed

section \<open>The invariant\<close>

text \<open>The tasks of each device: in order, and complete.\<close>

definition flow_inv :: "'db Queue \<Rightarrow> 'db Agent \<Rightarrow> bool" where
  "flow_inv q0 s \<longleftrightarrow> (\<forall>d. subseq (flow s d) (Queue_ListPending q0 d @ of_dev d (ag_accepted s)) \<and>
     mset (Queue_ListPending q0 d) + mset (of_dev d (ag_accepted s)) =
       mset (flow s d) + mset (of_dev d (ag_cancelled s)) + mset (of_dev d (ag_dropped s)))"

text \<open>The goroutines: who holds what, and that none has returned while the agent works.\<close>

definition crew_inv :: "'db Agent \<Rightarrow> bool" where
  "crew_inv s \<longleftrightarrow> length (ag_chan s) \<le> ag_workers s \<and> length (ag_running s) \<le> ag_live s \<and> ag_live s \<le> ag_workers s \<and>
     ag_active s \<subseteq> ag_consumers s \<and>
     (\<forall>d t. ag_hold s d = Some t \<longrightarrow> t_DeviceID t = d \<and> d \<in> ag_active s) \<and>
     (\<forall>t \<in> set (ag_chan s) \<union> set (ag_started s) \<union> set (ag_running s) \<union> set (ag_done s) \<union> set (ag_dropped s).
        t_DeviceID t \<in> ag_consumers s) \<and>
     (\<not> ag_ctx s \<longrightarrow> ag_dropped s = [] \<and> ag_broken s = [] \<and> ag_live s = ag_workers s \<and>
        (\<forall>d \<in> ag_consumers s - ag_active s. dev_closed (ag_queue s) d))"

definition agent_inv :: "'db Queue \<Rightarrow> nat option \<Rightarrow> 'db Agent \<Rightarrow> bool" where
  "agent_inv q0 conn s \<longleftrightarrow> queue_inv (ag_queue s) \<and> mgr_inv (ag_mgr s) \<and> flow_inv q0 s \<and> crew_inv s \<and>
     (\<forall>d. ids d (ag_started s) = ids d (ag_running s) + ids d (ag_done s) + ids d (ag_broken s)) \<and>
     (\<forall>t \<in> set (ag_done s). TaskStatus_IsTerminal (t_Status t)) \<and>
     (\<forall>i. length (filter (pos_ack i) (ag_acks s)) \<le> length (filter (\<lambda>t. t_TaskID t = i) (ag_accepted s))) \<and>
     rrun (NewReporter conn) (ag_rops s) = (ag_sent s, ag_rep s)"

text \<open>A step that leaves the flow and the three lists as they are keeps the first part.\<close>

lemma flow_inv_same:
  assumes "flow_inv q0 s" "\<And>d. flow s' d = flow s d" "ag_accepted s' = ag_accepted s"
    "ag_cancelled s' = ag_cancelled s" "ag_dropped s' = ag_dropped s"
  shows "flow_inv q0 s'"
  using assms by (simp add: flow_inv_def)

lemma rrun_append: "rrun r xs = (o1, r1) \<Longrightarrow> rrun r1 ys = (o2, r2) \<Longrightarrow> rrun r (xs @ ys) = (o1 @ o2, r2)"
  by (induction xs arbitrary: r o1) (auto split: prod.splits)

lemma pass_dev:
  assumes "executeTaskLoop audit [a] t = (r, ev)" "r \<noteq> Panicked" "u \<in> set (still_running r) \<union> set (returned r)"
  shows "t_DeviceID u = t_DeviceID t"
  using pass_ids [OF assms(1,2), of "t_DeviceID u"] assms(3) by (cases r) (auto split: if_splits)

lemma start_inv: "queue_inv q \<Longrightarrow> mgr_inv m \<Longrightarrow> agent_inv q conn (Agent_start q m k conn)"
  by (simp add: agent_inv_def flow_inv_def flow_def crew_inv_def Agent_start_def Executor_Start_def ag_held_def Let_def)

lemma pass_decides:
  assumes "executeTaskLoop audit [a] t = (Returned t', ev)" "\<not> sees_ctx_end a"
  shows "TaskStatus_IsTerminal (t_Status t')"
proof -
  have ctx: "\<not> at_done_head a" "\<not> at_done_after a" "\<not> at_done_wait a" using assms(2) by (simp_all add: sees_ctx_end_def)
  obtain r t1 ev1 where e: "executeTask audit a t = (r, t1, ev1)" by (metis prod_cases3)
  show ?thesis
  proof (cases r)
    case None
    with assms(1) e ctx executeTask_ok(1) [of audit a t t1 ev1] show ?thesis by (auto split: if_splits)
  next
    case (Some err)
    with assms(1) e ctx handleRetry_stop(1) [of audit a t1 err t'] show ?thesis
      by (auto split: if_splits option.splits prod.splits)
  qed
qed

lemma undecided_ctx: "executeTaskLoop audit [a] t = (r, ev) \<Longrightarrow> \<not> sees_ctx_end a \<Longrightarrow> undecided r = []"
  using pass_decides [of audit a t _ ev] by (cases r) (simp_all add: undecided_def)

lemma flow_message:
  assumes "flow_inv q0 s" "subseq p' (Queue_ListPending (ag_queue s) d @ of_dev d acc)"
    "mset (Queue_ListPending (ag_queue s) d) + mset (of_dev d acc) = mset p' + mset (of_dev d can)"
  shows "subseq (of_dev d (ag_started s) @ of_dev d (ag_chan s) @ ag_held s d @ p')
      (Queue_ListPending q0 d @ of_dev d (ag_accepted s) @ of_dev d acc)"
    "mset (Queue_ListPending q0 d) + (mset (of_dev d (ag_accepted s)) + mset (of_dev d acc)) =
      mset (of_dev d (ag_started s) @ of_dev d (ag_chan s) @ ag_held s d @ p') +
      (mset (of_dev d (ag_cancelled s)) + mset (of_dev d can)) + mset (of_dev d (ag_dropped s))"
proof -
  let ?x = "of_dev d (ag_started s) @ of_dev d (ag_chan s) @ ag_held s d"
  have f: "subseq (?x @ Queue_ListPending (ag_queue s) d) (Queue_ListPending q0 d @ of_dev d (ag_accepted s))"
    "mset (Queue_ListPending q0 d) + mset (of_dev d (ag_accepted s)) =
     mset ?x + mset (Queue_ListPending (ag_queue s) d) + mset (of_dev d (ag_cancelled s)) + mset (of_dev d (ag_dropped s))"
    using assms(1) by (simp_all add: flow_inv_def flow_def ac_simps)
  have "subseq (?x @ p') (?x @ Queue_ListPending (ag_queue s) d @ of_dev d acc)"
    by (rule list_emb_append_mono [OF subseq_order.order_refl assms(2)])
  moreover have "subseq ((?x @ Queue_ListPending (ag_queue s) d) @ of_dev d acc)
      ((Queue_ListPending q0 d @ of_dev d (ag_accepted s)) @ of_dev d acc)"
    by (rule list_emb_append_mono [OF f(1) subseq_order.order_refl])
  ultimately show "subseq (of_dev d (ag_started s) @ of_dev d (ag_chan s) @ ag_held s d @ p')
      (Queue_ListPending q0 d @ of_dev d (ag_accepted s) @ of_dev d acc)"
    unfolding append_assoc by (rule subseq_order.order_trans)
  have "mset (Queue_ListPending q0 d) + (mset (of_dev d (ag_accepted s)) + mset (of_dev d acc)) =
      mset ?x + (mset (Queue_ListPending (ag_queue s) d) + mset (of_dev d acc)) + mset (of_dev d (ag_cancelled s)) +
      mset (of_dev d (ag_dropped s))"
    unfolding add.assoc [symmetric] f(2) by (simp only: ac_simps)
  then show "mset (Queue_ListPending q0 d) + (mset (of_dev d (ag_accepted s)) + mset (of_dev d acc)) =
      mset (of_dev d (ag_started s) @ of_dev d (ag_chan s) @ ag_held s d @ p') +
      (mset (of_dev d (ag_cancelled s)) + mset (of_dev d can)) + mset (of_dev d (ag_dropped s))"
    unfolding assms(3) by (simp add: ac_simps)
qed

lemma message_inv:
  assumes "handle (ag_ops b g now) un now wr msg (ag_world s) = w" "agent_inv q0 conn s"
  shows "agent_inv q0 conn (s\<lparr>ag_queue := dw_queue w, ag_mgr := dw_mgr w, ag_acks := dw_out w,
      ag_accepted := ag_accepted s @ msg_accepted b g un now msg (ag_queue s),
      ag_cancelled := ag_cancelled s @ msg_cancelled b g un msg (ag_queue s)\<rparr>)" (is "agent_inv q0 conn ?s'")
proof -
  have inv: "queue_inv (dw_queue w)" "mgr_inv (dw_mgr w)"
    using agent.handle_inv [of "ag_world s" b g now None "\<lambda>u _ _ _. u" un now wr msg] assms
    by (simp_all add: agent_inv_def ag_world_def)
  have f: "flow_inv q0 s" "crew_inv s" using assms(2) by (simp_all add: agent_inv_def)
  have m: "subseq (Queue_ListPending (dw_queue w) d) (Queue_ListPending (ag_queue s) d @ of_dev d (msg_accepted b g un now msg (ag_queue s)))"
    "mset (Queue_ListPending (ag_queue s) d) + mset (of_dev d (msg_accepted b g un now msg (ag_queue s))) =
      mset (Queue_ListPending (dw_queue w) d) + mset (of_dev d (msg_cancelled b g un msg (ag_queue s)))" for d
    using message_flow [OF assms(1), of d] assms(2) by (simp_all add: ag_world_def agent_inv_def)
  have "flow_inv q0 ?s'"
    using flow_message [OF f(1) m] by (simp add: flow_inv_def flow_def ag_held_def)
  moreover have "crew_inv ?s'" using f(2) message_closed [OF assms(1)] by (simp add: crew_inv_def ag_world_def)
  moreover have "length (filter (pos_ack i) (dw_out w)) \<le>
      length (filter (\<lambda>t. t_TaskID t = i) (ag_accepted s)) + length (filter (\<lambda>t. t_TaskID t = i) (msg_accepted b g un now msg (ag_queue s)))" for i
  proof -
    obtain new where "dw_out w = ag_acks s @ new" "length (filter (pos_ack i) new) \<le>
        length (filter (\<lambda>t. t_TaskID t = i) (msg_accepted b g un now msg (ag_queue s)))"
      using message_acks [OF assms(1), of i] by (auto simp: ag_world_def)
    moreover have "length (filter (pos_ack i) (ag_acks s)) \<le> length (filter (\<lambda>t. t_TaskID t = i) (ag_accepted s))"
      using assms(2) by (simp add: agent_inv_def)
    ultimately show ?thesis by simp
  qed
  ultimately show ?thesis using assms(2) inv by (simp add: agent_inv_def)
qed

lemma dequeue_flow:
  assumes "agent_inv q0 conn s" "ag_hold s d = None" "Queue_Dequeue (ag_queue s) d = (Some (Inr t), q')"
  shows "t_DeviceID t = d" "flow (s\<lparr>ag_queue := q', ag_hold := (ag_hold s)(d \<mapsto> t)\<rparr>) c = flow s c" "queue_inv q'"
proof -
  have f: "Queue_ListPending (ag_queue s) d = t # Queue_ListPending q' d"
    "\<And>c. c \<noteq> d \<Longrightarrow> Queue_ListPending q' c = Queue_ListPending (ag_queue s) c"
    using Dequeue_frame(1) [OF assms(3) refl] by auto
  show "t_DeviceID t = d" using assms(1) f(1) unfolding agent_inv_def queue_inv_def by (metis list.set_intros(1))
  show "flow (s\<lparr>ag_queue := q', ag_hold := (ag_hold s)(d \<mapsto> t)\<rparr>) c = flow s c"
    using f assms(2) by (cases "c = d") (simp_all add: flow_def ag_held_def)
  show "queue_inv q'" using Dequeue_inv [of "ag_queue s" d] assms by (simp add: agent_inv_def)
qed

lemma drop_flow:
  assumes "flow_inv q0 s" "ag_hold s d = Some t" "t_DeviceID t = d"
  shows "flow_inv q0 (s\<lparr>ag_hold := (ag_hold s)(d := None), ag_dropped := ag_dropped s @ [t], ag_active := A\<rparr>)"
    (is "flow_inv q0 ?s'")
proof -
  have "subseq (flow ?s' c) (flow s c) \<and> mset (flow s c) = mset (flow ?s' c) + mset (of_dev c [t])" for c
  proof (cases "c = d")
    case True
    have "flow s d = (of_dev d (ag_started s) @ of_dev d (ag_chan s)) @ t # Queue_ListPending (ag_queue s) d"
      "flow ?s' d = (of_dev d (ag_started s) @ of_dev d (ag_chan s)) @ Queue_ListPending (ag_queue s) d"
      using assms(2) by (simp_all add: flow_def ag_held_def)
    then show ?thesis using True assms(3) subseq_drop_one [of "of_dev d (ag_started s) @ of_dev d (ag_chan s)"] by simp
  qed (use assms(3) in \<open>simp add: flow_def ag_held_def\<close>)
  then have "subseq (flow ?s' c) (Queue_ListPending q0 c @ of_dev c (ag_accepted s)) \<and>
      mset (Queue_ListPending q0 c) + mset (of_dev c (ag_accepted s)) =
      mset (flow ?s' c) + mset (of_dev c (ag_cancelled s)) + mset (of_dev c (ag_dropped s @ [t]))" for c
    using assms(1) subseq_order.order_trans [of "flow ?s' c" "flow s c"] unfolding flow_inv_def
    by (simp add: ac_simps)
  then show ?thesis by (simp add: flow_inv_def)
qed

lemma agent_inv_exec: "exec_step audit s l s' \<Longrightarrow> agent_inv q0 conn s \<Longrightarrow> agent_inv q0 conn s'"
proof (induction rule: exec_step.induct)
  case (dequeue d s t q')
  note f = dequeue_flow [OF dequeue.prems dequeue.hyps(2,3)]
  have "flow_inv q0 s" using dequeue.prems by (simp add: agent_inv_def)
  then have "flow_inv q0 (s\<lparr>ag_queue := q', ag_hold := (ag_hold s)(d \<mapsto> t)\<rparr>)" by (rule flow_inv_same) (simp_all add: f(2))
  then show ?case using dequeue f(1,3) Dequeue_closed [OF dequeue.hyps(3)] by (simp add: agent_inv_def crew_inv_def)
next
  case (dequeue_fails d s e q')
  note c = Dequeue_fails_closed [OF dequeue_fails.hyps(3)] Dequeue_closed [OF dequeue_fails.hyps(3)]
  have "queue_inv q'" using Dequeue_inv [of "ag_queue s" d] dequeue_fails by (simp add: agent_inv_def)
  moreover have "flow_inv q0 (s\<lparr>ag_queue := q', ag_active := ag_active s - {d}\<rparr>)"
    using dequeue_fails.prems c(2) by (auto simp: agent_inv_def flow_def ag_held_def intro: flow_inv_same)
  moreover have "crew_inv (s\<lparr>ag_queue := q', ag_active := ag_active s - {d}\<rparr>)"
    using dequeue_fails.prems dequeue_fails.hyps(2) c(1,3) by (auto simp: agent_inv_def crew_inv_def)
  ultimately show ?case using dequeue_fails.prems by (simp add: agent_inv_def)
next
  case (return d s)
  have "flow_inv q0 (s\<lparr>ag_active := ag_active s - {d}\<rparr>)"
    using return.prems by (auto simp: agent_inv_def flow_def ag_held_def intro: flow_inv_same)
  moreover have "crew_inv (s\<lparr>ag_active := ag_active s - {d}\<rparr>)"
    using return by (auto simp: agent_inv_def crew_inv_def)
  ultimately show ?case using return.prems by (simp add: agent_inv_def)
next
  case (send s d t)
  then have t: "t_DeviceID t = d" "d \<in> ag_consumers s" by (auto simp: agent_inv_def crew_inv_def)
  let ?s' = "s\<lparr>ag_hold := (ag_hold s)(d := None), ag_chan := ag_chan s @ [t],
      ag_active := (if ag_ctx s then ag_active s - {d} else ag_active s)\<rparr>"
  have "flow ?s' c = flow s c" for c
    using send.hyps(1) t by (cases "c = d") (simp_all add: flow_def ag_held_def)
  then have "flow_inv q0 ?s'" using send.prems by (auto simp: agent_inv_def intro: flow_inv_same)
  moreover have "crew_inv ?s'" using send t by (auto simp: agent_inv_def crew_inv_def)
  ultimately show ?case using send.prems by (simp add: agent_inv_def)
next
  case (drop s d t)
  then have t: "t_DeviceID t = d" by (auto simp: agent_inv_def crew_inv_def)
  let ?s' = "s\<lparr>ag_hold := (ag_hold s)(d := None), ag_dropped := ag_dropped s @ [t], ag_active := ag_active s - {d}\<rparr>"
  have "flow_inv q0 ?s'" using drop.prems drop.hyps(1) t by (intro drop_flow) (simp_all add: agent_inv_def)
  moreover have "crew_inv ?s'" using drop by (auto simp: agent_inv_def crew_inv_def)
  ultimately show ?case using drop.prems by (simp add: agent_inv_def)
next
  case (receive s t ts)
  let ?s' = "s\<lparr>ag_chan := ts, ag_running := ag_running s @ [t], ag_started := ag_started s @ [t]\<rparr>"
  have "flow ?s' c = flow s c" for c using receive.hyps(1) by (simp add: flow_def ag_held_def)
  then have "flow_inv q0 ?s'" using receive.prems by (auto simp: agent_inv_def intro: flow_inv_same)
  moreover have "crew_inv ?s'" using receive by (auto simp: agent_inv_def crew_inv_def)
  ultimately show ?case using receive.prems by (simp add: agent_inv_def ac_simps)
next
  case (worker_return s)
  have "flow_inv q0 (s\<lparr>ag_live := ag_live s - 1\<rparr>)"
    using worker_return.prems by (auto simp: agent_inv_def flow_def ag_held_def intro: flow_inv_same)
  then show ?case using worker_return by (auto simp: agent_inv_def crew_inv_def)
next
  case (work s us t vs a r ev wrs out rep')
  let ?s' = "s\<lparr>ag_running := us @ still_running r @ vs, ag_done := ag_done s @ decided r,
      ag_early := ag_early s @ (if ag_cb s then [] else decided r), ag_broken := ag_broken s @ undecided r,
      ag_rep := rep', ag_sent := ag_sent s @ out, ag_rops := ag_rops s @ fired s (at_now a) wrs ev\<rparr>"
  have "flow_inv q0 ?s'"
    using work.prems by (auto simp: agent_inv_def flow_def ag_held_def intro: flow_inv_same)
  moreover have "ids c (ag_started ?s') = ids c (ag_running ?s') + ids c (ag_done ?s') + ids c (ag_broken ?s')" for c
  proof -
    have "ids c (ag_started s) = ids c us + ids c [t] + ids c vs + ids c (ag_done s) + ids c (ag_broken s)"
      using work.hyps(1) work.prems by (simp add: agent_inv_def ac_simps)
    also have "ids c [t] = ids c (still_running r) + (ids c (decided r) + ids c (undecided r))"
      using pass_ids [OF work.hyps(4,5), of c] ended_split [of c r] by simp
    finally show ?thesis by (simp add: ac_simps)
  qed
  moreover have "rrun (NewReporter conn) (ag_rops ?s') = (ag_sent ?s', ag_rep ?s')"
    using work rrun_append by (auto simp: agent_inv_def)
  moreover have "crew_inv ?s'"
  proof -
    have "length (still_running r) \<le> 1" by (cases r) auto
    moreover have "\<forall>u \<in> set (still_running r) \<union> set (decided r). t_DeviceID u \<in> ag_consumers s"
      using pass_dev [OF work.hyps(4,5)] work.hyps(1) work.prems by (auto simp: agent_inv_def crew_inv_def decided_def)
    moreover have "\<not> ag_ctx s \<Longrightarrow> undecided r = []" using undecided_ctx [OF work.hyps(4)] work.hyps(3) by blast
    ultimately show ?thesis using work.prems work.hyps(1) by (auto simp: agent_inv_def crew_inv_def)
  qed
  moreover have "\<forall>u \<in> set (decided r). TaskStatus_IsTerminal (t_Status u)" by (simp add: decided_def)
  ultimately show ?case using work.prems by (auto simp: agent_inv_def)
qed

lemma agent_inv_step: "agent_step b g un audit s s' \<Longrightarrow> agent_inv q0 conn s \<Longrightarrow> agent_inv q0 conn s'"
proof (induction rule: agent_step.induct)
  case (message now wr msg s w)
  then show ?case by (intro message_inv)
next
  case (register s)
  have "flow_inv q0 (s\<lparr>ag_cb := True\<rparr>)" using register by (auto simp: agent_inv_def flow_def ag_held_def intro: flow_inv_same)
  then show ?case using register by (simp add: agent_inv_def crew_inv_def)
next
  case (exec s l s')
  then show ?case by (rule agent_inv_exec)
next
  case (cloud s x out rep')
  have "flow_inv q0 (s\<lparr>ag_rep := rep', ag_sent := ag_sent s @ out, ag_rops := ag_rops s @ [x]\<rparr>)"
    using cloud.prems by (auto simp: agent_inv_def flow_def ag_held_def intro: flow_inv_same)
  moreover have "rrun (NewReporter conn) (ag_rops s @ [x]) = (ag_sent s @ out, rep')"
    using cloud by (intro rrun_append) (auto simp: agent_inv_def)
  ultimately show ?case using cloud by (simp add: agent_inv_def crew_inv_def)
next
  case (cancel_ctx s)
  have "flow_inv q0 (s\<lparr>ag_ctx := True\<rparr>)" using cancel_ctx.prems by (auto simp: agent_inv_def flow_def ag_held_def intro: flow_inv_same)
  then show ?case using cancel_ctx.prems by (simp add: agent_inv_def crew_inv_def)
next
  case (close s)
  have "flow_inv q0 (s\<lparr>ag_queue := Queue_Close (ag_queue s)\<rparr>)"
    using close.prems by (auto simp: agent_inv_def flow_def ag_held_def intro: flow_inv_same)
  then show ?case using close Close_inv [of "ag_queue s"] by (simp add: agent_inv_def crew_inv_def)
qed

lemma agent_inv_reachable: "(agent_step b g un audit)\<^sup>*\<^sup>* s s' \<Longrightarrow> agent_inv q0 conn s \<Longrightarrow> agent_inv q0 conn s'"
  by (induction rule: rtranclp_induct) (auto intro: agent_inv_step)

lemma reachable_frame:
  assumes "(agent_step b g un audit)\<^sup>*\<^sup>* (Agent_start q m k conn) s"
  shows "ag_consumers s = set (map d_DeviceID (Manager_List m))" "finite (ag_consumers s)" "0 < ag_workers s"
    "ag_workers s = (if k \<le> 0 then defaultWorkerCount else nat k)"
proof -
  have e: "ag_consumers s' = ag_consumers s \<and> ag_workers s' = ag_workers s" if "exec_step audit s l s'" for s s' l
    using that by (induction rule: exec_step.induct) simp_all
  have f: "ag_consumers s' = ag_consumers s \<and> ag_workers s' = ag_workers s" if "agent_step b g un audit s s'" for s s'
    using that by (induction rule: agent_step.induct) (simp_all add: e)
  from assms have "ag_consumers s = ag_consumers (Agent_start q m k conn) \<and> ag_workers s = ag_workers (Agent_start q m k conn)"
    by (induction rule: rtranclp_induct) (simp_all add: f)
  then show "ag_consumers s = set (map d_DeviceID (Manager_List m))" "finite (ag_consumers s)" "0 < ag_workers s"
    "ag_workers s = (if k \<le> 0 then defaultWorkerCount else nat k)"
    by (simp_all add: Agent_start_def Executor_Start_def defaultWorkerCount_def Let_def)
qed

lemma held_dev: "crew_inv s \<Longrightarrow> of_dev d (ag_held s d) = ag_held s d"
  by (auto simp: crew_inv_def ag_held_def split: option.splits)

lemma pending_dev: "queue_inv q \<Longrightarrow> of_dev d (Queue_ListPending q d) = Queue_ListPending q d"
  by (intro of_dev_all) (simp add: queue_inv_def)

text \<open>The account of the ids, from the account of the tasks on their way and of those begun.\<close>

lemma ids_account:
  assumes "agent_inv q conn s" "queue_inv q"
  shows "ids d (Queue_ListPending q d) + ids d (ag_accepted s) =
    ids d (Queue_ListPending (ag_queue s) d) + ids d (ag_held s d) + ids d (ag_chan s) + ids d (ag_running s) +
    ids d (ag_done s) + ids d (ag_cancelled s) + ids d (ag_dropped s) + ids d (ag_broken s)"
proof -
  have i: "flow_inv q s" "crew_inv s" "queue_inv (ag_queue s)" using assms(1) by (simp_all add: agent_inv_def)
  have "mset (Queue_ListPending q d) + mset (of_dev d (ag_accepted s)) =
      mset (flow s d) + mset (of_dev d (ag_cancelled s)) + mset (of_dev d (ag_dropped s))"
    using i(1) by (simp add: flow_inv_def)
  then have "image_mset t_TaskID (mset (Queue_ListPending q d) + mset (of_dev d (ag_accepted s))) =
      image_mset t_TaskID (mset (flow s d) + mset (of_dev d (ag_cancelled s)) + mset (of_dev d (ag_dropped s)))"
    by (rule arg_cong)
  then have "ids d (Queue_ListPending q d) + ids d (ag_accepted s) = ids d (ag_started s) + ids d (ag_chan s) +
      ids d (ag_held s d) + ids d (Queue_ListPending (ag_queue s) d) + ids d (ag_cancelled s) + ids d (ag_dropped s)"
    using pending_dev [OF assms(2), of d] pending_dev [OF i(3), of d] held_dev [OF i(2), of d]
    by (simp add: ids_mset flow_def ac_simps)
  also have "ids d (ag_started s) = ids d (ag_running s) + ids d (ag_done s) + ids d (ag_broken s)"
    using assms(1) by (simp add: agent_inv_def)
  finally show ?thesis by (simp add: ac_simps)
qed

section \<open>Properties\<close>

text \<open>
  (C3) The agent accounts for every task. In every state reachable from the start, whatever the cloud sends, however the
  goroutines interleave, and however far a shutdown has got, the ids of a device's tasks that were pending at the
  start or accepted since are exactly, with multiplicities, those pending, held by its consumer, in the
  channel, being executed, decided, cancelled, dropped by the consumer or broken off undecided: none vanishes
  in any other way and none is executed twice. As long as no shutdown has begun none is dropped or broken off. The cloud has never
  more positive acknowledgements of an id than tasks with it were accepted, at most as many tasks are executed,
  and wait in the channel, as there are workers; and once all goroutines of the executor have returned, none is
  held or being executed.
\<close>

theorem agent_accounts_for_every_task:
  assumes "queue_inv q" "mgr_inv m" "(agent_step b g un audit)\<^sup>*\<^sup>* (Agent_start q m k conn) s"
  shows "ids d (Queue_ListPending q d) + ids d (ag_accepted s) =
      ids d (Queue_ListPending (ag_queue s) d) + ids d (ag_held s d) + ids d (ag_chan s) + ids d (ag_running s) +
      ids d (ag_done s) + ids d (ag_cancelled s) + ids d (ag_dropped s) + ids d (ag_broken s) \<and>
    (\<forall>t \<in> set (ag_done s). TaskStatus_IsTerminal (t_Status t)) \<and>
    (\<not> ag_ctx s \<longrightarrow> ag_dropped s = [] \<and> ag_broken s = []) \<and>
    length (filter (pos_ack i) (ag_acks s)) \<le> length (filter (\<lambda>t. t_TaskID t = i) (ag_accepted s)) \<and>
    length (ag_running s) \<le> ag_workers s \<and> length (ag_chan s) \<le> ag_workers s \<and>
    (ag_active s = {} \<and> ag_live s = 0 \<longrightarrow> ag_hold s = Map.empty \<and> ag_running s = [])"
proof -
  have i: "agent_inv q conn s" using agent_inv_reachable [OF assms(3) start_inv [OF assms(1,2)]] .
  then have c: "crew_inv s" by (simp add: agent_inv_def)
  have "ag_hold s = Map.empty" if "ag_active s = {}"
    using c that by (intro ext) (metis crew_inv_def empty_iff not_None_eq)
  moreover have "ag_running s = []" if "ag_live s = 0" using c that by (simp add: crew_inv_def)
  moreover have "\<not> ag_ctx s \<longrightarrow> ag_dropped s = [] \<and> ag_broken s = []" "length (ag_running s) \<le> ag_workers s"
    "length (ag_chan s) \<le> ag_workers s" using c by (simp_all add: crew_inv_def)
  ultimately show ?thesis using ids_account [OF i assms(1), of d] i by (simp add: agent_inv_def)
qed

text \<open>
  (C11) The order of a device is kept. In every reachable state, with any tasks pending at the start, as after recovery, and
  with cancellations and shutdown, the tasks of a device that the workers have begun, then those in the
  channel, then the one its consumer holds, then those still pending, are in the order in which they came: first those pending
  at the start, then those accepted since. What is missing from that order is exactly what was
  cancelled and what the consumer dropped at a shutdown; without either, nothing is missing. Never more tasks run than there
  are workers.
\<close>

theorem pipeline_keeps_order:
  assumes "queue_inv q" "mgr_inv m" "(agent_step b g un audit)\<^sup>*\<^sup>* (Agent_start q m k conn) s"
    and "served = of_dev d (ag_started s) @ of_dev d (ag_chan s) @
      (case ag_hold s d of None \<Rightarrow> [] | Some t \<Rightarrow> [t]) @ Queue_ListPending (ag_queue s) d"
  shows "subseq served (Queue_ListPending q d @ of_dev d (ag_accepted s)) \<and>
    mset (Queue_ListPending q d @ of_dev d (ag_accepted s)) =
      mset served + mset (of_dev d (ag_cancelled s)) + mset (of_dev d (ag_dropped s)) \<and>
    (of_dev d (ag_cancelled s) = [] \<and> \<not> ag_ctx s \<longrightarrow> served = Queue_ListPending q d @ of_dev d (ag_accepted s)) \<and>
    length (ag_running s) \<le> ag_workers s \<and>
    ag_workers s = (if k \<le> 0 then defaultWorkerCount else nat k)"
proof -
  have "agent_inv q conn s" using agent_inv_reachable [OF assms(3) start_inv [OF assms(1,2)]] .
  then have i: "flow_inv q s" "crew_inv s" by (simp_all add: agent_inv_def)
  have sv: "served = flow s d" by (simp add: assms(4) flow_def ag_held_def)
  have sub: "subseq served (Queue_ListPending q d @ of_dev d (ag_accepted s))"
    and m: "mset (Queue_ListPending q d @ of_dev d (ag_accepted s)) =
      mset served + mset (of_dev d (ag_cancelled s)) + mset (of_dev d (ag_dropped s))"
    using i(1) unfolding sv by (simp_all add: flow_inv_def)
  have "served = Queue_ListPending q d @ of_dev d (ag_accepted s)" if "of_dev d (ag_cancelled s) = []" "\<not> ag_ctx s"
  proof (rule subseq_same_length [OF sub])
    have "ag_dropped s = []" using i(2) that(2) by (simp add: crew_inv_def)
    then show "length served = length (Queue_ListPending q d @ of_dev d (ag_accepted s))"
      using arg_cong [OF m, of size] that(1) by simp
  qed
  then show ?thesis using sub m i(2) reachable_frame(4) [OF assms(3)] by (simp add: crew_inv_def)
qed

text \<open>
  A device registered after the start is never served: only the devices listed at that moment have
  a consumer, so every accepted task of any other device stays pending unless it is cancelled.
\<close>

theorem late_device_never_served:
  assumes "queue_inv q" "mgr_inv m" "(agent_step b g un audit)\<^sup>*\<^sup>* (Agent_start q m k conn) s"
    and "d \<notin> set (map d_DeviceID (Manager_List m))"
  shows "of_dev d (ag_started s) = [] \<and>
    mset (Queue_ListPending q d @ of_dev d (ag_accepted s)) = mset (Queue_ListPending (ag_queue s) d) + mset (of_dev d (ag_cancelled s))"
proof -
  have i: "agent_inv q conn s" using agent_inv_reachable [OF assms(3) start_inv [OF assms(1,2)]] .
  then have c: "flow_inv q s" "crew_inv s" by (simp_all add: agent_inv_def)
  have d: "d \<notin> ag_consumers s" using reachable_frame(1) [OF assms(3)] assms(4) by simp
  have e: "of_dev d (ag_started s) = []" "of_dev d (ag_chan s) = []" "of_dev d (ag_dropped s) = []"
    using c(2) d by (auto simp: crew_inv_def of_dev_def filter_empty_conv)
  moreover have "ag_held s d = []"
  proof (cases "ag_hold s d")
    case (Some t)
    with c(2) d show ?thesis unfolding crew_inv_def by (meson subsetD)
  qed (simp add: ag_held_def)
  ultimately have "flow s d = Queue_ListPending (ag_queue s) d" by (simp add: flow_def)
  then show ?thesis using c(1) e by (simp add: flow_inv_def)
qed

section \<open>Witnesses\<close>

text \<open>A task with three retries behind it: the next pass decides it, whatever happens.\<close>

definition task_L :: PrintTask where
  "task_L = task_B\<lparr>t_RetryCount := 3, t_TraceID := ''t0''\<rparr>"

definition un_L :: decoders where
  "un_L = demo_un\<lparr>un_task := (\<lambda>_. Inr task_L)\<rparr>"

abbreviation m_up :: Manager where
  "m_up \<equiv> m_dev DeviceStatusOnline"

definition ag_0 :: "mem_db Agent" where
  "ag_0 = (Agent_start (NewQueue 100 None) m_up 1 (Some 1))\<lparr>ag_cb := True\<rparr>"

lemma task_L_sel:
  "t_DeviceID task_L = ''D01''" "t_TaskID task_L = ''B''" "enqueue_clone 5 task_L = task_L"
  "traced msg task_L = task_L"
  by (simp_all add: task_L_def task_B_sel traced_def enqueue_clone_def IsZero_def)
    (simp_all add: task_B_def go_consts)

lemma dev_A_valid: "valid_device dev_A"
  using ParseIP_dotted [of 10 0 0 9]
  by (auto simp: valid_device_def validate_None_iff dev_A_def dotted_A deviceIDPattern_def id_char_def)

lemma m_dev_inv: "mgr_inv (m_dev st)"
  using dev_A_valid by (simp add: m_dev_def mgr_inv_def) (simp add: dev_A_def)

lemma m_up_ids: "set (map d_DeviceID (Manager_List (m_dev st))) = {''D01''}"
  by (simp add: m_dev_def Manager_List_def dev_A_def)

lemma ag_0_sel: "ag_queue ag_0 = NewQueue 100 None" "ag_mgr ag_0 = m_up" "ag_hold ag_0 = Map.empty" "ag_chan ag_0 = []"
  "ag_running ag_0 = []" "ag_consumers ag_0 = {''D01''}" "ag_workers ag_0 = 1" "ag_accepted ag_0 = []" "ag_done ag_0 = []"
  "ag_acks ag_0 = []" "ag_cancelled ag_0 = []" "ag_cb ag_0" "ag_early ag_0 = []" "ag_active ag_0 = {''D01''}" "ag_live ag_0 = 1"
  "ag_dropped ag_0 = []" "\<not> ag_ctx ag_0"
  using m_up_ids [of DeviceStatusOnline] by (simp_all add: ag_0_def Agent_start_def Executor_Start_def Let_def)

lemma ag_0_message:
  "\<exists>s. agent_step mem_bbolt AB_gob un_L True ag_0 s \<and> ag_queue s = q_with [task_L] \<and> ag_mgr s = m_up \<and> ag_hold s = Map.empty \<and>
     ag_chan s = [] \<and> ag_running s = [] \<and> ag_consumers s = {''D01''} \<and> ag_workers s = 1 \<and> ag_accepted s = [task_L] \<and>
     ag_done s = [] \<and> ag_cancelled s = [] \<and> ag_cb s \<and> ag_early s = [] \<and> ag_active s = {''D01''} \<and> ag_live s = 1 \<and> ag_dropped s = [] \<and> \<not> ag_ctx s \<and>
     ag_acks s = [NewEnvelope 5 ''task_ack'' (PTaskAck \<lparr>ta_TaskID = ''B'', ta_Accepted = True, ta_Reason = []\<rparr>)]"
proof -
  have e: "Queue_Enqueue mem_bbolt AB_gob 5 (dw_queue (ag_world ag_0)) (Some (traced (demo_env ''task'') task_L)) = (None, q_with [task_L])"
    using enqueue_new [of task_L] task_L_sel by (simp add: ag_world_def ag_0_sel)
  have u: "un_task un_L (e_Payload (demo_env ''task'')) = Inr task_L" "e_Type (demo_env ''task'') = ''task''"
    by (simp_all add: un_L_def demo_env_def)
  note h = handleTask_effect [OF u(2,1) e, of None]
  have "msg_accepted mem_bbolt AB_gob un_L 5 (demo_env ''task'') (ag_queue ag_0) = [task_L]"
    using e u task_L_sel by (simp add: msg_accepted_def ag_world_def)
  moreover have "msg_cancelled mem_bbolt AB_gob un_L (demo_env ''task'') (ag_queue ag_0) = []"
    using u by (simp add: msg_cancelled_def)
  ultimately have acc: "msg_accepted mem_bbolt AB_gob un_L 5 (demo_env ''task'') (ag_queue ag_0) = [task_L]"
    "msg_cancelled mem_bbolt AB_gob un_L (demo_env ''task'') (ag_queue ag_0) = []" .
  let ?w = "sendTaskAck 5 None ''B'' True [] ((ag_world ag_0)\<lparr>dw_queue := q_with [task_L]\<rparr>)"
  let ?s = "ag_0\<lparr>ag_queue := dw_queue ?w, ag_mgr := dw_mgr ?w, ag_acks := dw_out ?w,
      ag_accepted := ag_accepted ag_0 @ [task_L], ag_cancelled := ag_cancelled ag_0 @ []\<rparr>"
  have "agent_step mem_bbolt AB_gob un_L True ag_0 ?s"
    using agent_step.message [OF h ag_0_sel(12), of True] unfolding acc task_L_sel by simp
  then show ?thesis
    by (intro exI [of _ ?s] conjI) (simp_all add: ag_0_sel ag_world_def sendTaskAck_def Let_def)
qed

lemma exec_reach:
  "exec_step audit s l s1 \<Longrightarrow> (agent_step b g un audit)\<^sup>*\<^sup>* s1 s' \<Longrightarrow> (agent_step b g un audit)\<^sup>*\<^sup>* s s'"
  by (rule converse_rtranclp_into_rtranclp) (rule agent_step.exec)

lemma step_reach:
  "agent_step b g un audit s s1 \<Longrightarrow> (agent_step b g un audit)\<^sup>*\<^sup>* s1 s' \<Longrightarrow> (agent_step b g un audit)\<^sup>*\<^sup>* s s'"
  by (rule converse_rtranclp_into_rtranclp)

lemma new_inv: "queue_inv (NewQueue 100 (None :: mem_db option))"
  by (rule NewQueue_inv)

lemma q_with_inv: "queue_inv (q_with [task_L])"
  using task_L_sel by (simp add: queue_inv_def q_with_def Queue_ListPending_def Queue_get_def)

text \<open>
  At a shutdown a task is lost that was accepted and positively acknowledged: the consumer that holds it when the
  context is cancelled returns without it. It is then neither pending nor held nor in the channel nor executed.
\<close>

theorem shutdown_drops_task:
  "\<exists>s :: mem_db Agent. (agent_step mem_bbolt AB_gob un_L True)\<^sup>*\<^sup>* (Agent_start (NewQueue 100 None) m_up 1 (Some 1)) s \<and>
     ag_accepted s = [task_L] \<and> length (filter (pos_ack ''B'') (ag_acks s)) = 1 \<and> ag_dropped s = [task_L] \<and>
     Queue_ListPending (ag_queue s) ''D01'' = [] \<and> ag_hold s = Map.empty \<and> ag_chan s = [] \<and> ag_running s = [] \<and> ag_done s = []"
proof -
  obtain s where s: "agent_step mem_bbolt AB_gob un_L True ag_0 s" "ag_queue s = q_with [task_L]" "ag_hold s = Map.empty"
    "ag_chan s = []" "ag_running s = []" "ag_active s = {''D01''}" "ag_done s = []" "ag_accepted s = [task_L]" "ag_cb s" "ag_dropped s = []"
    "ag_acks s = [NewEnvelope 5 ''task_ack'' (PTaskAck \<lparr>ta_TaskID = ''B'', ta_Accepted = True, ta_Reason = []\<rparr>)]"
    using ag_0_message by blast
  let ?s1 = "s\<lparr>ag_queue := q_with [], ag_hold := (ag_hold s)(''D01'' \<mapsto> task_L)\<rparr>"
  let ?s2 = "?s1\<lparr>ag_ctx := True\<rparr>"
  let ?s3 = "?s2\<lparr>ag_hold := (ag_hold ?s2)(''D01'' := None), ag_dropped := ag_dropped ?s2 @ [task_L], ag_active := ag_active ?s2 - {''D01''}\<rparr>"
  have 0: "agent_step mem_bbolt AB_gob un_L True (Agent_start (NewQueue 100 None) m_up 1 (Some 1)) ag_0"
    unfolding ag_0_def by (rule agent_step.register)
  have 1: "exec_step True s (Dequeues ''D01'') ?s1" by (rule exec_step.dequeue) (simp_all add: s dequeue_q_with)
  have 2: "agent_step mem_bbolt AB_gob un_L True ?s1 ?s2" by (rule agent_step.cancel_ctx) (simp add: s)
  have 3: "exec_step True ?s2 (Drops ''D01'') ?s3" by (rule exec_step.drop) simp_all
  have "(agent_step mem_bbolt AB_gob un_L True)\<^sup>*\<^sup>* (Agent_start (NewQueue 100 None) m_up 1 (Some 1)) ?s3"
    by (rule step_reach [OF 0], rule step_reach [OF s(1)], rule exec_reach [OF 1], rule step_reach [OF 2], rule exec_reach [OF 3]) simp
  then show ?thesis
    by (rule exI [of _ ?s3, OF conjI]) (simp add: s pos_ack_def NewEnvelope_def q_with_def Queue_ListPending_def Queue_get_def)
qed

theorem agent_accounts_for_every_task_witness:
  "\<exists>s :: mem_db Agent. ag_accepted s = [task_L] \<and> ag_dropped s = [task_L] \<and> ids ''D01'' (ag_accepted s) =
      ids ''D01'' (Queue_ListPending (ag_queue s) ''D01'') + ids ''D01'' (ag_held s ''D01'') + ids ''D01'' (ag_chan s) +
      ids ''D01'' (ag_running s) + ids ''D01'' (ag_done s) + ids ''D01'' (ag_cancelled s) + ids ''D01'' (ag_dropped s) +
      ids ''D01'' (ag_broken s) \<and>
    length (filter (pos_ack ''B'') (ag_acks s)) = 1"
proof -
  obtain s where s: "(agent_step mem_bbolt AB_gob un_L True)\<^sup>*\<^sup>* (Agent_start (NewQueue 100 None) m_up 1 (Some 1)) s"
    "ag_accepted s = [task_L]" "length (filter (pos_ack ''B'') (ag_acks s)) = 1" "ag_dropped s = [task_L]"
    using shutdown_drops_task by blast
  have e: "ids ''D01'' (Queue_ListPending (NewQueue 100 (None :: mem_db option)) ''D01'') = {#}"
    by (simp add: NewQueue_def Queue_ListPending_def Queue_get_def)
  from agent_accounts_for_every_task [OF new_inv m_dev_inv s(1), of "''D01''" "''B''"] s(2-4) show ?thesis
    unfolding e by (intro exI [of _ s]) simp
qed

text \<open>A consumer moves the first pending task through the channel to a free worker.\<close>

lemma move_to_worker:
  assumes "ag_queue s = q_with (t # ts)" "''D01'' \<in> ag_active s" "ag_hold s = Map.empty" "ag_chan s = []" "\<not> ag_ctx s"
    and "length (ag_running s) < ag_live s" "0 < ag_workers s"
  shows "(agent_step mem_bbolt AB_gob un_L True)\<^sup>*\<^sup>* s
    (s\<lparr>ag_queue := q_with ts, ag_running := ag_running s @ [t], ag_started := ag_started s @ [t]\<rparr>)"
proof -
  let ?s1 = "s\<lparr>ag_queue := q_with ts, ag_hold := (ag_hold s)(''D01'' \<mapsto> t)\<rparr>"
  let ?s2 = "?s1\<lparr>ag_hold := (ag_hold ?s1)(''D01'' := None), ag_chan := ag_chan ?s1 @ [t],
    ag_active := (if ag_ctx ?s1 then ag_active ?s1 - {''D01''} else ag_active ?s1)\<rparr>"
  let ?s3 = "?s2\<lparr>ag_chan := [], ag_running := ag_running ?s2 @ [t], ag_started := ag_started ?s2 @ [t]\<rparr>"
  have 1: "exec_step True s (Dequeues ''D01'') ?s1" by (rule exec_step.dequeue) (simp_all add: assms dequeue_q_with)
  have 2: "exec_step True ?s1 (Sends ''D01'') ?s2" by (rule exec_step.send) (simp_all add: assms)
  have 3: "exec_step True ?s2 Receives ?s3" by (rule exec_step.receive) (simp_all add: assms)
  have "?s3 = s\<lparr>ag_queue := q_with ts, ag_running := ag_running s @ [t], ag_started := ag_started s @ [t]\<rparr>"
    using assms(3-5) by (cases s) simp
  moreover have "(agent_step mem_bbolt AB_gob un_L True)\<^sup>*\<^sup>* s ?s3"
    by (rule exec_reach [OF 1], rule exec_reach [OF 2], rule exec_reach [OF 3]) simp
  ultimately show ?thesis by simp
qed

definition ag_BC :: "mem_db Agent" where
  "ag_BC = (Agent_start (q_with [task_B, task_C]) m_up 0 None)
     \<lparr>ag_queue := q_with [], ag_running := [task_B, task_C], ag_started := [task_B, task_C]\<rparr>"

lemma ag_BC_reachable: "(agent_step mem_bbolt AB_gob un_L True)\<^sup>*\<^sup>* (Agent_start (q_with [task_B, task_C]) m_up 0 None) ag_BC"
proof -
  let ?s0 = "Agent_start (q_with [task_B, task_C]) m_up 0 None"
  let ?s1 = "?s0\<lparr>ag_queue := q_with [task_C], ag_running := [task_B], ag_started := [task_B]\<rparr>"
  have c: "''D01'' \<in> ag_active ?s0" "ag_hold ?s0 = Map.empty" "ag_chan ?s0 = []" "ag_running ?s0 = []" "\<not> ag_ctx ?s0"
    "ag_started ?s0 = []" "ag_workers ?s0 = 5" "ag_live ?s0 = 5" "ag_queue ?s0 = q_with [task_B, task_C]"
    using m_up_ids [of DeviceStatusOnline] by (simp_all add: Agent_start_def Executor_Start_def defaultWorkerCount_def Let_def)
  have 1: "(agent_step mem_bbolt AB_gob un_L True)\<^sup>*\<^sup>* ?s0 ?s1" using move_to_worker [of ?s0 task_B "[task_C]"] c by simp
  have 2: "(agent_step mem_bbolt AB_gob un_L True)\<^sup>*\<^sup>* ?s1 ag_BC"
    using move_to_worker [of ?s1 task_C "[]"] c by (simp add: ag_BC_def)
  show ?thesis using 1 2 by (rule rtranclp_trans)
qed

lemma q_BC_inv: "queue_inv (q_with [task_B, task_C])"
  using tasks_BC by (simp add: queue_inv_def q_with_def Queue_ListPending_def Queue_get_def)

lemma ag_BC_sel: "ag_started ag_BC = [task_B, task_C]" "ag_running ag_BC = [task_B, task_C]" "ag_accepted ag_BC = []" "ag_cancelled ag_BC = []"
  "\<not> ag_ctx ag_BC" "ag_workers ag_BC = 5" "Queue_ListPending (q_with [task_B, task_C]) ''D01'' = [task_B, task_C]"
  by (simp_all add: ag_BC_def Agent_start_def Executor_Start_def defaultWorkerCount_def q_with_def Queue_ListPending_def Queue_get_def Let_def)

theorem pipeline_keeps_order_witness:
  "of_dev ''D01'' (ag_started ag_BC) @ of_dev ''D01'' (ag_chan ag_BC) @
     (case ag_hold ag_BC ''D01'' of None \<Rightarrow> [] | Some t \<Rightarrow> [t]) @ Queue_ListPending (ag_queue ag_BC) ''D01'' = [task_B, task_C] \<and>
   length (ag_running ag_BC) \<le> 5"
  using pipeline_keeps_order [OF q_BC_inv m_dev_inv ag_BC_reachable refl, of "''D01''"] ag_BC_sel by simp

theorem late_device_never_served_witness:
  "of_dev ''D02'' (ag_started ag_BC) = [] \<and> Queue_ListPending (ag_queue ag_BC) ''D02'' = []"
proof -
  have "Queue_ListPending (q_with [task_B, task_C]) ''D02'' = []" by (simp add: q_with_def Queue_ListPending_def Queue_get_def)
  then show ?thesis
    using late_device_never_served [OF q_BC_inv m_dev_inv ag_BC_reachable, of "''D02''"] m_up_ids [of DeviceStatusOnline] ag_BC_sel by simp
qed

text \<open>
  Tasks of one device are not executed one at a time: with the default number of workers, a state
  can be reached in which two tasks of one printer are being executed at once.
\<close>

theorem same_device_runs_concurrently:
  "\<exists>s t u. (agent_step mem_bbolt AB_gob un_L True)\<^sup>*\<^sup>* (Agent_start (q_with [task_B, task_C]) m_up 0 None) s \<and>
     ag_running s = [t, u] \<and> t_DeviceID t = t_DeviceID u \<and> t_TaskID t \<noteq> t_TaskID u"
  using ag_BC_reachable tasks_BC ag_BC_sel(2)
  by (intro exI [of _ ag_BC] exI [of _ task_B] exI [of _ task_C]) (simp add: task_C_def task_B_def)

end
