(* ===== verification/AgentWork.thy ===== *)
theory AgentWork
  imports Agent
begin

text \<open>
  What the agent of \<open>Agent\<close> achieves: the results of the tasks reach the reporter, the executor works its tasks
  off, and printers that are offline can hold up all the others.
\<close>

section \<open>Results and reports\<close>

text \<open>A task as the cloud is meant to send it: not decided yet, with a retry count the executor can count on.\<close>

definition fresh :: "PrintTask \<Rightarrow> bool" where
  "fresh t \<longleftrightarrow> \<not> TaskStatus_IsTerminal (t_Status t) \<and> 0 \<le> t_RetryCount t \<and> t_RetryCount t \<le> 3"

lemma executeTask_offline:
  assumes "executeTask audit a t = (Some err, t1, ev)" "isDeviceOfflineErr err"
  shows "t1 = t" "ev = []"
  using assms
  by (auto simp: executeTask_def Let_def offline_iff dest: loadTaskData_not_offline Adapter_Send_code
      split: option.splits sum.splits if_splits)

lemma executeTask_terminal:
  "executeTask audit a t = (r, t1, ev) \<Longrightarrow> \<not> TaskStatus_IsTerminal (t_Status t) \<Longrightarrow>
     TaskStatus_IsTerminal (t_Status t1) \<Longrightarrow> t1 \<in> set (results ev)"
  by (auto simp: executeTask_def Let_def results_def split: option.splits sum.splits if_splits)

lemma handleRetry_terminal:
  "handleRetry audit a t err = Some (again, t2, ev) \<Longrightarrow> TaskStatus_IsTerminal (t_Status t2) \<Longrightarrow> t2 \<in> set (results ev)"
  by (auto simp: handleRetry_def Let_def results_def split: option.splits sum.splits if_splits)

lemma pass_running:
  assumes "executeTaskLoop audit [a] t = (Running t', ev)" "fresh t"
  shows "fresh t'"
proof -
  obtain r t1 ev1 where e: "executeTask audit a t = (r, t1, ev1)" by (metis prod_cases3)
  from assms e obtain err where r: "r = Some err" by (cases r) (auto simp: fresh_def split: if_splits)
  show ?thesis
  proof (cases "isDeviceOfflineErr err")
    case True
    with assms e r executeTask_offline [OF e [unfolded r] True] show ?thesis by (auto simp: fresh_def split: if_splits)
  next
    case False
    with assms e r obtain t2 ev2 where "handleRetry audit a t1 err = Some (True, t2, ev2)" "t' = t2"
      by (auto simp: fresh_def split: if_splits option.splits prod.splits)
    with handleRetry_again [OF this(1)] executeTask_err(1) [OF e [unfolded r]] assms(2) show ?thesis
      by (simp add: fresh_def maxRetryCount_def wrap64_id is_int64_def)
  qed
qed

lemma pass_decided:
  assumes "executeTaskLoop audit [a] t = (Returned t', ev)" "\<not> TaskStatus_IsTerminal (t_Status t)" "TaskStatus_IsTerminal (t_Status t')"
  shows "t' \<in> set (results ev)"
proof -
  obtain r t1 ev1 where e: "executeTask audit a t = (r, t1, ev1)" by (metis prod_cases3)
  show ?thesis
  proof (cases r)
    case None
    with assms e executeTask_terminal [OF e] show ?thesis by (auto split: if_splits)
  next
    case (Some err)
    with assms e executeTask_terminal [OF e] show ?thesis
      by (auto dest: handleRetry_terminal split: if_splits option.splits prod.splits)
  qed
qed

definition all_fresh :: "'db Queue \<Rightarrow> 'db Agent \<Rightarrow> bool" where
  "all_fresh q0 s \<longleftrightarrow> (\<forall>d. \<forall>t \<in> set (Queue_ListPending q0 d). fresh t) \<and> (\<forall>t \<in> set (ag_accepted s). fresh t)"

definition pending_known :: "'db Queue \<Rightarrow> 'db Agent \<Rightarrow> bool" where
  "pending_known q0 s \<longleftrightarrow> (\<forall>d. set (Queue_ListPending (ag_queue s) d) \<subseteq> set (Queue_ListPending q0 d) \<union> set (ag_accepted s))"

definition work_fresh :: "'db Agent \<Rightarrow> bool" where
  "work_fresh s \<longleftrightarrow> (\<forall>t \<in> ran (ag_hold s) \<union> set (ag_chan s) \<union> set (ag_running s). fresh t)"

definition reported :: "'db Agent \<Rightarrow> bool" where
  "reported s \<longleftrightarrow> (\<forall>t \<in> set (ag_done s). TaskStatus_IsTerminal (t_Status t) \<longrightarrow> t \<in> set (ag_early s) \<or>
     (\<exists>now. task_result_envelope now t \<in> set (submitted (ag_rops s))))"

definition report_inv :: "'db Queue \<Rightarrow> 'db Agent \<Rightarrow> bool" where
  "report_inv q0 s \<longleftrightarrow> pending_known q0 s \<and> (all_fresh q0 s \<longrightarrow> work_fresh s \<and> reported s)"

lemma submitted_append [simp]: "submitted (xs @ ys) = submitted xs @ submitted ys"
  by (simp add: submitted_def)

lemma submitted_results:
  assumes "length wrs = length (results ev)"
  shows "submitted (result_rops now wrs ev) = map (task_result_envelope now) (results ev)"
proof -
  have "length wrs = length ms \<Longrightarrow> submitted (map2 ROpSend wrs ms) = ms" for wrs ms
    by (induction wrs ms rule: list_induct2) simp_all
  with assms show ?thesis by (simp add: result_rops_def)
qed

lemma message_pending:
  assumes "handle (ag_ops b g now) un now wr msg w = w'"
  shows "set (Queue_ListPending (dw_queue w') d) \<subseteq> set (Queue_ListPending (dw_queue w) d) \<union> set (msg_accepted b g un now msg (dw_queue w))"
proof -
  from assms show ?thesis
  proof (cases rule: message_cases)
    case (task u)
    obtain e q where e: "Queue_Enqueue b g now (dw_queue w) (Some (traced msg u)) = (e, q)" by fastforce
    have q: "dw_queue w' = q" unfolding assms(1) [symmetric] handleTask_effect [OF task e] by simp
    show ?thesis
      using Enqueue_accepted(6) [of b g now "dw_queue w" "traced msg u" q] Enqueue_rejected(1) [of b g now "dw_queue w" "traced msg u" _ q]
        e task q by (cases e) (auto simp: msg_accepted_def)
  next
    case (cancel p)
    obtain e q where c: "Queue_Cancel b g (dw_queue w) (ct_DeviceID p) (ct_TaskID p) = (e, q)" by fastforce
    show ?thesis
      using Cancel_frame(1,2) [OF c] c cancel(4) by (cases e) (auto split: if_splits)
  qed simp
qed

lemma known_fresh: "pending_known q0 s \<Longrightarrow> all_fresh q0 s \<Longrightarrow> t \<in> set (Queue_ListPending (ag_queue s) d) \<Longrightarrow> fresh t"
  unfolding pending_known_def all_fresh_def by blast

lemma reported_mono:
  assumes "reported s" "set (submitted (ag_rops s)) \<subseteq> set (submitted (ag_rops s'))" "set (ag_early s) \<subseteq> set (ag_early s')"
    "\<And>t. t \<in> set (ag_done s') \<Longrightarrow> TaskStatus_IsTerminal (t_Status t) \<Longrightarrow>
       t \<in> set (ag_done s) \<or> t \<in> set (ag_early s') \<or> (\<exists>now. task_result_envelope now t \<in> set (submitted (ag_rops s')))"
  shows "reported s'"
  using assms unfolding reported_def by (meson subsetD)

text \<open>A step that touches none of what the invariant speaks of, but for tasks that are no longer held.\<close>

lemma report_inv_same:
  assumes "report_inv q0 s" "Queue_ListPending (ag_queue s') = Queue_ListPending (ag_queue s)" "ag_accepted s' = ag_accepted s"
    "ran (ag_hold s') \<subseteq> ran (ag_hold s)" "ag_chan s' = ag_chan s" "ag_running s' = ag_running s" "ag_done s' = ag_done s"
    "ag_early s' = ag_early s" "ag_rops s' = ag_rops s"
  shows "report_inv q0 s'"
proof -
  have "pending_known q0 s' = pending_known q0 s" "all_fresh q0 s' = all_fresh q0 s" "reported s' = reported s"
    using assms(2,3,7-9) by (simp_all only: pending_known_def all_fresh_def reported_def)
  moreover have "work_fresh s \<Longrightarrow> work_fresh s'" using assms(4-6) by (auto simp: work_fresh_def)
  ultimately show ?thesis using assms(1) unfolding report_inv_def by simp
qed

lemma report_inv_exec: "exec_step audit s l s' \<Longrightarrow> report_inv q0 s \<Longrightarrow> report_inv q0 s'"
proof (induction rule: exec_step.induct)
  case (dequeue d s t q')
  let ?s' = "s\<lparr>ag_queue := q', ag_hold := (ag_hold s)(d \<mapsto> t)\<rparr>"
  have f: "Queue_ListPending (ag_queue s) d = t # Queue_ListPending q' d"
    "\<And>c. c \<noteq> d \<Longrightarrow> Queue_ListPending q' c = Queue_ListPending (ag_queue s) c"
    using Dequeue_frame(1) [OF dequeue.hyps(3) refl] by auto
  have "set (Queue_ListPending q' c) \<subseteq> set (Queue_ListPending (ag_queue s) c)" for c
    using f by (cases "c = d") auto
  then have "pending_known q0 s \<Longrightarrow> pending_known q0 ?s'" by (simp add: pending_known_def) blast
  moreover have "all_fresh q0 ?s' \<longleftrightarrow> all_fresh q0 s" by (simp add: all_fresh_def)
  moreover have "fresh t \<Longrightarrow> work_fresh s \<Longrightarrow> work_fresh ?s'"
    using dequeue.hyps(2) by (auto simp: work_fresh_def ran_map_upd)
  ultimately show ?case using dequeue.prems known_fresh [of q0 s t d] f(1) by (simp add: report_inv_def reported_def)
next
  case (dequeue_fails d s e q')
  from dequeue_fails.prems show ?case
    by (rule report_inv_same) (simp_all add: Dequeue_fails_closed(2) [OF dequeue_fails.hyps(3)])
next
  case (return d s)
  from return.prems show ?case by (rule report_inv_same) simp_all
next
  case (drop s d t)
  have "ran ((ag_hold s)(d := None)) \<subseteq> ran (ag_hold s)" by (auto simp: ran_def split: if_splits)
  then show ?case by (intro report_inv_same [OF drop.prems]) simp_all
next
  case (worker_return s)
  from worker_return.prems show ?case by (rule report_inv_same) simp_all
next
  case (send s d t)
  have "ran ((ag_hold s)(d := None)) \<subseteq> ran (ag_hold s)" "t \<in> ran (ag_hold s)"
    using send.hyps(1) by (auto simp: ran_def split: if_splits)
  then have "work_fresh s \<Longrightarrow> work_fresh (s\<lparr>ag_hold := (ag_hold s)(d := None), ag_chan := ag_chan s @ [t],
      ag_active := (if ag_ctx s then ag_active s - {d} else ag_active s)\<rparr>)"
    by (auto simp: work_fresh_def)
  then show ?case using send.prems by (simp add: report_inv_def pending_known_def all_fresh_def reported_def)
next
  case (receive s t ts)
  have "work_fresh s \<Longrightarrow> work_fresh (s\<lparr>ag_chan := ts, ag_running := ag_running s @ [t], ag_started := ag_started s @ [t]\<rparr>)"
    using receive.hyps(1) by (simp add: work_fresh_def)
  then show ?case using receive.prems by (simp add: report_inv_def pending_known_def all_fresh_def reported_def)
next
  case (work s us t vs a r ev wrs out rep')
  let ?s' = "s\<lparr>ag_running := us @ still_running r @ vs, ag_done := ag_done s @ decided r,
      ag_early := ag_early s @ (if ag_cb s then [] else decided r), ag_broken := ag_broken s @ undecided r,
      ag_rep := rep', ag_sent := ag_sent s @ out, ag_rops := ag_rops s @ fired s (at_now a) wrs ev\<rparr>"
  have sub: "submitted (fired s (at_now a) wrs ev) = map (task_result_envelope (at_now a)) (results ev)" if "ag_cb s"
    using submitted_results [OF work.hyps(6)] that by (simp add: fired_def)
  have "fresh t \<Longrightarrow> \<forall>u \<in> set (still_running r). fresh u" using pass_running work.hyps(4) by (cases r) auto
  then have run: "work_fresh s \<Longrightarrow> work_fresh ?s'" using work.hyps(1) by (auto simp: work_fresh_def)
  have res: "task_result_envelope (at_now a) u \<in> set (submitted (ag_rops ?s'))"
    if "work_fresh s" "u \<in> set (decided r)" "TaskStatus_IsTerminal (t_Status u)" "ag_cb s" for u
  proof -
    have "r = Returned u" using that(2) by (cases r) (simp_all add: decided_def split: if_splits)
    moreover have "\<not> TaskStatus_IsTerminal (t_Status t)" using that(1) work.hyps(1) by (simp add: work_fresh_def fresh_def)
    ultimately have "u \<in> set (results ev)" using pass_decided [of audit a t u ev] work.hyps(4) that(3) by simp
    then show ?thesis by (simp add: sub that(4))
  qed
  have "reported ?s'" if "work_fresh s" "reported s"
  proof (rule reported_mono [OF that(2)])
    fix u assume u: "u \<in> set (ag_done ?s')" "TaskStatus_IsTerminal (t_Status u)"
    show "u \<in> set (ag_done s) \<or> u \<in> set (ag_early ?s') \<or> (\<exists>now. task_result_envelope now u \<in> set (submitted (ag_rops ?s')))"
    proof (cases "u \<in> set (ag_done s) \<or> \<not> ag_cb s")
      case True
      then show ?thesis using u(1) by auto
    next
      case False
      then have "u \<in> set (decided r)" "ag_cb s" using u(1) by simp_all
      then show ?thesis using res [OF that(1) _ u(2)] by iprover
    qed
  qed simp_all
  then show ?case using work.prems run by (simp add: report_inv_def pending_known_def all_fresh_def)
qed

lemma report_inv_step: "agent_step b g un audit s s' \<Longrightarrow> report_inv q0 s \<Longrightarrow> report_inv q0 s'"
proof (induction rule: agent_step.induct)
  case (message now wr msg s w)
  let ?s' = "s\<lparr>ag_queue := dw_queue w, ag_mgr := dw_mgr w, ag_acks := dw_out w,
      ag_accepted := ag_accepted s @ msg_accepted b g un now msg (ag_queue s),
      ag_cancelled := ag_cancelled s @ msg_cancelled b g un msg (ag_queue s)\<rparr>"
  have "set (Queue_ListPending (dw_queue w) d) \<subseteq> set (Queue_ListPending (ag_queue s) d) \<union> set (msg_accepted b g un now msg (ag_queue s))" for d
    using message_pending [OF message.hyps(1), of d] by (simp add: ag_world_def)
  then have "pending_known q0 s \<Longrightarrow> pending_known q0 ?s'" by (simp add: pending_known_def) blast
  moreover have "all_fresh q0 ?s' \<Longrightarrow> all_fresh q0 s" by (simp add: all_fresh_def)
  ultimately show ?case using message.prems by (simp add: report_inv_def work_fresh_def reported_def)
next
  case (register s)
  from register show ?case by (rule report_inv_same) simp_all
next
  case (exec s l s')
  then show ?case by (rule report_inv_exec)
next
  case (cloud s x out rep')
  let ?s' = "s\<lparr>ag_rep := rep', ag_sent := ag_sent s @ out, ag_rops := ag_rops s @ [x]\<rparr>"
  have "reported ?s'" if "reported s"
  proof (rule reported_mono [OF that])
    show "set (submitted (ag_rops s)) \<subseteq> set (submitted (ag_rops ?s'))" by auto
  qed simp_all
  moreover have "pending_known q0 ?s' = pending_known q0 s" "all_fresh q0 ?s' = all_fresh q0 s" "work_fresh ?s' = work_fresh s"
    by (simp_all add: pending_known_def all_fresh_def work_fresh_def)
  ultimately show ?case using cloud.prems unfolding report_inv_def by simp
next
  case (cancel_ctx s)
  from cancel_ctx.prems show ?case by (rule report_inv_same) simp_all
next
  case (close s)
  from close.prems show ?case by (rule report_inv_same) simp_all
qed

lemma report_inv_reachable: "(agent_step b g un audit)\<^sup>*\<^sup>* s s' \<Longrightarrow> report_inv q0 s \<Longrightarrow> report_inv q0 s'"
  by (induction rule: rtranclp_induct) (auto intro: report_inv_step)

lemma start_report_inv: "report_inv q (Agent_start q m k conn)"
  by (simp add: report_inv_def pending_known_def work_fresh_def reported_def Agent_start_def Executor_Start_def Let_def)

section \<open>The executor works off its tasks\<close>

text \<open>The passes a task may still take, and the steps that are left to do, counted from above.\<close>

definition todo :: "PrintTask \<Rightarrow> nat" where
  "todo t = nat (4 - t_RetryCount t)"

definition dev_load :: "'db Agent \<Rightarrow> string \<Rightarrow> nat" where
  "dev_load s d = (\<Sum>t \<leftarrow> Queue_ListPending (ag_queue s) d. 3 + todo t) + (\<Sum>t \<leftarrow> ag_held s d. 2 + todo t)"

definition ag_load :: "'db Agent \<Rightarrow> nat" where
  "ag_load s = (\<Sum>d \<in> ag_consumers s. dev_load s d) + (\<Sum>t \<leftarrow> ag_chan s. 1 + todo t) + (\<Sum>t \<leftarrow> ag_running s. todo t)"

text \<open>
  A step of the executor while the agent is not shutting down: the registry does not change, so that whether a pass
  meets its device online is settled by the registry.
\<close>

definition quiet_step :: "bool \<Rightarrow> 'db Agent \<Rightarrow> 'db Agent \<Rightarrow> bool" where
  "quiet_step audit s s' \<longleftrightarrow> \<not> ag_ctx s \<and> (\<exists>l. exec_step audit s l s')"

definition dev_up :: "Manager \<Rightarrow> string \<Rightarrow> bool" where
  "dev_up m d \<longleftrightarrow> (case Manager_Get m d of None \<Rightarrow> True
     | Some dev \<Rightarrow> d_Status dev \<noteq> DeviceStatusOffline \<and> d_Status dev \<noteq> DeviceStatusProbeFailed)"

definition serving :: "'db Agent \<Rightarrow> bool" where
  "serving s \<longleftrightarrow> finite (ag_consumers s) \<and> 0 < ag_workers s \<and>
     (\<forall>d \<in> ag_consumers s. dev_up (ag_mgr s) d \<and> \<not> dev_closed (ag_queue s) d)"

lemma online_by_registry: "\<not> sees_ctx_end a \<Longrightarrow> dev_up (at_manager a) d \<Longrightarrow> online_attempt d a"
  by (simp add: online_attempt_def dev_up_def sees_ctx_end_def)

lemma pass_online:
  assumes "executeTaskLoop audit [a] t = (r, ev)" "fresh t" "online_attempt (t_DeviceID t) a"
  shows "r \<noteq> Panicked" "r = Running t' \<Longrightarrow> todo t' < todo t" "r = Returned t' \<Longrightarrow> TaskStatus_IsTerminal (t_Status t')"
proof -
  obtain x t1 ev1 where e: "executeTask audit a t = (x, t1, ev1)" by (metis prod_cases3)
  have ctx: "\<not> at_done_head a" "\<not> at_done_after a" "\<not> at_done_wait a" using assms(3) by (simp_all add: online_attempt_def)
  have f: "\<not> TaskStatus_IsTerminal (t_Status t)" "0 \<le> t_RetryCount t" "t_RetryCount t \<le> 3" using assms(2) by (simp_all add: fresh_def)
  have "r \<noteq> Panicked \<and> (r = Running t' \<longrightarrow> todo t' < todo t) \<and> (r = Returned t' \<longrightarrow> TaskStatus_IsTerminal (t_Status t'))"
  proof (cases x)
    case None
    then show ?thesis using assms(1) e ctx f executeTask_ok(1) [of audit a t t1 ev1] by auto
  next
    case (Some err)
    note er = executeTask_err [OF e [unfolded Some]]
    have off: "\<not> isDeviceOfflineErr err" by (rule executeTask_not_offline [OF e [unfolded Some] assms(3)])
    have "handleRetry audit a t1 err \<noteq> None" using handleRetry_no_panic [of t1] er(1) f by simp
    then obtain again t2 ev2 where h: "handleRetry audit a t1 err = Some (again, t2, ev2)" by auto
    have r: "r = (if again then Running t2 else Returned t2)" using assms(1) ctx f(1) e Some off h by auto
    show ?thesis
    proof (cases again)
      case True
      with handleRetry_again(1) [of audit a t1 err t2 ev2] h er(1) f have "t_RetryCount t2 = t_RetryCount t + 1"
        by (simp add: wrap64_id is_int64_def)
      then show ?thesis using r True f(3) by (auto simp: todo_def)
    next
      case False
      with handleRetry_stop(1) [of audit a t1 err t2 ev2] h ctx(3) r show ?thesis by auto
    qed
  qed
  then show "r \<noteq> Panicked" "r = Running t' \<Longrightarrow> todo t' < todo t" "r = Returned t' \<Longrightarrow> TaskStatus_IsTerminal (t_Status t')"
    by blast+
qed

lemma sum_change:
  fixes f f' :: "'a \<Rightarrow> nat"
  assumes "finite A" "d \<in> A" "\<And>c. c \<noteq> d \<Longrightarrow> f' c = f c"
  shows "sum f' A + f d = sum f A + f' d"
proof -
  have "sum f' (A - {d}) = sum f (A - {d})" using assms(3) by (intro sum.cong) auto
  then show ?thesis using sum.remove [OF assms(1,2), of f] sum.remove [OF assms(1,2), of f'] by simp
qed

text \<open>What \<open>executor.go\<close> relies on, together: the facts of the reachable states, and that every device served can be reached.\<close>

definition ready :: "'db Queue \<Rightarrow> nat option \<Rightarrow> 'db Agent \<Rightarrow> bool" where
  "ready q0 conn s \<longleftrightarrow> agent_inv q0 conn s \<and> report_inv q0 s \<and> all_fresh q0 s \<and> serving s \<and> \<not> ag_ctx s"

lemma ready_facts:
  assumes "ready q0 conn s"
  shows "work_fresh s" "finite (ag_consumers s)" "0 < ag_workers s" "ag_live s = ag_workers s" "\<not> ag_ctx s"
    "ag_hold s d = Some t \<Longrightarrow> d \<in> ag_consumers s"
    "t \<in> set (ag_running s) \<Longrightarrow> dev_up (ag_mgr s) (t_DeviceID t)" "d \<in> ag_consumers s \<Longrightarrow> \<not> dev_closed (ag_queue s) d"
    "ag_active s = ag_consumers s"
proof -
  have c: "crew_inv s" using assms by (simp add: ready_def agent_inv_def)
  show "work_fresh s" using assms by (simp add: ready_def report_inv_def)
  show "finite (ag_consumers s)" "0 < ag_workers s" "\<not> ag_ctx s"
    using assms by (simp_all add: ready_def serving_def)
  show nc: "\<not> dev_closed (ag_queue s) d" if "d \<in> ag_consumers s" for d
    using assms that by (simp add: ready_def serving_def)
  then show "ag_live s = ag_workers s" "ag_active s = ag_consumers s"
    using c \<open>\<not> ag_ctx s\<close> by (auto simp: crew_inv_def)
  show "d \<in> ag_consumers s" if "ag_hold s d = Some t" using c that unfolding crew_inv_def by (meson subsetD)
  have "t_DeviceID t \<in> ag_consumers s" if "t \<in> set (ag_running s)"
    using c that unfolding crew_inv_def by (meson UnI1 UnI2)
  then show "t \<in> set (ag_running s) \<Longrightarrow> dev_up (ag_mgr s) (t_DeviceID t)" using assms by (simp add: ready_def serving_def)
qed

lemma work_online:
  assumes "ready q0 conn s" "ag_running s = us @ t # vs" "at_manager a = ag_mgr s" "sees_ctx_end a \<longrightarrow> ag_ctx s"
  shows "fresh t" "online_attempt (t_DeviceID t) a"
  using ready_facts(1,5) [OF assms(1)] ready_facts(7) [OF assms(1), of t] assms(2-4) online_by_registry [of a]
  by (auto simp: work_fresh_def)

lemma load_decreases:
  assumes "exec_step audit s l s'" "ready q0 conn s"
  shows "ag_load s' < ag_load s"
  using assms
proof (induction rule: exec_step.induct)
  case (dequeue d s t q')
  let ?s' = "s\<lparr>ag_queue := q', ag_hold := (ag_hold s)(d \<mapsto> t)\<rparr>"
  note f = Dequeue_frame(1) [OF dequeue.hyps(3) refl]
  note r = ready_facts [OF dequeue.prems]
  have "sum (dev_load ?s') (ag_consumers s) + dev_load s d = sum (dev_load s) (ag_consumers s) + dev_load ?s' d"
    using f r(2,9) dequeue.hyps(1) by (intro sum_change) (simp_all add: dev_load_def ag_held_def)
  moreover have "dev_load ?s' d < dev_load s d"
    using f dequeue.hyps(2) by (simp add: dev_load_def ag_held_def)
  ultimately show ?case by (simp add: ag_load_def)
next
  case (dequeue_fails d s e q')
  then show ?case using Dequeue_fails_closed(1) [OF dequeue_fails.hyps(3)] ready_facts(8,9) [OF dequeue_fails.prems] by simp
next
  case (send s d t)
  let ?s' = "s\<lparr>ag_hold := (ag_hold s)(d := None), ag_chan := ag_chan s @ [t],
      ag_active := (if ag_ctx s then ag_active s - {d} else ag_active s)\<rparr>"
  note r = ready_facts [OF send.prems]
  have "sum (dev_load ?s') (ag_consumers s) + dev_load s d = sum (dev_load s) (ag_consumers s) + dev_load ?s' d"
    using r(2) r(6) [OF send.hyps(1)] by (intro sum_change) (auto simp: dev_load_def ag_held_def)
  moreover have "dev_load s d = dev_load ?s' d + 2 + todo t"
    using send.hyps(1) by (simp add: dev_load_def ag_held_def)
  ultimately show ?case by (simp add: ag_load_def)
next
  case (receive s t ts)
  have "dev_load (s\<lparr>ag_chan := ts, ag_running := ag_running s @ [t], ag_started := ag_started s @ [t]\<rparr>) = dev_load s"
    by (simp add: dev_load_def ag_held_def fun_eq_iff)
  then show ?case using receive.hyps(1) by (simp add: ag_load_def)
next
  case (work s us t vs a r ev wrs out rep')
  have "dev_load (s\<lparr>ag_running := us @ still_running r @ vs, ag_done := ag_done s @ decided r,
      ag_early := ag_early s @ (if ag_cb s then [] else decided r), ag_broken := ag_broken s @ undecided r,
      ag_rep := rep', ag_sent := ag_sent s @ out, ag_rops := ag_rops s @ fired s (at_now a) wrs ev\<rparr>) = dev_load s"
    by (simp add: dev_load_def ag_held_def fun_eq_iff)
  moreover note o = work_online [OF work.prems work.hyps(1-3)]
  have "(\<Sum>u \<leftarrow> still_running r. todo u) < todo t"
    using pass_online(2) [OF work.hyps(4) o] o(1) work.hyps(5) by (cases r) (auto simp: fresh_def todo_def)
  ultimately show ?case using work.hyps(1) by (simp add: ag_load_def)
qed (simp_all add: ready_def)

lemma exec_frame:
  "exec_step audit s l s' \<Longrightarrow> ag_consumers s' = ag_consumers s \<and> ag_workers s' = ag_workers s \<and> ag_mgr s' = ag_mgr s \<and>
     ag_accepted s' = ag_accepted s \<and> dev_closed (ag_queue s') = dev_closed (ag_queue s) \<and> ag_ctx s' = ag_ctx s"
  by (induction rule: exec_step.induct) (simp_all add: Dequeue_closed)

lemma exec_done: "exec_step audit s l s' \<Longrightarrow> \<exists>ds. ag_done s' = ag_done s @ ds"
  by (induction rule: exec_step.induct) simp_all

lemma Dequeue_pending:
  assumes "Queue_ListPending q d = t # ts" "\<not> dev_closed q d"
  shows "\<exists>q'. Queue_Dequeue q d = (Some (Inr t), q')"
proof -
  obtain dq q1 where gc: "Queue_getOrCreate q d = (dq, q1)" by fastforce
  show ?thesis using assms getOrCreate_frame(2,3) [OF gc] by (simp add: Queue_Dequeue_def gc dq_pass_def)
qed

lemma ready_step: "exec_step audit s l s' \<Longrightarrow> ready q0 conn s \<Longrightarrow> ready q0 conn s'"
  using exec_frame [of audit s l s'] agent_inv_exec [of audit s l s' q0 conn] report_inv_exec [of audit s l s' q0]
  by (simp add: ready_def all_fresh_def serving_def)

lemma work_enabled:
  assumes "ready q0 conn s" "t \<in> set (ag_running s)"
  shows "\<exists>s'. quiet_step audit s s'"
proof -
  let ?a = "att (ag_mgr s)"
  obtain us vs where r: "ag_running s = us @ t # vs" using assms(2) by (auto simp: in_set_conv_decomp)
  have m: "at_manager ?a = ag_mgr s" "sees_ctx_end ?a \<longrightarrow> ag_ctx s" by (simp_all add: sees_ctx_end_def)
  note o = work_online [OF assms(1) r m]
  obtain r' ev where e: "executeTaskLoop audit [?a] t = (r', ev)" by fastforce
  obtain out rep' where "rrun (ag_rep s) (fired s (at_now ?a) (replicate (length (results ev)) None) ev) = (out, rep')" by fastforce
  from exec_step.work [OF r m e pass_online(1) [OF e o] _ this] show ?thesis
    using ready_facts(5) [OF assms(1)] by (auto simp: quiet_step_def)
qed

lemma quiet_enabled:
  assumes "ready q0 conn s" "0 < ag_load s"
  shows "\<exists>s'. quiet_step audit s s'"
proof (cases "ag_running s")
  case (Cons t ts)
  then show ?thesis using work_enabled [OF assms(1), of t] by simp
next
  case Nil
  note run = Nil
  show ?thesis
  proof (cases "ag_chan s")
    case (Cons t ts)
    then show ?thesis using exec_step.receive [of s t ts audit] run ready_facts(3-5) [OF assms(1)] by (auto simp: quiet_step_def)
  next
    case Nil
    then have "sum (dev_load s) (ag_consumers s) \<noteq> 0" using assms(2) run by (simp add: ag_load_def)
    then obtain d where d: "d \<in> ag_consumers s" "0 < dev_load s d" by (metis sum.neutral gr0I)
    show ?thesis
    proof (cases "ag_hold s d")
      case (Some t)
      then show ?thesis using exec_step.send [of s d t audit] Nil ready_facts(3,5) [OF assms(1)] by (auto simp: quiet_step_def)
    next
      case None
      then obtain t ts where p: "Queue_ListPending (ag_queue s) d = t # ts"
        using d(2) by (cases "Queue_ListPending (ag_queue s) d") (auto simp: dev_load_def ag_held_def)
      from Dequeue_pending [OF p ready_facts(8) [OF assms(1) d(1)]] obtain q' where "Queue_Dequeue (ag_queue s) d = (Some (Inr t), q')" ..
      from exec_step.dequeue [OF _ None this] show ?thesis using d(1) ready_facts(5,9) [OF assms(1)] by (auto simp: quiet_step_def)
    qed
  qed
qed

lemma quiet_run:
  assumes "(quiet_step audit ^^ n) s s'" "ready q0 conn s"
  shows "ready q0 conn s' \<and> n + ag_load s' \<le> ag_load s \<and> (\<exists>ds. ag_done s' = ag_done s @ ds)"
  using assms(1)
proof (induction n arbitrary: s')
  case 0
  then show ?case using assms(2) by simp
next
  case (Suc n)
  then obtain s1 where "(quiet_step audit ^^ n) s s1" "quiet_step audit s1 s'" by auto
  then obtain l where s1: "(quiet_step audit ^^ n) s s1" "exec_step audit s1 l s'" unfolding quiet_step_def by blast
  note ih = Suc.IH [OF s1(1)]
  then have r: "ready q0 conn s1" by simp
  have "ag_load s' < ag_load s1" by (rule load_decreases [OF s1(2) r])
  moreover have "\<exists>ds. ag_done s' = ag_done s @ ds" using ih exec_done [OF s1(2)] by auto
  ultimately show ?case using ready_step [OF s1(2) r] ih by simp
qed

lemma idle:
  assumes "ready q0 conn s" "ag_load s = 0"
  shows "ag_chan s = []" "ag_running s = []" "ag_hold s = Map.empty" "d \<in> ag_consumers s \<Longrightarrow> Queue_ListPending (ag_queue s) d = []"
proof -
  show "ag_chan s = []" using assms(2) by (cases "ag_chan s") (auto simp: ag_load_def)
  show "ag_running s = []" using assms(2) ready_facts(1) [OF assms(1)]
    by (cases "ag_running s") (auto simp: ag_load_def work_fresh_def fresh_def todo_def)
  have z: "dev_load s d = 0" if "d \<in> ag_consumers s" for d
    using assms(2) that ready_facts(2) [OF assms(1)] by (simp add: ag_load_def)
  show "d \<in> ag_consumers s \<Longrightarrow> Queue_ListPending (ag_queue s) d = []"
    using z [of d] by (cases "Queue_ListPending (ag_queue s) d") (auto simp: dev_load_def)
  show "ag_hold s = Map.empty"
  proof
    fix d
    show "ag_hold s d = None"
      using z [of d] ready_facts(6) [OF assms(1), of d] by (cases "ag_hold s d") (auto simp: dev_load_def ag_held_def)
  qed
qed

section \<open>Offline devices\<close>

text \<open>A state in which every worker has a task of an offline device.\<close>

definition stuck :: "'db Agent \<Rightarrow> bool" where
  "stuck s \<longleftrightarrow> ag_live s \<le> length (ag_running s) \<and>
     (\<forall>t \<in> set (ag_running s). \<not> TaskStatus_IsTerminal (t_Status t) \<and> \<not> dev_up (ag_mgr s) (t_DeviceID t))"

lemma pass_waits:
  assumes "\<not> dev_up (at_manager a) (t_DeviceID t)" "\<not> TaskStatus_IsTerminal (t_Status t)"
    "\<not> at_done_head a" "\<not> at_done_after a" "\<not> at_done_wait a"
  shows "executeTaskLoop audit [a] t = (Running t, [])"
  using assms by (auto simp: dev_up_def executeTask_def offline_iff split: option.splits)

lemma stuck_exec:
  assumes "exec_step audit s l s'" "stuck s" "\<not> ag_ctx s"
  shows "stuck s' \<and> ag_running s' = ag_running s \<and> ag_done s' = ag_done s \<and> ag_rops s' = ag_rops s \<and>
    (\<exists>ts. ag_chan s' = ag_chan s @ ts)"
  using assms
proof (induction rule: exec_step.induct)
  case (work s us t vs a r ev wrs out rep')
  have "\<not> at_done_head a" "\<not> at_done_after a" "\<not> at_done_wait a" using work by (simp_all add: sees_ctx_end_def)
  then have "executeTaskLoop audit [a] t = (Running t, [])"
    using work by (intro pass_waits) (simp_all add: stuck_def)
  then have "r = Running t" "ev = []" using work.hyps(4) by simp_all
  then show ?case using work by (simp add: stuck_def fired_def result_rops_def results_def decided_def)
qed (simp_all add: stuck_def)

lemma stuck_run:
  "(quiet_step audit)\<^sup>*\<^sup>* s s' \<Longrightarrow> stuck s \<Longrightarrow> stuck s' \<and> ag_running s' = ag_running s \<and> ag_done s' = ag_done s \<and>
     ag_rops s' = ag_rops s \<and> (\<exists>ts. ag_chan s' = ag_chan s @ ts)"
proof (induction rule: rtranclp_induct)
  case (step s1 s2)
  then obtain l where l: "exec_step audit s1 l s2" "\<not> ag_ctx s1" by (auto simp: quiet_step_def)
  with step stuck_exec [OF l(1) _ l(2)] show ?case by auto
qed simp

text \<open>The executor never touches the store: what was saved when a task was accepted stays there when it has been printed.\<close>

lemma execution_leaves_the_store: "exec_step audit s l s' \<Longrightarrow> q_repo (ag_queue s') = q_repo (ag_queue s)"
proof (induction rule: exec_step.induct)
  case (dequeue d s t q')
  then show ?case by (auto simp: Queue_Dequeue_def Queue_getOrCreate_def Let_def split: prod.splits option.splits)
next
  case (dequeue_fails d s e q')
  then show ?case by (auto simp: Queue_Dequeue_def Queue_getOrCreate_def Let_def split: prod.splits option.splits)
qed simp_all

section \<open>Properties\<close>

text \<open>
  (C4) What is decided is reported. When the tasks come in undecided and with at most three retries behind them,
  every task that succeeded or failed and did not finish before the result callback was registered has had a \<open>task_result\<close> message with its final state
  submitted to the reporter; as long as not more than 256 messages have been submitted, the capacity of
  the buffer, that message has been sent or is kept for the next connection.
\<close>

theorem decided_tasks_are_reported:
  assumes "queue_inv q" "mgr_inv m" "(agent_step b g un audit)\<^sup>*\<^sup>* (Agent_start q m k conn) s" "all_fresh q s"
    "t \<in> set (ag_done s)" "TaskStatus_IsTerminal (t_Status t)" "t \<notin> set (ag_early s)"
  shows "\<exists>now. task_result_envelope now t \<in> set (submitted (ag_rops s)) \<and>
    (length (submitted (ag_rops s)) \<le> 256 \<longrightarrow> task_result_envelope now t \<in> set (ag_sent s) \<union> set (rp_buf (ag_rep s)))"
proof -
  have "reported s" using report_inv_reachable [OF assms(3) start_report_inv] assms(4) by (simp add: report_inv_def)
  then obtain now where now: "task_result_envelope now t \<in> set (submitted (ag_rops s))"
    using assms(5-7) unfolding reported_def by blast
  have "rrun (NewReporter conn) (ag_rops s) = (ag_sent s, ag_rep s)"
    using agent_inv_reachable [OF assms(3) start_inv [OF assms(1,2)]] by (simp add: agent_inv_def)
  from rrun_ok [OF this] have "mset (ag_sent s) + mset (rp_buf (ag_rep s)) = mset (submitted (ag_rops s))"
    if "length (submitted (ag_rops s)) \<le> 256" using that by (simp add: NewReporter_def)
  then have "set (ag_sent s) \<union> set (rp_buf (ag_rep s)) = set (submitted (ag_rops s))"
    if "length (submitted (ag_rops s)) \<le> 256" using that by (metis mset_append set_append set_mset_mset)
  with now show ?thesis by blast
qed

text \<open>
  (C5) The executor works its tasks off. Let the tasks pending at the start and those accepted since have come in undecided
  and with a retry count of 0 to 3. From every reachable state in which no shutdown has begun, the devices served
  are not offline and their queues open, let the executor take any n steps, whatever the network and the
  printers do, while no message comes and no shutdown: n is at most the load of the state, no task is dropped or broken
  off, so that every task a worker is done with is decided, and as long as the load is not used up a further step is
  possible; when it is, nothing is pending at a device that is served, nothing held, in the channel or being executed.
\<close>

theorem agent_finishes_work:
  assumes "queue_inv q" "mgr_inv m" "(agent_step b g un audit)\<^sup>*\<^sup>* (Agent_start q m k conn) s" "all_fresh q s" "\<not> ag_ctx s"
    "\<forall>d \<in> ag_consumers s. dev_up (ag_mgr s) d \<and> \<not> dev_closed (ag_queue s) d"
    "(quiet_step audit ^^ n) s s'"
  shows "n + ag_load s' \<le> ag_load s \<and>
    (\<exists>ds. ag_done s' = ag_done s @ ds \<and> (\<forall>t \<in> set ds. TaskStatus_IsTerminal (t_Status t))) \<and>
    ag_dropped s' = [] \<and> ag_broken s' = [] \<and>
    (if ag_load s' = 0
     then ag_chan s' = [] \<and> ag_running s' = [] \<and> ag_hold s' = Map.empty \<and>
       (\<forall>d \<in> ag_consumers s'. Queue_ListPending (ag_queue s') d = [])
     else \<exists>s''. quiet_step audit s' s'')"
proof -
  have "agent_inv q conn s" using agent_inv_reachable [OF assms(3) start_inv [OF assms(1,2)]] .
  moreover have "report_inv q s" using report_inv_reachable [OF assms(3) start_report_inv] .
  moreover have "finite (ag_consumers s)" "0 < ag_workers s" using reachable_frame [OF assms(3)] by simp_all
  ultimately have "ready q conn s" using assms(4-6) by (simp add: ready_def serving_def)
  from quiet_run [OF assms(7) this] have r: "ready q conn s'" "n + ag_load s' \<le> ag_load s" "\<exists>ds. ag_done s' = ag_done s @ ds" by simp_all
  have "ag_dropped s' = []" "ag_broken s' = []" "\<forall>t \<in> set (ag_done s'). TaskStatus_IsTerminal (t_Status t)"
    using r(1) by (simp_all add: ready_def agent_inv_def crew_inv_def)
  then show ?thesis using r(2,3) idle [OF r(1)] quiet_enabled [OF r(1), of audit] by auto
qed

text \<open>
  (C6) A printer that is offline can hold up all the others. Once every worker has a task of a device that is
  offline, then, as long as no message changes the registry and no shutdown comes, whatever the executor
  does, these tasks stay with the workers, no task is finished, nothing is reported, and the tasks waiting
  in the channel, of whichever device, stay there.
\<close>

theorem offline_devices_starve_the_rest:
  assumes "stuck s" "(quiet_step audit)\<^sup>*\<^sup>* s s'"
  shows "ag_running s' = ag_running s \<and> ag_done s' = ag_done s \<and> ag_rops s' = ag_rops s \<and>
    (\<exists>ts. ag_chan s' = ag_chan s @ ts)"
  using stuck_run [OF assms(2,1)] by simp

section \<open>Witnesses\<close>

lemma task_L_work: "fresh task_L" "todo task_L = 1"
  using task_B_sel by (simp_all add: task_L_def fresh_def todo_def)

lemma m_up_up: "dev_up m_up ''D01''"
  by (simp add: dev_up_def m_dev_def Manager_Get_def go_consts)

lemma pass_L: "\<exists>t ev. executeTaskLoop audit [att m_up] task_L = (Returned t, ev) \<and> TaskStatus_IsTerminal (t_Status t) \<and>
  t_TaskID t = ''B'' \<and> t_DeviceID t = ''D01''"
proof -
  obtain r ev where e: "executeTaskLoop audit [att m_up] task_L = (r, ev)" by fastforce
  have on: "online_attempt (t_DeviceID task_L) (att m_up)"
    using m_up_up task_L_sel by (simp add: online_attempt_def dev_up_def)
  note p = pass_online [OF e task_L_work(1) on]
  have "r \<noteq> Running t" for t
    using p(2) [of t] pass_running [of audit "att m_up" task_L t ev] e task_L_work by (auto simp: fresh_def todo_def)
  with p(1) obtain t where r: "r = Returned t" by (cases r) auto
  from pass_ids [OF e p(1), of "''D01''"] r task_L_sel have "t_TaskID t = ''B''" "t_DeviceID t = ''D01''"
    by (auto split: if_splits)
  with e r p(3) show ?thesis by blast
qed

lemma work_off:
  assumes "ag_queue s = q_with [task_L]" "ag_mgr s = m_up" "ag_hold s = Map.empty" "ag_chan s = []" "ag_running s = []"
    "ag_active s = {''D01''}" "ag_workers s = 1" "ag_done s = []" "ag_live s = 1" "\<not> ag_ctx s"
  shows "\<exists>s' t. (agent_step mem_bbolt AB_gob un_L True)\<^sup>*\<^sup>* s s' \<and> ag_done s' = [t] \<and> TaskStatus_IsTerminal (t_Status t) \<and>
    t_TaskID t = ''B'' \<and> t_DeviceID t = ''D01'' \<and> ag_accepted s' = ag_accepted s \<and> ag_acks s' = ag_acks s \<and>
    ag_queue s' = q_with [] \<and> ag_hold s' = Map.empty \<and> ag_chan s' = [] \<and> ag_running s' = [] \<and>
    ag_early s' = ag_early s @ (if ag_cb s then [] else [t]) \<and> (\<not> ag_cb s \<longrightarrow> ag_rops s' = ag_rops s)"
proof -
  let ?s1 = "s\<lparr>ag_queue := q_with [], ag_hold := (ag_hold s)(''D01'' \<mapsto> task_L)\<rparr>"
  let ?s2 = "?s1\<lparr>ag_hold := (ag_hold ?s1)(''D01'' := None), ag_chan := ag_chan ?s1 @ [task_L],
    ag_active := (if ag_ctx ?s1 then ag_active ?s1 - {''D01''} else ag_active ?s1)\<rparr>"
  let ?s3 = "?s2\<lparr>ag_chan := [], ag_running := ag_running ?s2 @ [task_L], ag_started := ag_started ?s2 @ [task_L]\<rparr>"
  have 1: "exec_step True s (Dequeues ''D01'') ?s1" by (rule exec_step.dequeue) (simp_all add: assms dequeue_q_with)
  have 2: "exec_step True ?s1 (Sends ''D01'') ?s2" by (rule exec_step.send) (simp_all add: assms)
  have 3: "exec_step True ?s2 Receives ?s3" by (rule exec_step.receive) (simp_all add: assms)
  obtain t ev where p: "executeTaskLoop True [att m_up] task_L = (Returned t, ev)" "TaskStatus_IsTerminal (t_Status t)"
    "t_TaskID t = ''B''" "t_DeviceID t = ''D01''" using pass_L by blast
  let ?w = "replicate (length (results ev)) None"
  obtain out rep' where o: "rrun (ag_rep ?s3) (fired ?s3 (at_now (att m_up)) ?w ev) = (out, rep')" by fastforce
  have r: "ag_running ?s3 = [] @ task_L # []" "at_manager (att m_up) = ag_mgr ?s3" "sees_ctx_end (att m_up) \<longrightarrow> ag_ctx ?s3"
    by (simp_all add: assms sees_ctx_end_def)
  have dec: "decided (Returned t) = [t]" "undecided (Returned t) = []" using p(2) by (simp_all add: decided_def undecided_def)
  note 4 = exec_step.work [OF r p(1) _ _ o, simplified still_running.simps dec]
  let ?s4 = "?s3\<lparr>ag_running := [], ag_done := ag_done ?s3 @ [t],
      ag_early := ag_early ?s3 @ (if ag_cb ?s3 then [] else [t]), ag_broken := ag_broken ?s3 @ [], ag_rep := rep', ag_sent := ag_sent ?s3 @ out,
      ag_rops := ag_rops ?s3 @ fired ?s3 (at_now (att m_up)) ?w ev\<rparr>"
  have "(agent_step mem_bbolt AB_gob un_L True)\<^sup>*\<^sup>* s ?s4"
    by (rule exec_reach [OF 1], rule exec_reach [OF 2], rule exec_reach [OF 3], rule exec_reach [OF 4]) simp_all
  moreover have "ag_accepted ?s4 = ag_accepted s" "ag_acks ?s4 = ag_acks s" "ag_queue ?s4 = q_with []" "ag_hold ?s4 = Map.empty"
    "ag_chan ?s4 = []" "ag_running ?s4 = []" "ag_done ?s4 = [t]" "ag_early ?s4 = ag_early s @ (if ag_cb s then [] else [t])"
    "\<not> ag_cb s \<longrightarrow> ag_rops ?s4 = ag_rops s" using assms by (simp_all add: fired_def)
  ultimately show ?thesis using p(2-4) by iprover
qed

lemma ag_0_reach:
  "\<exists>s t. (agent_step mem_bbolt AB_gob un_L True)\<^sup>*\<^sup>* (Agent_start (NewQueue 100 None) m_up 1 (Some 1)) s \<and>
     ag_accepted s = [task_L] \<and> ag_done s = [t] \<and> TaskStatus_IsTerminal (t_Status t) \<and> t_TaskID t = ''B'' \<and> t_DeviceID t = ''D01'' \<and>
     ag_early s = [] \<and> length (filter (pos_ack ''B'') (ag_acks s)) = 1"
proof -
  obtain s where s: "agent_step mem_bbolt AB_gob un_L True ag_0 s" "ag_queue s = q_with [task_L]" "ag_mgr s = m_up" "ag_hold s = Map.empty"
    "ag_chan s = []" "ag_running s = []" "ag_active s = {''D01''}" "ag_workers s = 1" "ag_done s = []" "ag_live s = 1" "\<not> ag_ctx s" "ag_accepted s = [task_L]"
    "ag_acks s = [NewEnvelope 5 ''task_ack'' (PTaskAck \<lparr>ta_TaskID = ''B'', ta_Accepted = True, ta_Reason = []\<rparr>)]"
    "ag_cb s" "ag_early s = []"
    using ag_0_message by blast
  from work_off [OF s(2-11)] obtain s' t where s': "(agent_step mem_bbolt AB_gob un_L True)\<^sup>*\<^sup>* s s'" "ag_done s' = [t]"
    "TaskStatus_IsTerminal (t_Status t)" "t_TaskID t = ''B''" "t_DeviceID t = ''D01''" "ag_accepted s' = ag_accepted s" "ag_acks s' = ag_acks s"
    "ag_early s' = ag_early s @ (if ag_cb s then [] else [t])"
    by blast
  have "agent_step mem_bbolt AB_gob un_L True (Agent_start (NewQueue 100 None) m_up 1 (Some 1)) ag_0"
    unfolding ag_0_def by (rule agent_step.register)
  then have "(agent_step mem_bbolt AB_gob un_L True)\<^sup>*\<^sup>* (Agent_start (NewQueue 100 None) m_up 1 (Some 1)) s'"
    by (rule converse_rtranclp_into_rtranclp) (rule converse_rtranclp_into_rtranclp [OF s(1) s'(1)])
  then show ?thesis using s s' by (intro exI [of _ s'] exI [of _ t]) (simp add: pos_ack_def NewEnvelope_def)
qed

theorem decided_tasks_are_reported_witness:
  "\<exists>(s :: mem_db Agent) t now. t_TaskID t = ''B'' \<and> t \<in> set (ag_done s) \<and> task_result_envelope now t \<in> set (submitted (ag_rops s))"
proof -
  obtain s t where s: "(agent_step mem_bbolt AB_gob un_L True)\<^sup>*\<^sup>* (Agent_start (NewQueue 100 None) m_up 1 (Some 1)) s"
    "ag_accepted s = [task_L]" "ag_done s = [t]" "TaskStatus_IsTerminal (t_Status t)" "t_TaskID t = ''B''" "ag_early s = []" using ag_0_reach by blast
  have f: "all_fresh (NewQueue 100 None) s"
    using s(2) task_L_work(1) by (simp add: all_fresh_def NewQueue_def Queue_ListPending_def Queue_get_def)
  have d: "t \<in> set (ag_done s)" "t \<notin> set (ag_early s)" using s(3,6) by simp_all
  from decided_tasks_are_reported [OF new_inv m_dev_inv s(1) f d(1) s(4) d(2)] d s(5) show ?thesis by blast
qed

theorem agent_finishes_work_witness:
  "0 < ag_load (Agent_start (q_with [task_L]) m_up 1 None) \<and> (\<exists>s'. quiet_step True (Agent_start (q_with [task_L]) m_up 1 None) s')"
proof -
  let ?s = "Agent_start (q_with [task_L]) m_up 1 None"
  have sel: "ag_consumers ?s = {''D01''}" "ag_mgr ?s = m_up" "ag_queue ?s = q_with [task_L]" "ag_accepted ?s = []" "ag_chan ?s = []" "ag_running ?s = []"
    "ag_hold ?s = Map.empty" "\<not> ag_ctx ?s"
    using m_up_ids [of DeviceStatusOnline] by (simp_all add: Agent_start_def Executor_Start_def Let_def)
  have f: "all_fresh (q_with [task_L]) ?s"
    using task_L_work(1) sel by (simp add: all_fresh_def q_with_def Queue_ListPending_def Queue_get_def)
  have up: "\<forall>d \<in> ag_consumers ?s. dev_up (ag_mgr ?s) d \<and> \<not> dev_closed (ag_queue ?s) d"
    using sel m_up_up by (simp add: dev_closed_def q_with_def)
  have n: "0 < ag_load ?s"
    using task_L_work(2) sel by (simp add: ag_load_def dev_load_def q_with_def Queue_ListPending_def Queue_get_def)
  have r: "(quiet_step True ^^ 0) ?s ?s" by simp
  from agent_finishes_work [OF q_with_inv m_dev_inv rtranclp.rtrancl_refl [of "agent_step mem_bbolt AB_gob un_L True"] f sel(8) up r] n
  show ?thesis by simp
qed

text \<open>
  The executor runs before the callback is registered, so the result of a recovered task that finishes in
  between is never reported: the agent can come to rest, the callback registered, with a decided task and
  nothing submitted to the reporter.
\<close>

theorem early_result_is_lost:
  "\<exists>s t. (agent_step mem_bbolt AB_gob un_L True)\<^sup>*\<^sup>* (Agent_start (q_with [task_L]) m_up 1 None) s \<and> ag_cb s \<and>
     ag_done s = [t] \<and> TaskStatus_IsTerminal (t_Status t) \<and> ag_rops s = [] \<and>
     Queue_ListPending (ag_queue s) ''D01'' = [] \<and> ag_hold s = Map.empty \<and> ag_chan s = [] \<and> ag_running s = []"
proof -
  let ?s = "Agent_start (q_with [task_L]) m_up 1 None"
  have sel: "ag_queue ?s = q_with [task_L]" "ag_mgr ?s = m_up" "ag_hold ?s = Map.empty" "ag_chan ?s = []" "ag_running ?s = []"
    "ag_active ?s = {''D01''}" "ag_workers ?s = 1" "ag_done ?s = []" "ag_live ?s = 1" "\<not> ag_ctx ?s" "\<not> ag_cb ?s" "ag_rops ?s = []"
    using m_up_ids [of DeviceStatusOnline] by (simp_all add: Agent_start_def Executor_Start_def Let_def)
  from work_off [OF sel(1-10)] sel(11,12) obtain s t
    where s: "(agent_step mem_bbolt AB_gob un_L True)\<^sup>*\<^sup>* ?s s" "ag_done s = [t]" "TaskStatus_IsTerminal (t_Status t)"
      "ag_queue s = q_with []" "ag_hold s = Map.empty" "ag_chan s = []" "ag_running s = []" "ag_rops s = []" by metis
  have "(agent_step mem_bbolt AB_gob un_L True)\<^sup>*\<^sup>* ?s (s\<lparr>ag_cb := True\<rparr>)"
    by (rule rtranclp.rtrancl_into_rtrancl [OF s(1) agent_step.register])
  then show ?thesis using s
    by (intro exI [of _ "s\<lparr>ag_cb := True\<rparr>"] exI [of _ t]) (simp add: q_with_def Queue_ListPending_def Queue_get_def)
qed

definition ag_stuck :: "mem_db Agent" where
  "ag_stuck = (Agent_start (q_with [task_L]) (m_dev DeviceStatusOffline) 1 None)\<lparr>ag_running := [task_B], ag_chan := [task_C]\<rparr>"

theorem offline_devices_starve_the_rest_witness:
  "\<exists>s'. quiet_step True ag_stuck s' \<and> ag_running s' = [task_B] \<and> ag_done s' = [] \<and> (\<exists>ts. ag_chan s' = task_C # ts)"
proof -
  have sel: "ag_consumers ag_stuck = {''D01''}" "ag_mgr ag_stuck = m_dev DeviceStatusOffline" "ag_queue ag_stuck = q_with [task_L]"
    "ag_running ag_stuck = [task_B]" "ag_chan ag_stuck = [task_C]" "ag_workers ag_stuck = 1" "ag_hold ag_stuck = Map.empty" "ag_done ag_stuck = []"
    "ag_active ag_stuck = {''D01''}" "ag_live ag_stuck = 1" "\<not> ag_ctx ag_stuck"
    using m_up_ids [of DeviceStatusOffline] by (simp_all add: ag_stuck_def Agent_start_def Executor_Start_def Let_def)
  have st: "stuck ag_stuck"
    using sel task_B_sel by (simp add: stuck_def dev_up_def m_dev_def Manager_Get_def)
  let ?s' = "ag_stuck\<lparr>ag_queue := q_with [], ag_hold := (ag_hold ag_stuck)(''D01'' \<mapsto> task_L)\<rparr>"
  have "exec_step True ag_stuck (Dequeues ''D01'') ?s'"
    by (rule exec_step.dequeue) (simp_all add: sel dequeue_q_with)
  then have p: "quiet_step True ag_stuck ?s'" using sel by (auto simp: quiet_step_def)
  from offline_devices_starve_the_rest [OF st r_into_rtranclp [of "quiet_step True", OF p]] p sel show ?thesis by (intro exI [of _ ?s']) simp
qed

end
