(* ===== verification/Json.thy ===== *)
theory Json
  imports Domain NetAddr
begin

text \<open>
  JSON as Go's \<open>encoding/json\<close> reads and writes it, as far as the agent uses it: the syntax of a text
  (\<open>Unmarshal\<close> checks the whole of it first), strings with their escapes and UTF-8, and the decoding
  of an object into a structure. A value keeps the literal of a number and the body of a string as
  they stand in the text, since what they mean depends on the field they are decoded into.
\<close>

section \<open>Values and their syntax\<close>

datatype json =
    JNull
  | JBool bool
  | JNum string
  | JStr string
  | JArr "json list"
  | JObj "(string \<times> json) list"

definition is_ws :: "char \<Rightarrow> bool" where
  "is_ws c \<longleftrightarrow> c = CHR '' '' \<or> c = CHR 0x09 \<or> c = CHR 0x0A \<or> c = CHR 0x0D"

definition jws :: "string \<Rightarrow> string" where
  "jws s = dropWhile is_ws s"

definition is_digit :: "char \<Rightarrow> bool" where
  "is_digit c \<longleftrightarrow> digit_val c \<noteq> None"

definition is_hex :: "char \<Rightarrow> bool" where
  "is_hex c \<longleftrightarrow> hex_val c \<noteq> None"

text \<open>The escapes of one character, and what they stand for.\<close>

definition short_escapes :: "(char \<times> char) list" where
  "short_escapes = [(CHR ''b'', CHR 0x08), (CHR ''f'', CHR 0x0C), (CHR ''n'', CHR 0x0A), (CHR ''r'', CHR 0x0D),
     (CHR ''t'', CHR 0x09), (CHR 0x5C, CHR 0x5C), (CHR ''/'', CHR ''/''), (CHR 0x22, CHR 0x22)]"

text \<open>The body of a string up to its closing quote, and what follows.\<close>

fun jstring :: "string \<Rightarrow> (string \<times> string) option" where
  "jstring [] = None"
| "jstring (c # cs) =
     (if c = CHR 0x22 then Some ([], cs)
      else if c = CHR 0x5C then
        (case cs of
           [] \<Rightarrow> None
         | e # es \<Rightarrow>
             if map_of short_escapes e \<noteq> None then map_option (apfst (\<lambda>b. c # e # b)) (jstring es)
             else if e = CHR ''u'' \<and> 4 \<le> length es \<and> list_all is_hex (take 4 es) then
               map_option (apfst (\<lambda>b. c # e # take 4 es @ b)) (jstring (drop 4 es))
             else None)
      else if (of_char c :: nat) < 0x20 then None
      else map_option (apfst (Cons c)) (jstring cs))"

text \<open>A number: sign, integer part without leading zero, fraction, exponent.\<close>

definition jexp :: "string \<Rightarrow> string \<Rightarrow> (string \<times> string) option" where
  "jexp lit s =
     (case s of
        e # r \<Rightarrow>
          if e = CHR ''e'' \<or> e = CHR ''E'' then
            let sg = (case r of c # _ \<Rightarrow> if c = CHR ''+'' \<or> c = CHR ''-'' then [c] else [] | [] \<Rightarrow> []);
                r1 = drop (length sg) r; ds = takeWhile is_digit r1
            in if ds = [] then None else Some (lit @ e # sg @ ds, dropWhile is_digit r1)
          else Some (lit, s)
      | [] \<Rightarrow> Some (lit, s))"

definition jfrac :: "string \<Rightarrow> string \<Rightarrow> (string \<times> string) option" where
  "jfrac lit s =
     (case s of
        c # r \<Rightarrow>
          if c = CHR ''.'' then
            let ds = takeWhile is_digit r
            in if ds = [] then None else jexp (lit @ c # ds) (dropWhile is_digit r)
          else jexp lit s
      | [] \<Rightarrow> jexp lit s)"

definition jnumber :: "string \<Rightarrow> (string \<times> string) option" where
  "jnumber s =
     (let sg = (case s of c # _ \<Rightarrow> if c = CHR ''-'' then [c] else [] | [] \<Rightarrow> []); s1 = drop (length sg) s
      in case s1 of
           [] \<Rightarrow> None
         | c # r \<Rightarrow>
             if c = CHR ''0'' then jfrac (sg @ [c]) r
             else if is_digit c then jfrac (sg @ takeWhile is_digit s1) (dropWhile is_digit s1)
             else None)"

text \<open>
  A value. A call two levels down has read at least one character more, so twice the length of the text
  is enough for the first argument (\<open>jvalue_fuel\<close> below); the second is how many arrays and objects may
  still be opened.
\<close>

fun jvalue :: "nat \<Rightarrow> nat \<Rightarrow> string \<Rightarrow> (json \<times> string) option"
and jmembers :: "nat \<Rightarrow> nat \<Rightarrow> string \<Rightarrow> ((string \<times> json) list \<times> string) option"
and jelems :: "nat \<Rightarrow> nat \<Rightarrow> string \<Rightarrow> (json list \<times> string) option" where
  "jvalue 0 d s = None"
| "jvalue (Suc n) d s =
     (case jws s of
        [] \<Rightarrow> None
      | c # cs \<Rightarrow>
          if c = CHR 0x22 then map_option (apfst JStr) (jstring cs)
          else if c = CHR ''{'' then
            (if d = 0 then None
             else case jws cs of
                    [] \<Rightarrow> None
                  | x # r \<Rightarrow> if x = CHR ''}'' then Some (JObj [], r)
                             else map_option (apfst JObj) (jmembers n (d - 1) (x # r)))
          else if c = CHR ''['' then
            (if d = 0 then None
             else case jws cs of
                    [] \<Rightarrow> None
                  | x # r \<Rightarrow> if x = CHR '']'' then Some (JArr [], r)
                             else map_option (apfst JArr) (jelems n (d - 1) (x # r)))
          else if has_prefix (c # cs) ''null'' then Some (JNull, drop 4 (c # cs))
          else if has_prefix (c # cs) ''true'' then Some (JBool True, drop 4 (c # cs))
          else if has_prefix (c # cs) ''false'' then Some (JBool False, drop 5 (c # cs))
          else map_option (apfst JNum) (jnumber (c # cs)))"
| "jmembers 0 d s = None"
| "jmembers (Suc n) d s =
     (case jws s of
        [] \<Rightarrow> None
      | c # cs \<Rightarrow>
          if c \<noteq> CHR 0x22 then None
          else case jstring cs of
                 None \<Rightarrow> None
               | Some (k, r) \<Rightarrow>
                   (case jws r of
                      [] \<Rightarrow> None
                    | x # r1 \<Rightarrow>
                        if x \<noteq> CHR '':'' then None
                        else case jvalue n d r1 of
                               None \<Rightarrow> None
                             | Some (v, r2) \<Rightarrow>
                                 (case jws r2 of
                                    [] \<Rightarrow> None
                                  | y # r3 \<Rightarrow> if y = CHR '','' then map_option (apfst (Cons (k, v))) (jmembers n d r3)
                                              else if y = CHR ''}'' then Some ([(k, v)], r3)
                                              else None)))"
| "jelems 0 d s = None"
| "jelems (Suc n) d s =
     (case jvalue n d s of
        None \<Rightarrow> None
      | Some (v, r2) \<Rightarrow>
          (case jws r2 of
             [] \<Rightarrow> None
           | y # r3 \<Rightarrow> if y = CHR '','' then map_option (apfst (Cons v)) (jelems n d r3)
                       else if y = CHR '']'' then Some ([v], r3)
                       else None))"

definition maxNestingDepth :: nat where
  "maxNestingDepth = 10000"

text \<open>A whole text; \<open>None\<close> is a syntax error.\<close>

definition json_parse :: "string \<Rightarrow> json option" where
  "json_parse s =
     (case jvalue (Suc (2 * length s)) maxNestingDepth s of
        None \<Rightarrow> None
      | Some (v, r) \<Rightarrow> if jws r = [] then Some v else None)"

text \<open>The compact text of a value.\<close>

fun commas :: "string list \<Rightarrow> string" where
  "commas [] = []"
| "commas [s] = s"
| "commas (s # ss) = s @ '','' @ commas ss"

definition quoted :: "string \<Rightarrow> string" where
  "quoted r = CHR 0x22 # r @ [CHR 0x22]"

fun json_text :: "json \<Rightarrow> string" where
  "json_text JNull = ''null''"
| "json_text (JBool b) = (if b then ''true'' else ''false'')"
| "json_text (JNum l) = l"
| "json_text (JStr r) = quoted r"
| "json_text (JArr js) = ''['' @ commas (map json_text js) @ '']''"
| "json_text (JObj ms) = ''{'' @ commas (map (\<lambda>(k, v). quoted k @ '':'' @ json_text v) ms) @ ''}''"

section \<open>Reading consumes the text\<close>

lemma jstring_rest: "jstring s = Some (b, r) \<Longrightarrow> s = b @ CHR 0x22 # r"
proof (induction s arbitrary: b r rule: jstring.induct)
  case (2 c cs)
  show ?case
  proof (cases "c = CHR 0x22 \<or> c \<noteq> CHR 0x5C")
    case True
    then show ?thesis using 2 by (auto split: if_splits)
  next
    case False
    then obtain e es where cs: "cs = e # es" using 2(4) by (cases cs) auto
    show ?thesis
    proof (cases "map_of short_escapes e \<noteq> None")
      case True
      then show ?thesis using 2(4) False cs 2(1) [of e es] by auto
    next
      case no: False
      then have u: "e = CHR ''u'' \<and> 4 \<le> length es \<and> list_all is_hex (take 4 es)"
        and j: "map_option (apfst (\<lambda>b. c # e # take 4 es @ b)) (jstring (drop 4 es)) = Some (b, r)"
        using 2(4) False cs by (auto split: if_splits)
      then obtain b' where "jstring (drop 4 es) = Some (b', r)" "b = c # e # take 4 es @ b'" by auto
      moreover from this 2(2) [of e es] False cs no u have "drop 4 es = b' @ CHR 0x22 # r" by auto
      ultimately show ?thesis using cs by (metis append_Cons append_assoc append_take_drop_id)
    qed
  qed
qed simp

lemma jexp_rest: "jexp lit s = Some (l, r) \<Longrightarrow> lit @ s = l @ r \<and> length lit \<le> length l"
  by (auto simp: jexp_def Let_def split: list.splits if_splits)

lemma jfrac_rest: "jfrac lit s = Some (l, r) \<Longrightarrow> lit @ s = l @ r \<and> length lit \<le> length l"
  by (auto simp: jfrac_def Let_def dest!: jexp_rest split: list.splits if_splits)

lemma jnumber_rest: "jnumber s = Some (l, r) \<Longrightarrow> s = l @ r \<and> l \<noteq> []"
  by (auto simp: jnumber_def Let_def dest!: jfrac_rest split: list.splits if_splits)

lemma jws_length: "length (jws s) \<le> length s"
  by (simp add: jws_def length_dropWhile_le)

lemma jws_Cons: "jws s = c # cs \<Longrightarrow> length cs < length s"
  using jws_length [of s] by simp

text \<open>The ways in which reading a value, members and elements succeeds.\<close>

lemma jvalue_cases:
  assumes "jvalue n d s = Some (v, r)"
  obtains (str) cs b where "jws s = CHR 0x22 # cs" "jstring cs = Some (b, r)" "v = JStr b"
  | (noobj) cs where "jws s = CHR ''{'' # cs" "0 < d" "jws cs = CHR ''}'' # r" "v = JObj []"
  | (obj) n' cs ms where "n = Suc n'" "jws s = CHR ''{'' # cs" "0 < d" "jmembers n' (d - 1) (jws cs) = Some (ms, r)" "v = JObj ms"
  | (noarr) cs where "jws s = CHR ''['' # cs" "0 < d" "jws cs = CHR '']'' # r" "v = JArr []"
  | (arr) n' cs js where "n = Suc n'" "jws s = CHR ''['' # cs" "0 < d" "jelems n' (d - 1) (jws cs) = Some (js, r)" "v = JArr js"
  | (nul) "jws s = ''null'' @ r" "v = JNull"
  | (true) "jws s = ''true'' @ r" "v = JBool True"
  | (false) "jws s = ''false'' @ r" "v = JBool False"
  | (num) l where "jnumber (jws s) = Some (l, r)" "v = JNum l"
proof -
  obtain n' c cs where n: "n = Suc n'" "jws s = c # cs" using assms by (cases n) (auto split: list.splits)
  have pre: "c # cs = p @ drop (length p) (c # cs)" if "has_prefix (c # cs) p" for p
    using that by (metis has_prefix_def append_take_drop_id)
  from assms n show thesis
    by (auto split: if_splits list.splits intro: str noobj obj noarr arr num)
      (use n pre [of "''null''"] pre [of "''true''"] pre [of "''false''"] nul true false in \<open>simp_all add: eval_nat_numeral\<close>)
qed

lemma jmembers_cases:
  assumes "jmembers n d s = Some (ms, r)"
  obtains n' cs k r0 r1 v r2 where "n = Suc n'" "jws s = CHR 0x22 # cs" "jstring cs = Some (k, r0)" "jws r0 = CHR '':'' # r1"
    "jvalue n' d r1 = Some (v, r2)" "jws r2 = CHR ''}'' # r" "ms = [(k, v)]"
  | n' cs k r0 r1 v r2 r3 ms' where "n = Suc n'" "jws s = CHR 0x22 # cs" "jstring cs = Some (k, r0)" "jws r0 = CHR '':'' # r1"
    "jvalue n' d r1 = Some (v, r2)" "jws r2 = CHR '','' # r3" "jmembers n' d r3 = Some (ms', r)" "ms = (k, v) # ms'"
  using assms by (cases n) (auto split: list.splits if_splits option.splits)

lemma jelems_cases:
  assumes "jelems n d s = Some (js, r)"
  obtains n' v r2 where "n = Suc n'" "jvalue n' d s = Some (v, r2)" "jws r2 = CHR '']'' # r" "js = [v]"
  | n' v r2 r3 js' where "n = Suc n'" "jvalue n' d s = Some (v, r2)" "jws r2 = CHR '','' # r3" "jelems n' d r3 = Some (js', r)" "js = v # js'"
  using assms by (cases n) (auto split: list.splits if_splits option.splits)

lemma jvalue_rest:
  "jvalue n d s = Some (v, r) \<Longrightarrow> length r < length s"
  "jmembers n d s = Some (ms, r) \<Longrightarrow> length r < length s"
  "jelems n d s = Some (js, r) \<Longrightarrow> length r < length s"
proof (induction n arbitrary: d s v ms js r rule: nat.induct)
  case (Suc n)
  note w = jws_length jws_Cons
  {
    case 1
    then show ?case
    proof (cases rule: jvalue_cases)
      case (num l)
      from jnumber_rest [OF num(1)] have "length r < length (jws s)" by (cases l) auto
      with jws_length [of s] show ?thesis by simp
    next
      case (obj n' cs ms)
      with Suc(2) [of "d - 1" "jws cs" ms r] jws_Cons [of s] jws_length [of cs] show ?thesis by fastforce
    next
      case (arr n' cs js)
      with Suc(3) [of "d - 1" "jws cs" js r] jws_Cons [of s] jws_length [of cs] show ?thesis by fastforce
    next
      case (str cs b)
      with jstring_rest [OF str(2)] jws_Cons [of s] show ?thesis by auto
    qed (use w [of s] in \<open>fastforce dest: jws_Cons\<close>)+
  next
    case 2
    then show ?case
    proof (cases rule: jmembers_cases)
      case (1 n' cs k r0 r1 v r2)
      with Suc(1) [of d r1 v r2] jstring_rest [OF 1(3)] jws_Cons [of s] jws_Cons [of r0] jws_Cons [of r2] show ?thesis by fastforce
    next
      case (2 n' cs k r0 r1 v r2 r3 ms')
      with Suc(1) [of d r1 v r2] Suc(2) [of d r3 ms' r] jstring_rest [OF 2(3)] jws_Cons [of s] jws_Cons [of r0] jws_Cons [of r2]
      show ?thesis by fastforce
    qed
  next
    case 3
    then show ?case
    proof (cases rule: jelems_cases)
      case (1 n' v r2)
      with Suc(1) [of d s v r2] jws_Cons [of r2] show ?thesis by fastforce
    next
      case (2 n' v r2 r3 js')
      with Suc(1) [of d s v r2] Suc(3) [of d r3 js' r] jws_Cons [of r2] show ?thesis by fastforce
    qed
  }
qed simp_all

text \<open>With enough fuel the result does not depend on it.\<close>

lemma jvalue_fuel:
  "2 * length s < n \<Longrightarrow> 2 * length s < m \<Longrightarrow> jvalue n d s = jvalue m d s"
  "2 * length s < n \<Longrightarrow> 2 * length s < m \<Longrightarrow> jmembers n d s = jmembers m d s"
  "2 * length s + 1 < n \<Longrightarrow> 2 * length s + 1 < m \<Longrightarrow> jelems n d s = jelems m d s"
proof (induction n arbitrary: m d s rule: nat.induct)
  case (Suc n)
  {
    case 1
    then obtain m' where m: "m = Suc m'" by (cases m) auto
    have "jmembers n (d - 1) (x # r) = jmembers m' (d - 1) (x # r)" "jelems n (d - 1) (x # r) = jelems m' (d - 1) (x # r)"
      if "jws s = c # cs" "jws cs = x # r" for c cs x r
      using 1 m jws_Cons [OF that(1)] jws_Cons [OF that(2)] by (auto intro!: Suc.IH)
    then show ?case unfolding m jvalue.simps by (simp split: list.split)
  next
    case 2
    then obtain m' where m: "m = Suc m'" by (cases m) auto
    have "jvalue n d r1 = jvalue m' d r1" if "jws s = c # cs" "jstring cs = Some (k, r0)" "jws r0 = x # r1" for c cs k r0 x r1
      using 2 m jws_Cons [OF that(1)] jstring_rest [OF that(2)] jws_Cons [OF that(3)] by (auto intro!: Suc.IH)
    moreover have "jmembers n d r3 = jmembers m' d r3"
      if "jws s = c # cs" "jstring cs = Some (k, r0)" "jws r0 = x # r1" "jvalue m' d r1 = Some (v, r2)" "jws r2 = y # r3"
      for c cs k r0 x r1 v r2 y r3
      using 2 m jws_Cons [OF that(1)] jstring_rest [OF that(2)] jws_Cons [OF that(3)] jvalue_rest(1) [OF that(4)] jws_Cons [OF that(5)]
      by (auto intro!: Suc.IH)
    ultimately show ?case unfolding m jmembers.simps by (simp split: list.split option.split)
  next
    case 3
    then obtain m' where m: "m = Suc m'" by (cases m) auto
    have "jvalue n d s = jvalue m' d s" using 3 m by (auto intro!: Suc.IH)
    moreover have "jelems n d r3 = jelems m' d r3" if "jvalue m' d s = Some (v, r2)" "jws r2 = y # r3" for v r2 y r3
      using 3 m jvalue_rest(1) [OF that(1)] jws_Cons [OF that(2)] by (auto intro!: Suc.IH)
    ultimately show ?case unfolding m jelems.simps by (simp split: list.split option.split)
  }
qed simp_all

section \<open>Reading back the compact text\<close>

definition wf_raw :: "string \<Rightarrow> bool" where
  "wf_raw r \<longleftrightarrow> jstring (r @ [CHR 0x22]) = Some (r, [])"

definition wf_num :: "string \<Rightarrow> bool" where
  "wf_num l \<longleftrightarrow> jnumber l = Some (l, [])"

fun wf_json :: "nat \<Rightarrow> json \<Rightarrow> bool" where
  "wf_json d JNull \<longleftrightarrow> True"
| "wf_json d (JBool b) \<longleftrightarrow> True"
| "wf_json d (JNum l) \<longleftrightarrow> wf_num l"
| "wf_json d (JStr r) \<longleftrightarrow> wf_raw r"
| "wf_json d (JArr js) \<longleftrightarrow> 0 < d \<and> (\<forall>j \<in> set js. wf_json (d - 1) j)"
| "wf_json d (JObj ms) \<longleftrightarrow> 0 < d \<and> (\<forall>(k, v) \<in> set ms. wf_raw k \<and> wf_json (d - 1) v)"

text \<open>What may follow a number: nothing that could continue it.\<close>

definition num_end :: "string \<Rightarrow> bool" where
  "num_end s \<longleftrightarrow> (case s of [] \<Rightarrow> True | c # _ \<Rightarrow> \<not> is_digit c \<and> c \<notin> {CHR ''.'', CHR ''e'', CHR ''E''})"

lemma jstring_append: "jstring s = Some (b, r) \<Longrightarrow> jstring (s @ t) = Some (b, r @ t)"
proof (induction s arbitrary: b r rule: jstring.induct)
  case (2 c cs)
  show ?case
  proof (cases "c = CHR 0x22 \<or> c \<noteq> CHR 0x5C")
    case True
    then show ?thesis using 2 by (auto split: if_splits)
  next
    case False
    then obtain e es where cs: "cs = e # es" using 2(4) by (cases cs) auto
    then show ?thesis using 2 False by (auto split: if_splits)
  qed
qed simp

lemma wf_raw_read: "wf_raw r \<Longrightarrow> jstring (r @ CHR 0x22 # t) = Some (r, t)"
  using jstring_append [of "r @ [CHR 0x22]" r "[]" t] by (simp add: wf_raw_def)

lemma digits_end:
  assumes "num_end t"
  shows "takeWhile is_digit (s @ t) = takeWhile is_digit s" "dropWhile is_digit (s @ t) = dropWhile is_digit s @ t"
  using assms by (induction s) (cases t; simp add: num_end_def)+

lemma jexp_append:
  assumes "jexp lit s = Some (l, r)" "num_end t"
  shows "jexp lit (s @ t) = Some (l, r @ t)"
proof (cases s)
  case Nil
  then show ?thesis using assms by (cases t) (auto simp: jexp_def num_end_def)
next
  case (Cons e s')
  then show ?thesis
    using assms digits_end [OF assms(2)] by (cases s') (auto simp: jexp_def Let_def split: if_splits)
qed

lemma jfrac_append:
  assumes "jfrac lit s = Some (l, r)" "num_end t"
  shows "jfrac lit (s @ t) = Some (l, r @ t)"
proof (cases s)
  case Nil
  then show ?thesis using assms by (cases t) (auto simp: jfrac_def jexp_def num_end_def)
next
  case (Cons e s')
  then show ?thesis
    using assms digits_end [OF assms(2)] jexp_append [OF _ assms(2)] by (auto simp: jfrac_def Let_def split: if_splits) (metis append_Cons)
qed

lemma jnumber_append:
  assumes "jnumber s = Some (l, r)" "num_end t"
  shows "jnumber (s @ t) = Some (l, r @ t)"
proof -
  define sg where "sg = (case s of c # _ \<Rightarrow> if c = CHR ''-'' then [c] else [] | [] \<Rightarrow> [])"
  obtain c s' where s: "drop (length sg) s = c # s'"
    using assms(1) by (auto simp: jnumber_def Let_def sg_def split: list.splits if_splits)
  then have "s \<noteq> []" by auto
  then have sg: "(case s @ t of c # _ \<Rightarrow> if c = CHR ''-'' then [c] else [] | [] \<Rightarrow> []) = sg" "drop (length sg) (s @ t) = c # s' @ t"
    using s by (cases s; auto simp: sg_def)+
  show ?thesis
    using assms(1) s jfrac_append [OF _ assms(2)] digits_end [OF assms(2), of "c # s'"]
    unfolding jnumber_def Let_def sg sg_def [symmetric] by (auto split: if_splits)
qed

lemma wf_num_hd: "wf_num l \<Longrightarrow> \<exists>c cs. l = c # cs \<and> (c = CHR ''-'' \<or> is_digit c)"
  by (auto simp: wf_num_def jnumber_def Let_def is_digit_def digit_val_def split: list.splits if_splits)

lemma is_digit_chars: "is_digit c \<longleftrightarrow> c \<in> set ''0123456789''"
  by (auto simp: is_digit_def digit_val_def)

lemma text_hd:
  assumes "wf_json d v"
  obtains c cs where "json_text v = c # cs" "\<not> is_ws c" "c \<notin> {CHR '']'', CHR ''}''}"
proof -
  have "\<exists>c cs. json_text v = c # cs \<and> \<not> is_ws c \<and> c \<notin> {CHR '']'', CHR ''}''}"
  proof (cases v)
    case (JNum l)
    with assms wf_num_hd [of l] show ?thesis by (auto simp: is_ws_def is_digit_chars)
  qed (auto simp: quoted_def is_ws_def)
  then show thesis using that by blast
qed

lemma jws_id: "\<not> is_ws c \<Longrightarrow> jws (c # cs) = c # cs"
  by (simp add: jws_def)

lemma jws_id_simps [simp]:
  "jws [] = []" "jws (CHR 0x22 # s) = CHR 0x22 # s" "jws (CHR '':'' # s) = CHR '':'' # s" "jws (CHR '','' # s) = CHR '','' # s"
  "jws (CHR ''}'' # s) = CHR ''}'' # s" "jws (CHR '']'' # s) = CHR '']'' # s" "jws (CHR ''{'' # s) = CHR ''{'' # s"
  "jws (CHR ''['' # s) = CHR ''['' # s"
  by (simp_all add: jws_def is_ws_def)

lemma num_end_simps [simp]:
  "num_end []" "num_end (CHR '','' # s)" "num_end (CHR '']'' # s)" "num_end (CHR ''}'' # s)"
  by (simp_all add: num_end_def is_digit_chars)

lemma commas_Cons: "commas (s # ss) = s @ (if ss = [] then [] else '','' @ commas ss)"
  by (cases ss) simp_all

text \<open>Reading elements and members, given that each value is read back.\<close>

lemma jelems_text:
  assumes "\<And>j n t. j \<in> set js \<Longrightarrow> num_end t \<Longrightarrow> 2 * length (json_text j) < n \<Longrightarrow> jvalue n d (json_text j @ t) = Some (j, t)"
    and "js \<noteq> []" "2 * length (commas (map json_text js)) + 1 < n"
  shows "jelems n d (commas (map json_text js) @ CHR '']'' # t) = Some (js, t)"
  using assms
proof (induction js arbitrary: n)
  case (Cons j js)
  from Cons.prems(3) obtain n' where n: "n = Suc n'" by (cases n) auto
  show ?case
  proof (cases "js = []")
    case True
    with Cons.prems n show ?thesis by simp
  next
    case False
    have "jvalue n' d (json_text j @ CHR '','' # commas (map json_text js) @ CHR '']'' # t) =
        Some (j, CHR '','' # commas (map json_text js) @ CHR '']'' # t)"
      using Cons.prems n False by (intro Cons.prems(1)) (simp_all add: commas_Cons)
    moreover have "jelems n' d (commas (map json_text js) @ CHR '']'' # t) = Some (js, t)"
      using Cons.prems n False by (intro Cons.IH) (simp_all add: commas_Cons)
    ultimately show ?thesis using n False by (simp add: commas_Cons)
  qed
qed simp

lemma jmembers_text:
  assumes "\<And>k v n t. (k, v) \<in> set ms \<Longrightarrow> num_end t \<Longrightarrow> 2 * length (json_text v) < n \<Longrightarrow> jvalue n d (json_text v @ t) = Some (v, t)"
    and "\<And>k v. (k, v) \<in> set ms \<Longrightarrow> wf_raw k"
    and "ms \<noteq> []" "2 * length (commas (map (\<lambda>(k, v). quoted k @ '':'' @ json_text v) ms)) < n"
  shows "jmembers n d (commas (map (\<lambda>(k, v). quoted k @ '':'' @ json_text v) ms) @ CHR ''}'' # t) = Some (ms, t)"
  using assms
proof (induction ms arbitrary: n)
  case (Cons m ms)
  obtain k v where m: "m = (k, v)" by fastforce
  let ?ms = "commas (map (\<lambda>(k, v). quoted k @ '':'' @ json_text v) ms)"
  from Cons.prems(4) obtain n' where n: "n = Suc n'" by (cases n) auto
  have k: "jstring (k @ CHR 0x22 # s) = Some (k, s)" for s
    using Cons.prems(2) [of k v] m by (intro wf_raw_read) simp
  have v: "jvalue n' d (json_text v @ s) = Some (v, s)" if "num_end s" for s
    using Cons.prems(4) n m that by (intro Cons.prems(1) [of k]) (simp_all add: commas_Cons quoted_def)
  show ?case
  proof (cases "ms = []")
    case True
    with k v n m show ?thesis by (simp add: quoted_def)
  next
    case False
    have "jmembers n' d (?ms @ CHR ''}'' # t) = Some (ms, t)"
    proof (rule Cons.IH)
      show "2 * length ?ms < n'" using Cons.prems(4) n m False by (simp add: commas_Cons)
      show "wf_raw k" if "(k, v) \<in> set ms" for k v by (rule Cons.prems(2) [of k v]) (simp add: that)
      show "jvalue n d (json_text v @ t) = Some (v, t)" if "(k, v) \<in> set ms" "num_end t" "2 * length (json_text v) < n" for k v n t
        by (rule Cons.prems(1) [of k v, OF _ that(2,3)]) (simp add: that(1))
    qed (rule False)
    with k v n m False show ?thesis by (simp add: commas_Cons quoted_def)
  qed
qed simp

lemma jvalue_text:
  "wf_json d v \<Longrightarrow> num_end t \<Longrightarrow> 2 * length (json_text v) < n \<Longrightarrow> jvalue n d (json_text v @ t) = Some (v, t)"
proof (induction d v arbitrary: n t rule: wf_json.induct)
  case (3 d l)
  from wf_num_hd [of l] 3(1) obtain c cs where c: "l = c # cs" "c = CHR ''-'' \<or> is_digit c" by auto
  from 3(3) obtain n' where n: "n = Suc n'" by (cases n) auto
  have "jnumber (l @ t) = Some (l, t)" using jnumber_append [of l l "[]" t] 3(1,2) by (simp add: wf_num_def)
  moreover have "\<not> is_ws c" "c \<noteq> CHR 0x22" "c \<noteq> CHR ''{''" "c \<noteq> CHR ''[''" "c \<noteq> CHR ''n''" "c \<noteq> CHR ''t''" "c \<noteq> CHR ''f''"
    using c(2) by (auto simp: is_ws_def is_digit_chars)
  ultimately show ?case using c(1) n by (simp add: jws_id has_prefix_def)
next
  case (5 d js)
  from 5(4) obtain n' where n: "n = Suc n'" by (cases n) auto
  show ?case
  proof (cases js)
    case Nil
    with 5 n show ?thesis by simp
  next
    case (Cons j js')
    with 5(2) have "wf_json (d - 1) j" by simp
    then obtain c cs where c: "json_text j = c # cs" "\<not> is_ws c" "c \<notin> {CHR '']'', CHR ''}''}" by (rule text_hd)
    have "jelems n' (d - 1) (commas (map json_text js) @ CHR '']'' # t) = Some (js, t)"
      using 5 n Cons by (intro jelems_text) auto
    then show ?thesis using 5(2) n Cons c by (simp add: commas_Cons jws_id)
  qed
next
  case (6 d ms)
  from 6(4) obtain n' where n: "n = Suc n'" by (cases n) auto
  show ?case
  proof (cases ms)
    case Nil
    with 6 n show ?thesis by simp
  next
    case (Cons m ms')
    have ih: "jvalue n (d - 1) (json_text v @ t) = Some (v, t)"
      if "(k, v) \<in> set ms" "num_end t" "2 * length (json_text v) < n" for k v n t
      using 6(1) [OF that(1) refl _ that(2,3)] 6(2) that(1) by auto
    have k: "wf_raw k" if "(k, v) \<in> set ms" for k v using 6(2) that by auto
    have "jmembers n' (d - 1) (commas (map (\<lambda>(k, v). quoted k @ '':'' @ json_text v) ms) @ CHR ''}'' # t) = Some (ms, t)"
      using 6(4) n Cons by (intro jmembers_text [OF ih k]) simp_all
    then show ?thesis using 6(2) n Cons by (cases m) (simp add: commas_Cons quoted_def)
  qed
next
  case (4 d r)
  then obtain n' where n: "n = Suc n'" by (cases n) auto
  then show ?case using wf_raw_read [of r t] 4(1) by (simp add: quoted_def)
qed (case_tac n; simp add: jws_def is_ws_def has_prefix_def)+

text \<open>What has been read is well formed.\<close>

lemma jstring_wf: "jstring s = Some (b, r) \<Longrightarrow> wf_raw b"
proof (induction s arbitrary: b r rule: jstring.induct)
  case (2 c cs)
  show ?case
  proof (cases "c = CHR 0x22 \<or> c \<noteq> CHR 0x5C")
    case True
    then show ?thesis using 2 by (auto simp: wf_raw_def split: if_splits)
  next
    case False
    then obtain e es where cs: "cs = e # es" using 2(4) by (cases cs) auto
    then show ?thesis using 2 False by (auto simp: wf_raw_def split: if_splits)
  qed
qed simp

lemma takeWhile_all: "takeWhile P (takeWhile P xs) = takeWhile P xs" "dropWhile P (takeWhile P xs) = []"
  by (auto dest: set_takeWhileD)

lemma jexp_wf: "jexp lit s = Some (l, r) \<Longrightarrow> \<exists>x. l = lit @ x \<and> jexp lit x = Some (l, [])"
proof (cases s)
  case (Cons e s')
  assume a: "jexp lit s = Some (l, r)"
  show ?thesis
  proof (cases "e = CHR ''e'' \<or> e = CHR ''E''")
    case True
    define sg where "sg = (case s' of c # _ \<Rightarrow> if c = CHR ''+'' \<or> c = CHR ''-'' then [c] else [] | [] \<Rightarrow> [])"
    define ds where "ds = takeWhile is_digit (drop (length sg) s')"
    have l: "l = lit @ e # sg @ ds" "ds \<noteq> []"
      using a Cons True by (auto simp: jexp_def Let_def sg_def ds_def split: if_splits)
    have d: "takeWhile is_digit ds = ds" "dropWhile is_digit ds = []" unfolding ds_def by (rule takeWhile_all)+
    have "hd ds \<notin> {CHR ''+'', CHR ''-''}"
      using l(2) set_takeWhileD [of "hd ds" is_digit "drop (length sg) s'"] hd_in_set [of ds]
      unfolding ds_def [symmetric] by (auto simp: is_digit_chars)
    then have "(case sg @ ds of c # _ \<Rightarrow> if c = CHR ''+'' \<or> c = CHR ''-'' then [c] else [] | [] \<Rightarrow> []) = sg"
      using l(2) by (cases ds) (auto simp: sg_def split: list.splits)
    then have "jexp lit (e # sg @ ds) = Some (l, [])" using True l by (simp add: jexp_def d)
    with l show ?thesis by blast
  next
    case False
    with a Cons show ?thesis by (auto simp: jexp_def)
  qed
qed (auto simp: jexp_def)

lemma jfrac_wf: "jfrac lit s = Some (l, r) \<Longrightarrow> \<exists>x. l = lit @ x \<and> jfrac lit x = Some (l, [])"
proof (cases s)
  case (Cons c s')
  assume a: "jfrac lit s = Some (l, r)"
  show ?thesis
  proof (cases "c = CHR ''.''")
    case True
    define ds where "ds = takeWhile is_digit s'"
    have d: "takeWhile is_digit ds = ds" "dropWhile is_digit ds = []" unfolding ds_def by (rule takeWhile_all)+
    have j: "jexp (lit @ c # ds) (dropWhile is_digit s') = Some (l, r)" "ds \<noteq> []"
      using a Cons True by (auto simp: jfrac_def Let_def ds_def split: if_splits)
    from jexp_wf [OF j(1)] obtain x where x: "l = (lit @ c # ds) @ x" "jexp (lit @ c # ds) x = Some (l, [])" by blast
    have "num_end x \<or> (\<exists>e y. x = e # y \<and> (e = CHR ''e'' \<or> e = CHR ''E''))"
      using x(2) by (cases x) (auto simp: jexp_def split: if_splits)
    then have "takeWhile is_digit (ds @ x) = ds" "dropWhile is_digit (ds @ x) = x"
      using d by (auto simp: digits_end(1) num_end_def is_digit_chars takeWhile_append dropWhile_append split: list.splits)
    with x j(2) True have "jfrac lit (c # ds @ x) = Some (l, [])" by (simp add: jfrac_def)
    with x(1) show ?thesis by (intro exI [of _ "c # ds @ x"]) simp
  next
    case False
    with a Cons have "jexp lit s = Some (l, r)" by (simp add: jfrac_def)
    from jexp_wf [OF this] obtain x where x: "l = lit @ x" "jexp lit x = Some (l, [])" by blast
    then have "jfrac lit x = Some (l, [])"
      by (cases x) (auto simp: jfrac_def jexp_def split: if_splits)
    with x show ?thesis by blast
  qed
next
  case Nil
  assume "jfrac lit s = Some (l, r)"
  with Nil show ?thesis by (auto simp: jfrac_def jexp_def)
qed

lemma jnumber_wf:
  assumes "jnumber s = Some (l, r)"
  shows "wf_num l"
proof -
  define sg where "sg = (case s of c # _ \<Rightarrow> if c = CHR ''-'' then [c] else [] | [] \<Rightarrow> [])"
  obtain c s' where s: "drop (length sg) s = c # s'"
    using assms by (auto simp: jnumber_def Let_def sg_def split: list.splits if_splits)
  have sg: "sg = [] \<and> c \<noteq> CHR ''-'' \<or> sg = ''-''" using s by (auto simp: sg_def split: list.splits if_splits)
  define ds where "ds = (if c = CHR ''0'' then [c] else takeWhile is_digit (c # s'))"
  have j: "jfrac (sg @ ds) (drop (length ds) (c # s')) = Some (l, r)" "c = CHR ''0'' \<or> is_digit c"
    using assms s unfolding jnumber_def Let_def sg_def [symmetric] ds_def
    by (auto simp: dropWhile_eq_drop split: if_splits)
  from jfrac_wf [OF j(1)] obtain x where x: "l = (sg @ ds) @ x" "jfrac (sg @ ds) x = Some (l, [])" by blast
  have "num_end x \<or> (\<exists>e y. x = e # y \<and> e \<in> {CHR ''.'', CHR ''e'', CHR ''E''})"
    using x(2) by (cases x) (auto simp: jfrac_def jexp_def split: if_splits)
  then have d: "takeWhile is_digit (ds @ x) = ds" "dropWhile is_digit (ds @ x) = x" if "c \<noteq> CHR ''0''"
    using that takeWhile_all [of is_digit "c # s'"] unfolding ds_def
    by (auto simp: digits_end num_end_def is_digit_chars takeWhile_append dropWhile_append split: list.splits)
  have "\<exists>ds'. ds = c # ds'" using j(2) by (auto simp: ds_def)
  then obtain ds' where ds': "ds = c # ds'" ..
  have "jnumber l = Some (l, [])"
    using sg x d ds' j(2) by (cases "c = CHR ''0''") (auto simp: jnumber_def ds_def)
  then show ?thesis by (simp add: wf_num_def)
qed

lemma jvalue_wf:
  "jvalue n d s = Some (v, r) \<Longrightarrow> wf_json d v"
  "jmembers n d s = Some (ms, r) \<Longrightarrow> \<forall>(k, v) \<in> set ms. wf_raw k \<and> wf_json d v"
  "jelems n d s = Some (js, r) \<Longrightarrow> \<forall>j \<in> set js. wf_json d j"
proof (induction n arbitrary: d s v ms js r rule: nat.induct)
  case (Suc n)
  {
    case 1
    then show ?case
      by (cases rule: jvalue_cases) (auto simp: jstring_wf jnumber_wf dest: Suc.IH)
  next
    case 2
    then show ?case
      by (cases rule: jmembers_cases) (auto simp: jstring_wf dest: Suc.IH)
  next
    case 3
    then show ?case
      by (cases rule: jelems_cases) (auto dest: Suc.IH)
  }
qed simp_all

lemma json_parse_text: "wf_json maxNestingDepth v \<Longrightarrow> json_parse (json_text v) = Some v"
  using jvalue_text [of maxNestingDepth v "[]"] by (simp add: json_parse_def del: jvalue.simps)

lemma json_parse_wf: "json_parse s = Some v \<Longrightarrow> wf_json maxNestingDepth v"
  by (auto simp: json_parse_def simp del: jvalue.simps dest: jvalue_wf split: option.splits if_splits)

section \<open>Strings\<close>

text \<open>
  A Go string is any sequence of bytes. The encoder copies valid UTF-8, escapes what JSON and HTML need,
  and writes the replacement character for a byte that is not part of a valid sequence. \<open>utf8_size\<close> is the
  length of the multi-byte sequence at the beginning, 0 when there is none.
\<close>

abbreviation bv :: "char \<Rightarrow> nat" where
  "bv \<equiv> of_char"

definition utf8_cont :: "char \<Rightarrow> bool" where
  "utf8_cont c \<longleftrightarrow> 0x80 \<le> bv c \<and> bv c \<le> 0xBF"

definition utf8_second :: "char \<Rightarrow> char \<Rightarrow> bool" where
  "utf8_second a b \<longleftrightarrow> (if bv a = 0xE0 then 0xA0 else if bv a = 0xF0 then 0x90 else 0x80) \<le> bv b \<and>
     bv b \<le> (if bv a = 0xED then 0x9F else if bv a = 0xF4 then 0x8F else 0xBF)"

definition utf8_size :: "string \<Rightarrow> nat" where
  "utf8_size s =
     (case s of
        a # b # r \<Rightarrow>
          if 0xC2 \<le> bv a \<and> bv a \<le> 0xDF then (if utf8_second a b then 2 else 0)
          else if 0xE0 \<le> bv a \<and> bv a \<le> 0xEF then
            (case r of c # _ \<Rightarrow> if utf8_second a b \<and> utf8_cont c then 3 else 0 | [] \<Rightarrow> 0)
          else if 0xF0 \<le> bv a \<and> bv a \<le> 0xF4 then
            (case r of c # d # _ \<Rightarrow> if utf8_second a b \<and> utf8_cont c \<and> utf8_cont d then 4 else 0 | _ \<Rightarrow> 0)
          else 0
      | _ \<Rightarrow> 0)"

definition hex_digit :: "nat \<Rightarrow> char" where
  "hex_digit n = ''0123456789abcdef'' ! n"

definition escape_ascii :: "char \<Rightarrow> string" where
  "escape_ascii c =
     (if c = CHR 0x5C \<or> c = CHR 0x22 then [CHR 0x5C, c]
      else if c = CHR 0x08 then [CHR 0x5C, CHR ''b'']
      else if c = CHR 0x0C then [CHR 0x5C, CHR ''f'']
      else if c = CHR 0x0A then [CHR 0x5C, CHR ''n'']
      else if c = CHR 0x0D then [CHR 0x5C, CHR ''r'']
      else if c = CHR 0x09 then [CHR 0x5C, CHR ''t'']
      else if bv c < 0x20 \<or> c \<in> {CHR ''<'', CHR ''>'', CHR ''&''} then
        CHR 0x5C # ''u00'' @ [hex_digit (bv c div 16), hex_digit (bv c mod 16)]
      else [c])"

definition escape_rune :: "string \<Rightarrow> string" where
  "escape_rune r =
     (if map bv r = [0xE2, 0x80, 0xA8] then CHR 0x5C # ''u2028''
      else if map bv r = [0xE2, 0x80, 0xA9] then CHR 0x5C # ''u2029'' else r)"

function json_escape :: "string \<Rightarrow> string" where
  "json_escape [] = []"
| "json_escape (c # cs) =
     (if bv c < 0x80 then escape_ascii c @ json_escape cs
      else case utf8_size (c # cs) of
             0 \<Rightarrow> CHR 0x5C # ''ufffd'' @ json_escape cs
           | Suc k \<Rightarrow> escape_rune (take (Suc k) (c # cs)) @ json_escape (drop k cs))"
  by pat_completeness auto
termination by (relation "measure length") auto

text \<open>The UTF-8 encoding of a code point, and the decoding of a string's body.\<close>

definition utf8_encode :: "nat \<Rightarrow> string" where
  "utf8_encode r =
     map char_of
       (if r < 0x80 then [r]
        else if r < 0x800 then [0xC0 + r div 64, 0x80 + r mod 64]
        else if 0x10FFFF < r \<or> 0xD800 \<le> r \<and> r < 0xE000 then [0xEF, 0xBF, 0xBD]
        else if r < 0x10000 then [0xE0 + r div 4096, 0x80 + r div 64 mod 64, 0x80 + r mod 64]
        else [0xF0 + r div 262144, 0x80 + r div 4096 mod 64, 0x80 + r div 64 mod 64, 0x80 + r mod 64])"

definition hex4 :: "string \<Rightarrow> nat" where
  "hex4 s = foldl (\<lambda>n c. 16 * n + (case hex_val c of None \<Rightarrow> 0 | Some h \<Rightarrow> h)) 0 (take 4 s)"

text \<open>The second half of a surrogate pair, as an escape at the beginning of the text.\<close>

definition low_surrogate :: "string \<Rightarrow> nat option" where
  "low_surrogate s =
     (case s of
        a # u # r \<Rightarrow>
          if a = CHR 0x5C \<and> u = CHR ''u'' \<and> 4 \<le> length r \<and> list_all is_hex (take 4 r) \<and> 0xDC00 \<le> hex4 r \<and> hex4 r < 0xE000
          then Some (hex4 r) else None
      | _ \<Rightarrow> None)"

function json_unquote :: "string \<Rightarrow> string" where
  "json_unquote [] = []"
| "json_unquote (c # cs) =
     (if c = CHR 0x5C then
        (case cs of
           [] \<Rightarrow> []
         | e # es \<Rightarrow>
             (case map_of short_escapes e of
                Some x \<Rightarrow> x # json_unquote es
              | None \<Rightarrow>
                  if 0xD800 \<le> hex4 es \<and> hex4 es < 0xDC00 then
                    (case low_surrogate (drop 4 es) of
                       Some lo \<Rightarrow> utf8_encode ((hex4 es - 0xD800) * 1024 + (lo - 0xDC00) + 0x10000) @ json_unquote (drop 10 es)
                     | None \<Rightarrow> utf8_encode 0xFFFD @ json_unquote (drop 4 es))
                  else utf8_encode (hex4 es) @ json_unquote (drop 4 es)))
      else if bv c < 0x80 then c # json_unquote cs
      else case utf8_size (c # cs) of
             0 \<Rightarrow> utf8_encode 0xFFFD @ json_unquote cs
           | Suc k \<Rightarrow> take (Suc k) (c # cs) @ json_unquote (drop k cs))"
  by pat_completeness auto
termination by (relation "measure length") auto

function utf8_valid :: "string \<Rightarrow> bool" where
  "utf8_valid [] \<longleftrightarrow> True"
| "utf8_valid (c # cs) \<longleftrightarrow>
     (if bv c < 0x80 then utf8_valid cs
      else case utf8_size (c # cs) of 0 \<Rightarrow> False | Suc k \<Rightarrow> utf8_valid (drop k cs))"
  by pat_completeness auto
termination by (relation "measure length") auto

text \<open>What escaping does to one character.\<close>

lemma hex_table: "list_all (\<lambda>n. hex_val (hex_digit n) = Some n) [0..<16]"
  by code_simp

lemma hex_val_digit: "n < 16 \<Longrightarrow> hex_val (hex_digit n) = Some n"
  using hex_table unfolding list_all_iff by simp

lemma hex_val_eval:
  "hex_val (CHR ''0'') = Some 0" "hex_val (CHR ''2'') = Some 2" "hex_val (CHR ''8'') = Some 8" "hex_val (CHR ''9'') = Some 9"
  "hex_val (CHR ''d'') = Some 13" "hex_val (CHR ''f'') = Some 15"
  by code_simp+

lemma line_separators:
  "hex4 (''2028'' @ t) = 0x2028" "hex4 (''2029'' @ t) = 0x2029"
  "utf8_encode 0x2028 = map char_of [0xE2, 0x80, 0xA8 :: nat]" "utf8_encode 0x2029 = map char_of [0xE2, 0x80, 0xA9 :: nat]"
  by (simp_all add: hex4_def hex_val_eval utf8_encode_def)

lemma hex4_00: "n < 256 \<Longrightarrow> hex4 (CHR ''0'' # CHR ''0'' # hex_digit (n div 16) # hex_digit (n mod 16) # t) = n"
  by (simp add: hex4_def hex_val_digit hex_val_eval)

lemma escape_cases:
  assumes "bv c < 0x80"
  obtains (same) "escape_ascii c = [c]" "c \<noteq> CHR 0x5C" "c \<noteq> CHR 0x22" "0x20 \<le> bv c"
  | (short) e where "escape_ascii c = [CHR 0x5C, e]" "map_of short_escapes e = Some c"
  | (hex) h where "escape_ascii c = CHR 0x5C # CHR ''u'' # h" "length h = 4" "list_all is_hex h" "hex4 h = bv c"
proof -
  have "escape_ascii c = [c] \<or> (\<exists>e. escape_ascii c = [CHR 0x5C, e]) \<or>
      escape_ascii c = CHR 0x5C # CHR ''u'' # CHR ''0'' # CHR ''0'' # [hex_digit (bv c div 16), hex_digit (bv c mod 16)]"
    by (auto simp: escape_ascii_def)
  then consider "escape_ascii c = [c]" | "\<exists>e. escape_ascii c = [CHR 0x5C, e]"
    | "escape_ascii c = CHR 0x5C # CHR ''u'' # CHR ''0'' # CHR ''0'' # [hex_digit (bv c div 16), hex_digit (bv c mod 16)]" by blast
  then show thesis
  proof cases
    case 1
    then show thesis using same by (auto simp: escape_ascii_def split: if_splits)
  next
    case 2
    then obtain e where e: "escape_ascii c = [CHR 0x5C, e]" ..
    then have "map_of short_escapes e = Some c"
      by (auto simp: escape_ascii_def short_escapes_def split: if_splits)
    with e show thesis by (rule short)
  next
    case 3
    have "list_all is_hex (CHR ''0'' # CHR ''0'' # [hex_digit (bv c div 16), hex_digit (bv c mod 16)])"
      using assms by (simp add: is_hex_def hex_val_digit hex_val_eval)
    with 3 show thesis using hex4_00 [of "bv c" "[]"] assms by (intro hex [OF 3]) simp_all
  qed
qed

lemma no_short_u [simp]: "map_of short_escapes (CHR ''u'') = None"
  by (simp add: short_escapes_def)

lemma hex4_append: "length h = 4 \<Longrightarrow> hex4 (h @ t) = hex4 h"
  by (simp add: hex4_def)

lemma jstring_escape_ascii:
  assumes "bv c < 0x80"
  shows "jstring (escape_ascii c @ t) = map_option (apfst ((@) (escape_ascii c))) (jstring t)"
  using assms
proof (cases rule: escape_cases)
  case same
  then show ?thesis by (cases "jstring t") auto
next
  case (short e)
  then show ?thesis by (cases "jstring t") auto
next
  case (hex h)
  then show ?thesis by (cases "jstring t") auto
qed

lemma unquote_escape_ascii:
  assumes "bv c < 0x80"
  shows "json_unquote (escape_ascii c @ t) = c # json_unquote t"
  using assms
proof (cases rule: escape_cases)
  case (hex h)
  with assms hex4_append [OF hex(2), of t] show ?thesis by (simp add: utf8_encode_def)
qed (use assms in simp_all)

lemma utf8_size_cases:
  assumes "utf8_size s = Suc k"
  obtains a b t where "s = a # b # t" "k = 1" "0xC2 \<le> bv a" "bv a \<le> 0xDF" "utf8_second a b"
  | a b c t where "s = a # b # c # t" "k = 2" "0xE0 \<le> bv a" "bv a \<le> 0xEF" "utf8_second a b" "utf8_cont c"
  | a b c d t where "s = a # b # c # d # t" "k = 3" "0xF0 \<le> bv a" "bv a \<le> 0xF4" "utf8_second a b" "utf8_cont c" "utf8_cont d"
  using assms unfolding utf8_size_def by (auto split: list.splits if_splits)

lemma utf8_size_prefix:
  assumes "utf8_size s = Suc k"
  shows "k < length s" "utf8_size (take (Suc k) s @ t) = Suc k" "\<forall>c \<in> set (take (Suc k) s). 0x80 \<le> bv c"
proof -
  have s: "utf8_second a b \<Longrightarrow> 0x80 \<le> bv b" "utf8_cont c \<Longrightarrow> 0x80 \<le> bv c" for a b c
    by (auto simp: utf8_second_def utf8_cont_def split: if_splits)
  show "k < length s" "utf8_size (take (Suc k) s @ t) = Suc k" "\<forall>c \<in> set (take (Suc k) s). 0x80 \<le> bv c"
    using assms by (cases rule: utf8_size_cases; use s in \<open>force simp: utf8_size_def numeral_eq_Suc\<close>)+
qed

lemma jstring_bytes:
  "\<forall>c \<in> set r. 0x80 \<le> bv c \<Longrightarrow> jstring (r @ t) = map_option (apfst ((@) r)) (jstring t)"
proof (induction r)
  case (Cons c r)
  then have "c \<noteq> CHR 0x22" "c \<noteq> CHR 0x5C" "\<not> bv c < 0x20" by auto
  with Cons show ?case by (cases "jstring t") auto
qed (cases "jstring t"; auto simp: apfst_def map_prod_def)

lemma json_escape_wf: "wf_raw (json_escape s)"
proof -
  have "jstring (json_escape s @ [CHR 0x22]) = Some (json_escape s, [])"
  proof (induction s rule: json_escape.induct)
    case (2 c cs)
    show ?case
    proof (cases "bv c < 0x80")
      case True
      with 2(1) show ?thesis by (simp add: jstring_escape_ascii)
    next
      case False
      show ?thesis
      proof (cases "utf8_size (c # cs)")
        case 0
        have "list_all is_hex ''fffd''" by (simp add: is_hex_def hex_val_eval)
        with 0 False 2(2) show ?thesis by simp
      next
        case (Suc k)
        note p = utf8_size_prefix [OF Suc]
        have "jstring (escape_rune (take (Suc k) (c # cs)) @ t) = map_option (apfst ((@) (escape_rune (take (Suc k) (c # cs))))) (jstring t)" for t
        proof (cases "escape_rune (take (Suc k) (c # cs)) = take (Suc k) (c # cs)")
          case True
          with jstring_bytes [OF p(3)] show ?thesis by simp
        next
          case False
          moreover have "list_all is_hex ''2028''" "list_all is_hex ''2029''" by (simp_all add: is_hex_def hex_val_eval)
          ultimately show ?thesis by (cases "jstring t") (auto simp: escape_rune_def)
        qed
        with Suc False 2(3) show ?thesis by simp
      qed
    qed
  qed simp
  then show ?thesis by (simp add: wf_raw_def)
qed

lemma json_unquote_escape: "utf8_valid s \<Longrightarrow> json_unquote (json_escape s) = s"
proof (induction s rule: json_escape.induct)
  case (2 c cs)
  show ?case
  proof (cases "bv c < 0x80")
    case True
    with 2 show ?thesis by (simp add: unquote_escape_ascii)
  next
    case False
    then obtain k where k: "utf8_size (c # cs) = Suc k" "utf8_valid (drop k cs)"
      using 2(4) by (auto split: nat.splits)
    note p = utf8_size_prefix [OF k(1)]
    let ?r = "take (Suc k) (c # cs)"
    have "json_unquote (escape_rune ?r @ t) = ?r @ json_unquote t" for t
    proof (cases "escape_rune ?r = ?r")
      case True
      moreover have "c \<noteq> CHR 0x5C" using False by auto
      ultimately show ?thesis using p(2) [of t] False p(1) by (simp add: min_def)
    next
      case no: False
      have inv: "?r = map char_of (map bv ?r)" by (simp add: map_idI)
      from no have "map bv ?r = [0xE2, 0x80, 0xA8] \<or> map bv ?r = [0xE2, 0x80, 0xA9]"
        by (auto simp: escape_rune_def split: if_splits)
      then show ?thesis
      proof
        assume m: "map bv ?r = [0xE2, 0x80, 0xA8]"
        then have "escape_rune ?r = CHR 0x5C # ''u2028''" unfolding escape_rune_def by simp
        moreover have "?r = map char_of [0xE2, 0x80, 0xA8 :: nat]" using inv unfolding m .
        ultimately show ?thesis using line_separators by simp
      next
        assume m: "map bv ?r = [0xE2, 0x80, 0xA9]"
        then have "escape_rune ?r = CHR 0x5C # ''u2029''" unfolding escape_rune_def by simp
        moreover have "?r = map char_of [0xE2, 0x80, 0xA9 :: nat]" using inv unfolding m .
        ultimately show ?thesis using line_separators by simp
      qed
    qed
    with k False 2(3) [OF False k] show ?thesis by simp
  qed
qed simp

lemma wf_json_mono: "wf_json d j \<Longrightarrow> d \<le> e \<Longrightarrow> wf_json e j"
proof (induction d j arbitrary: e rule: wf_json.induct)
  case (5 d js)
  have "wf_json (e - 1) j" if "j \<in> set js" for j
    using 5(1) [OF that, of "e - 1"] 5(2,3) that by simp
  with 5(2,3) show ?case by simp
next
  case (6 d ms)
  have "wf_raw k \<and> wf_json (e - 1) j" if "(k, j) \<in> set ms" for k j
    using 6(2,3) that 6(1) [OF that refl, of "e - 1"] by auto
  with 6(2,3) show ?case by (auto simp: case_prod_unfold)
qed simp_all

section \<open>Decoding into a structure\<close>

text \<open>
  \<open>Unmarshal\<close> goes on after a value of the wrong type, leaves the field as it is and returns the first such
  error at the end (\<open>Saved\<close>); an error of an \<open>UnmarshalJSON\<close> method ends it at once (\<open>Abort\<close>). A field is a
  name and what decoding does to the structure.
\<close>

datatype status = Fine | Saved | Abort

fun worse :: "status \<Rightarrow> status \<Rightarrow> status" where
  "worse Fine st = st"
| "worse Saved st = (if st = Abort then Abort else Saved)"
| "worse Abort st = Abort"

type_synonym 'a leaf = "json \<Rightarrow> 'a \<Rightarrow> status \<times> 'a"
type_synonym 'a fields = "(string \<times> 'a leaf) list"

definition fld :: "('a \<Rightarrow> 'f) \<Rightarrow> (('f \<Rightarrow> 'f) \<Rightarrow> 'a \<Rightarrow> 'a) \<Rightarrow> 'f leaf \<Rightarrow> 'a leaf" where
  "fld get upd dec j v = (case dec j (get v) of (st, x) \<Rightarrow> (st, upd (\<lambda>_. x) v))"

text \<open>
  A key that is no field's name is compared again without regard to case; two characters outside ASCII
  count as \<open>S\<close> and \<open>K\<close> then.
\<close>

function fold_name :: "string \<Rightarrow> string" where
  "fold_name [] = []"
| "fold_name (c # cs) =
     (if 0x61 \<le> bv c \<and> bv c \<le> 0x7A then char_of (bv c - 0x20) # fold_name cs
      else if map bv (take 2 (c # cs)) = [0xC5, 0xBF] then CHR ''S'' # fold_name (drop 1 cs)
      else if map bv (take 3 (c # cs)) = [0xE2, 0x84, 0xAA] then CHR ''K'' # fold_name (drop 2 cs)
      else c # fold_name cs)"
  by pat_completeness auto
termination by (relation "measure length") auto

definition find_field :: "'a fields \<Rightarrow> string \<Rightarrow> 'a leaf option" where
  "find_field fs k =
     (case map_of fs k of Some f \<Rightarrow> Some f | None \<Rightarrow> map_of (map (apfst fold_name) fs) (fold_name k))"

fun decode_members :: "'a fields \<Rightarrow> (string \<times> json) list \<Rightarrow> 'a \<Rightarrow> status \<times> 'a" where
  "decode_members fs [] v = (Fine, v)"
| "decode_members fs ((k, j) # ms) v =
     (case find_field fs (json_unquote k) of
        None \<Rightarrow> decode_members fs ms v
      | Some f \<Rightarrow>
          (case f j v of
             (st, v1) \<Rightarrow>
               if st = Abort then (Abort, v1)
               else case decode_members fs ms v1 of (st2, v2) \<Rightarrow> (worse st st2, v2)))"

fun dec_struct :: "'a fields \<Rightarrow> 'a leaf" where
  "dec_struct fs (JObj ms) v = decode_members fs ms v"
| "dec_struct fs JNull v = (Fine, v)"
| "dec_struct fs _ v = (Saved, v)"

text \<open>\<open>json.Unmarshal\<close> of a text into a structure that holds \<open>v\<close>: whether it returned an error, and what it holds then.\<close>

definition json_unmarshal :: "'a fields \<Rightarrow> string \<Rightarrow> 'a \<Rightarrow> bool \<times> 'a" where
  "json_unmarshal fs s v =
     (case json_parse s of
        None \<Rightarrow> (True, v)
      | Some j \<Rightarrow> (case dec_struct fs j v of (st, v') \<Rightarrow> (st \<noteq> Fine, v')))"

text \<open>Strings, booleans, integers of 64 bits, and string types with an \<open>UnmarshalJSON\<close> of their own.\<close>

fun dec_string :: "string leaf" where
  "dec_string (JStr r) v = (Fine, json_unquote r)"
| "dec_string JNull v = (Fine, v)"
| "dec_string _ v = (Saved, v)"

fun dec_bool :: "bool leaf" where
  "dec_bool (JBool b) v = (Fine, b)"
| "dec_bool JNull v = (Fine, v)"
| "dec_bool _ v = (Saved, v)"

fun dec_int :: "int leaf" where
  "dec_int (JNum l) v = (case atoi l of None \<Rightarrow> (Saved, v) | Some i \<Rightarrow> (Fine, i))"
| "dec_int JNull v = (Fine, v)"
| "dec_int _ v = (Saved, v)"

text \<open>\<open>map[string]string\<close>: the entries are added to those that are there; \<open>null\<close> removes the map.\<close>

fun dec_entries :: "(string \<times> json) list \<Rightarrow> (string \<rightharpoonup> string) \<Rightarrow> status \<times> (string \<rightharpoonup> string)" where
  "dec_entries [] m = (Fine, m)"
| "dec_entries ((k, j) # es) m =
     (case dec_string j [] of
        (st, x) \<Rightarrow> (case dec_entries es (m(json_unquote k \<mapsto> x)) of (st2, m2) \<Rightarrow> (worse st st2, m2)))"

fun dec_string_map :: "(string \<rightharpoonup> string) leaf" where
  "dec_string_map (JObj es) m = dec_entries es m"
| "dec_string_map JNull m = (Fine, Map.empty)"
| "dec_string_map _ m = (Saved, m)"

section \<open>Encoding a structure\<close>

definition enc_string :: "string \<Rightarrow> json" where
  "enc_string s = JStr (json_escape s)"

definition enc_int :: "int \<Rightarrow> json" where
  "enc_int i = JNum (itoa i)"

definition enc_string_map :: "(string \<times> string) list \<Rightarrow> json" where
  "enc_string_map es = JObj (map (\<lambda>(k, x). (json_escape k, enc_string x)) es)"

text \<open>A member, left out if the field has \<open>omitempty\<close> and is empty.\<close>

definition member :: "string \<Rightarrow> bool \<Rightarrow> json \<Rightarrow> (string \<times> json) list" where
  "member name omit j = (if omit then [] else [(name, j)])"

text \<open>
  What the structures rely on for each of their fields: what is encoded is decoded, whatever was there
  before, and is correct JSON.
\<close>

locale leaf_codec =
  fixes enc :: "'f \<Rightarrow> json" and dec :: "'f leaf" and ok :: "'f \<Rightarrow> bool"
  assumes dec_enc: "ok x \<Longrightarrow> dec (enc x) y = (Fine, x)"
    and enc_wf: "ok x \<Longrightarrow> wf_json 2 (enc x)"
begin

text \<open>One member of an object, also when it is left out because the field has its empty value.\<close>

lemma member_step:
  assumes "find_field fs name = Some (fld get upd dec)" "json_unquote name = name" "ok x" "omit \<Longrightarrow> upd (\<lambda>_. x) v = v"
    "decode_members fs ms (upd (\<lambda>_. x) v) = R"
  shows "decode_members fs (member name omit (enc x) @ ms) v = R"
  using assms by (auto simp: member_def fld_def dec_enc split: prod.splits)

end

lemma wf_num_itoa: "wf_num (itoa i)"
proof -
  have d: "\<forall>c \<in> set (itoa_nat n). is_digit c" for n
    using itoa_nat_digits [of _ n] by (auto simp: is_digit_def)
  have n: "jnumber (sg @ itoa_nat n) = Some (sg @ itoa_nat n, [])" if "sg = [] \<or> sg = ''-''" for sg n
  proof (cases "n = 0")
    case True
    have "itoa_nat 0 = ''0''" by (simp add: itoa_nat.simps)
    with True that show ?thesis by (auto simp: jnumber_def jfrac_def jexp_def)
  next
    case False
    obtain c cs where c: "itoa_nat n = c # cs" by (cases "itoa_nat n") auto
    have "c \<noteq> CHR ''0''" using itoa_nat_hd [of n] False c by simp
    moreover have "is_digit c" using d [of n] c by auto
    moreover have "takeWhile is_digit cs = cs" "dropWhile is_digit cs = []" using d [of n] c by auto
    moreover have "c \<noteq> CHR ''-''" using \<open>is_digit c\<close> by (auto simp: is_digit_chars)
    ultimately show ?thesis using that unfolding c jnumber_def by (auto simp: jfrac_def jexp_def simp del: takeWhile_eq_all_conv dropWhile_eq_Nil_conv)
  qed
  show ?thesis using n [of "[]"] n [of "''-''"] by (auto simp: wf_num_def itoa_def)
qed

interpretation str: leaf_codec enc_string dec_string utf8_valid
  by unfold_locales (simp_all add: enc_string_def json_unquote_escape json_escape_wf)

interpretation bool: leaf_codec JBool dec_bool "\<lambda>_. True"
  by unfold_locales simp_all

interpretation int: leaf_codec enc_int dec_int is_int64
  by unfold_locales (simp_all add: enc_int_def atoi_itoa wf_num_itoa)

lemma dec_entries_enc:
  "\<forall>(k, x) \<in> set es. utf8_valid k \<and> utf8_valid x \<Longrightarrow>
     dec_entries (map (\<lambda>(k, x). (json_escape k, enc_string x)) es) m = (Fine, m ++ map_of (rev es))"
  by (induction es arbitrary: m) (auto simp: str.dec_enc json_unquote_escape map_add_upd_left)

end
