(* ===== verification/GoTime.thy ===== *)
theory GoTime
  imports Json "HOL-Library.Monad_Syntax"
begin

text \<open>
  The texts of instants and durations: the layout \<open>RFC3339Nano\<close> that \<open>time.Time\<close> uses in JSON, in a zone given by its
  offset in minutes, the reader \<open>time.Parse\<close> for the layouts \<open>RFC3339\<close> and \<open>RFC3339Nano\<close>, and the layout
  \<open>ISO8601\<close> of the log lines. An instant is the number of nanoseconds since the first of January of
  year 1, so the calendar is computed here, and what is written is read back.
\<close>

section \<open>The calendar\<close>

definition leap :: "int \<Rightarrow> bool" where
  "leap y \<longleftrightarrow> y mod 4 = 0 \<and> (y mod 100 \<noteq> 0 \<or> y mod 400 = 0)"

text \<open>Days before the first of January of a year, counted from year 1.\<close>

definition days_before :: "int \<Rightarrow> int" where
  "days_before y = 365 * (y - 1) + (y - 1) div 4 - (y - 1) div 100 + (y - 1) div 400"

definition month_lengths :: "int \<Rightarrow> int list" where
  "month_lengths y = [31, if leap y then 29 else 28, 31, 30, 31, 30, 31, 31, 30, 31, 30, 31]"

lemma div_step: "0 < n \<Longrightarrow> y div n = (y - 1) div n + (if y mod n = 0 then 1 else 0)" for y n :: int
proof -
  assume n: "0 < n"
  show ?thesis
  proof (cases "y mod n = 0")
    case True
    then obtain k where k: "y = n * k" by auto
    have "(n * k - 1) div n = (n * (k - 1) + (n - 1)) div n" by (simp add: algebra_simps)
    also have "\<dots> = k - 1" using n by simp
    finally show ?thesis using n True k by simp
  next
    case False
    then have "0 < y mod n" using n pos_mod_sign [of n y] by linarith
    moreover have "y mod n < n" using n by simp
    moreover have "y - 1 = n * (y div n) + (y mod n - 1)" by simp
    ultimately have "(y - 1) div n = y div n" by (intro int_div_pos_eq [of _ _ _ "y mod n - 1"]) auto
    with False show ?thesis by simp
  qed
qed

lemma year_length:
  fixes a b c y :: int
  assumes "a' = a + (if p then 1 else 0)" "b' = b + (if q then 1 else 0)" "c' = c + (if r then 1 else 0)" "q \<Longrightarrow> p" "r \<Longrightarrow> q"
  shows "365 * y + a' - b' + c' = 365 * (y - 1) + a - b + c + (if p \<and> (\<not> q \<or> r) then 366 else 365)"
  using assms by (cases p; cases q; cases r) simp_all

lemma days_before_next: "days_before (y + 1) = days_before y + (if leap y then 366 else 365)"
proof -
  have m: "y mod 100 = 0 \<Longrightarrow> y mod 4 = 0" "y mod 400 = 0 \<Longrightarrow> y mod 100 = 0"
    using dvd_trans [of 4 100 y] dvd_trans [of 100 400 y] by (simp_all add: mod_eq_0_iff_dvd)
  have "365 * y + y div 4 - y div 100 + y div 400 = 365 * (y - 1) + (y - 1) div 4 - (y - 1) div 100 + (y - 1) div 400 +
      (if y mod 4 = 0 \<and> (\<not> y mod 100 = 0 \<or> y mod 400 = 0) then 366 else 365)"
    by (rule year_length [OF div_step div_step div_step m]) simp_all
  then show ?thesis unfolding days_before_def leap_def add_diff_cancel_right' .
qed

lemma sum_months: "sum_list (month_lengths y) = (if leap y then 366 else 365)"
  by (simp add: month_lengths_def)

lemma days_before_mono: "y \<le> z \<Longrightarrow> days_before y + 365 * (z - y) \<le> days_before z"
proof (induction "nat (z - y)" arbitrary: z)
  case (Suc n)
  then have "days_before y + 365 * (z - 1 - y) \<le> days_before (z - 1)" by (intro Suc.hyps) auto
  then show ?case using days_before_next [of "z - 1"] by (auto split: if_splits)
qed simp

text \<open>
  The year of a day: an estimate from below is corrected. The day within the year and then within the month
  follow.
\<close>

function year_from :: "int \<Rightarrow> int \<Rightarrow> int" where
  "year_from d y = (if days_before (y + 1) \<le> d then year_from d (y + 1) else y)"
  by auto
termination
  by (relation "measure (\<lambda>(d, y). nat (d - days_before y))") (auto simp: days_before_next split: if_splits)

declare year_from.simps [simp del]

definition year_of :: "int \<Rightarrow> int" where
  "year_of d = year_from d (d div 366 + 1)"

fun month_of :: "int list \<Rightarrow> int \<Rightarrow> int \<Rightarrow> int \<times> int" where
  "month_of (l # ls) m d = (if d < l then (m, d + 1) else month_of ls (m + 1) (d - l))"
| "month_of [] m d = (m, d + 1)"

definition civil :: "int \<Rightarrow> int \<times> int \<times> int" where
  "civil d = (let y = year_of d in (y, month_of (month_lengths y) 1 (d - days_before y)))"

definition day_number :: "int \<Rightarrow> int \<Rightarrow> int \<Rightarrow> int" where
  "day_number y m d = days_before y + sum_list (take (nat (m - 1)) (month_lengths y)) + (d - 1)"

definition daysIn :: "int \<Rightarrow> int \<Rightarrow> int" where
  "daysIn m y = month_lengths y ! nat (m - 1)"

lemma year_from_bounds:
  "days_before y \<le> d \<Longrightarrow> days_before (year_from d y) \<le> d \<and> d < days_before (year_from d y + 1) \<and> y \<le> year_from d y"
proof (induction d y rule: year_from.induct)
  case (1 d y)
  then show ?case by (subst (1 2 3) year_from.simps) auto
qed

lemma month_of_sound:
  assumes "month_of ls m d = (m', k)" "0 \<le> d" "d < sum_list ls"
  shows "m \<le> m' \<and> m' < m + int (length ls) \<and> d = sum_list (take (nat (m' - m)) ls) + (k - 1) \<and> 1 \<le> k \<and> k \<le> ls ! nat (m' - m)"
  using assms
proof (induction ls m d rule: month_of.induct)
  case (1 l ls m d)
  show ?case
  proof (cases "d < l")
    case True
    with 1 show ?thesis by auto
  next
    case False
    with 1 have "m + 1 \<le> m' \<and> m' < m + 1 + int (length ls) \<and> d - l = sum_list (take (nat (m' - (m + 1))) ls) + (k - 1) \<and>
        1 \<le> k \<and> k \<le> ls ! nat (m' - (m + 1))" by auto
    moreover from this have "nat (m' - m) = Suc (nat (m' - (m + 1)))" by linarith
    ultimately show ?thesis by auto
  qed
qed simp

lemma estimate_below: "-1 \<le> n \<Longrightarrow> days_before (n + 1) \<le> 366 * n"
proof (cases "n = -1")
  case False
  assume "-1 \<le> n"
  with False have n: "0 \<le> n" by simp
  then have "n div 400 \<le> n div 100" "n div 4 \<le> n" using zdiv_mono2 [of n 100 400] zdiv_mono2 [of n 1 4] by simp_all
  then show ?thesis unfolding days_before_def add_diff_cancel_right' by (simp only: )
qed (simp add: days_before_def)

text \<open>The calendar date of a day from the first of January of year 0 on gives back the day.\<close>

lemma civil_sound:
  assumes "civil d = (y, m, k)" "0 \<le> y"
  shows "day_number y m k = d" "1 \<le> m" "m \<le> 12" "1 \<le> k" "k \<le> daysIn m y"
proof -
  define y0 where "y0 = d div 366 + 1"
  have y: "y = year_from d y0" and mk: "month_of (month_lengths y) 1 (d - days_before y) = (m, k)"
    using assms(1) by (auto simp: civil_def year_of_def Let_def y0_def)
  have "days_before y0 \<le> d"
  proof (rule ccontr)
    assume n: "\<not> ?thesis"
    then have "\<not> days_before (y0 + 1) \<le> d" by (simp add: days_before_next)
    then have "y = y0" unfolding y by (subst year_from.simps) simp
    with assms(2) have "-1 \<le> d div 366" by (simp add: y0_def)
    then have "days_before y0 \<le> 366 * (d div 366)" unfolding y0_def by (rule estimate_below)
    with n show False using mult_div_mod_eq [of 366 d] pos_mod_sign [of 366 d] by linarith
  qed
  then have b: "days_before y \<le> d" "d < days_before (y + 1)" using year_from_bounds [of y0 d] y by auto
  then have "0 \<le> d - days_before y" "d - days_before y < sum_list (month_lengths y)"
    by (simp_all add: sum_months days_before_next)
  from month_of_sound [OF mk this] show "day_number y m k = d" "1 \<le> m" "m \<le> 12" "1 \<le> k" "k \<le> daysIn m y"
    by (auto simp: day_number_def daysIn_def month_lengths_def)
qed

section \<open>Numbers of a fixed width\<close>

fun padded :: "nat \<Rightarrow> nat \<Rightarrow> string" where
  "padded 0 n = []"
| "padded (Suc k) n = padded k (n div 10) @ [''0123456789'' ! (n mod 10)]"

fun digits_num :: "string \<Rightarrow> nat" where
  "digits_num s = (case digits_val 0 s of Some n \<Rightarrow> n | None \<Rightarrow> 0)"

declare digits_num.simps [simp del]

lemma length_padded [simp]: "length (padded k n) = k"
  by (induction k arbitrary: n) auto

lemma digits_val_padded: "digits_val 0 (padded k n) = Some (n mod 10 ^ k)"
proof (induction k arbitrary: n)
  case (Suc k)
  then show ?case by (simp add: digits_val_snoc mod_mult2_eq [of n 10 "10 ^ k"])
qed simp

lemma digits_num_padded: "n < 10 ^ k \<Longrightarrow> digits_num (padded k n) = n"
  by (simp add: digits_num.simps digits_val_padded)

lemma padded_digits: "c \<in> set (padded k n) \<Longrightarrow> is_digit c"
  by (induction k arbitrary: n) (auto simp: is_digit_def)

lemma padded_2: "padded 2 n = [''0123456789'' ! (n div 10 mod 10), ''0123456789'' ! (n mod 10)]"
  by (simp add: numeral_2_eq_2)

section \<open>Writing\<close>

definition ns_per_second :: int where "ns_per_second = 1000000000"

definition clock_text :: "int \<Rightarrow> string" where
  "clock_text s = padded 2 (nat (s div 3600)) @ '':'' @ padded 2 (nat (s div 60 mod 60)) @ '':'' @ padded 2 (nat (s mod 60))"

definition date_text :: "int \<Rightarrow> string" where
  "date_text d = (case civil d of (y, m, k) \<Rightarrow> padded 4 (nat y) @ ''-'' @ padded 2 (nat m) @ ''-'' @ padded 2 (nat k))"

text \<open>The fraction of a number with \<open>p\<close> decimal places, without trailing zeros, the point included.\<close>

definition fmtFrac :: "nat \<Rightarrow> nat \<Rightarrow> string" where
  "fmtFrac p v = (let ds = rev (dropWhile (\<lambda>c. c = CHR ''0'') (rev (padded p v))) in if ds = [] then [] else ''.'' @ ds)"

abbreviation frac_text :: "nat \<Rightarrow> string" where
  "frac_text \<equiv> fmtFrac 9"

definition zone_text :: "string \<Rightarrow> int \<Rightarrow> string" where
  "zone_text sep off =
     (if off = 0 then ''Z''
      else (if off < 0 then ''-'' else ''+'') @ padded 2 (nat (\<bar>off\<bar> div 60)) @ sep @ padded 2 (nat (\<bar>off\<bar> mod 60)))"

text \<open>
  \<open>MarshalJSON\<close> of an instant in a zone \<open>off\<close> minutes ahead of UTC: \<open>None\<close> when the year does not have
  four digits.
\<close>

definition rfc3339_format :: "int \<Rightarrow> gotime \<Rightarrow> string option" where
  "rfc3339_format off t =
     (let u = t + off * 60 * ns_per_second; secs = u div ns_per_second; d = secs div 86400
      in if fst (civil d) < 0 \<or> 9999 < fst (civil d) then None
         else Some (date_text d @ ''T'' @ clock_text (secs mod 86400) @ frac_text (nat (u mod ns_per_second)) @ zone_text '':'' off))"

text \<open>The layout \<^verbatim>\<open>2006-01-02T15:04:05.000Z0700\<close> of \<open>ISO8601TimeEncoder\<close>: milliseconds, no colon in the zone.\<close>

definition iso8601_format :: "int \<Rightarrow> gotime \<Rightarrow> string" where
  "iso8601_format off t =
     (let u = t + off * 60 * ns_per_second; secs = u div ns_per_second
      in date_text (secs div 86400) @ ''T'' @ clock_text (secs mod 86400) @ ''.'' @
         padded 3 (nat (u mod ns_per_second div 1000000)) @ zone_text [] off)"

section \<open>Durations\<close>

text \<open>\<open>Duration.String\<close>.\<close>

definition duration_string :: "duration \<Rightarrow> string" where
  "duration_string d =
     (let u = nat \<bar>d\<bar>; s = u div 1000000000; m = s div 60; h = m div 60;
          text = (if u = 0 then ''0s''
                  else if u < 1000 then itoa_nat u @ ''ns''
                  else if u < 1000000 then itoa_nat (u div 1000) @ fmtFrac 3 u @ [CHR 0xC2, CHR 0xB5, CHR ''s'']
                  else if u < 1000000000 then itoa_nat (u div 1000000) @ fmtFrac 6 u @ ''ms''
                  else (if 0 < h then itoa_nat h @ ''h'' else []) @ (if 0 < m then itoa_nat (m mod 60) @ ''m'' else []) @
                       itoa_nat (s mod 60) @ fmtFrac 9 u @ ''s'')
      in if d < 0 then ''-'' @ text else text)"

section \<open>Reading\<close>

text \<open>\<open>getnum\<close>: two digits, or one where the layout does not ask for two.\<close>

fun getnum :: "bool \<Rightarrow> string \<Rightarrow> (int \<times> string) option" where
  "getnum two (a # b # s) =
     (if \<not> is_digit a then None
      else if is_digit b then Some (int (digits_num [a, b]), s)
      else if two then None else Some (int (digits_num [a]), b # s))"
| "getnum two [a] = (if is_digit a \<and> \<not> two then Some (int (digits_num [a]), []) else None)"
| "getnum two [] = None"

fun lit :: "char \<Rightarrow> string \<Rightarrow> string option" where
  "lit c (x # s) = (if x = c then Some s else None)"
| "lit c [] = None"

definition get_year :: "string \<Rightarrow> (int \<times> string) option" where
  "get_year s =
     (let p = take 4 s in if length p < 4 \<or> (\<exists>c \<in> set p. \<not> is_digit c) then None else Some (int (digits_num p), drop 4 s))"

text \<open>The fraction, of which nine digits count, after a period or a comma; it may be missing.\<close>

definition get_frac :: "string \<Rightarrow> int \<times> string" where
  "get_frac s =
     (case s of
        p # c # _ \<Rightarrow>
          if p \<in> {CHR ''.'', CHR '',''} \<and> is_digit c then
            let ds = takeWhile is_digit (tl s); nine = take 9 ds
            in (int (digits_num nine * 10 ^ (9 - length nine)), dropWhile is_digit (tl s))
          else (0, s)
      | _ \<Rightarrow> (0, s))"

text \<open>The zone in seconds, at most 24 hours and 60 minutes; nothing may follow it.\<close>

definition get_zone :: "string \<Rightarrow> int option" where
  "get_zone s =
     (if s = ''Z'' then Some 0
      else case s of
        [sg, h1, h2, c, m1, m2] \<Rightarrow>
          if c = CHR '':'' \<and> sg \<in> {CHR ''+'', CHR ''-''} \<and> list_all is_digit [h1, h2, m1, m2]
            \<and> digits_num [h1, h2] \<le> 24 \<and> digits_num [m1, m2] \<le> 60 then
            Some ((if sg = CHR ''-'' then -1 else 1) * (int (digits_num [h1, h2]) * 60 + int (digits_num [m1, m2])) * 60)
          else None
      | _ \<Rightarrow> None)"

definition instant :: "int \<Rightarrow> int \<Rightarrow> int \<Rightarrow> int \<Rightarrow> int \<Rightarrow> int \<Rightarrow> int \<Rightarrow> int \<Rightarrow> gotime option" where
  "instant y mo d h mi sec ns off =
     (if mo < 1 \<or> 12 < mo \<or> d < 1 \<or> daysIn mo y < d \<or> 24 \<le> h \<or> 60 \<le> mi \<or> 60 \<le> sec then None
      else Some ((day_number y mo d * 86400 + h * 3600 + mi * 60 + sec - off) * ns_per_second + ns))"

text \<open>\<open>time.Parse\<close> with the layout \<open>RFC3339\<close> or \<open>RFC3339Nano\<close>, which accept the same texts.\<close>

definition rfc3339_parse :: "string \<Rightarrow> gotime option" where
  "rfc3339_parse s =
     do { (y, s) \<leftarrow> get_year s; s \<leftarrow> lit CHR ''-'' s;
          (mo, s) \<leftarrow> getnum True s; s \<leftarrow> lit CHR ''-'' s;
          (d, s) \<leftarrow> getnum True s; s \<leftarrow> lit CHR ''T'' s;
          (h, s) \<leftarrow> getnum False s; s \<leftarrow> lit CHR '':'' s;
          (mi, s) \<leftarrow> getnum True s; s \<leftarrow> lit CHR '':'' s;
          (sec, s) \<leftarrow> getnum True s;
          (let (ns, s) = get_frac s in
           do { off \<leftarrow> get_zone s; instant y mo d h mi sec ns off }) }"

section \<open>Reading what was written\<close>

lemma getnum_padded: "0 \<le> i \<Longrightarrow> i < 100 \<Longrightarrow> getnum two (padded 2 (nat i) @ s) = Some (i, s)"
  using digits_num_padded [of "nat i" 2] padded_digits [of _ 2 "nat i"] by (simp add: padded_2)

lemma get_year_padded: "0 \<le> i \<Longrightarrow> i < 10000 \<Longrightarrow> get_year (padded 4 (nat i) @ s) = Some (i, s)"
  using digits_num_padded [of "nat i" 4] padded_digits [of _ 4 "nat i"] by (auto simp: get_year_def)

definition no_digit_first :: "string \<Rightarrow> bool" where
  "no_digit_first s \<longleftrightarrow> (case s of [] \<Rightarrow> True | c # _ \<Rightarrow> \<not> is_digit c \<and> c \<notin> {CHR ''.'', CHR '',''})"

lemma digits_num_zeros: "digits_val 0 ds = Some n \<Longrightarrow> digits_num (ds @ replicate k (CHR ''0'')) = n * 10 ^ k"
proof -
  assume "digits_val 0 ds = Some n"
  then have "digits_val 0 (ds @ replicate k (CHR ''0'')) = Some (n * 10 ^ k)"
    by (induction k) (auto simp: replicate_append_same [symmetric] digits_val_snoc digit_val_zero simp flip: append_assoc)
  then show ?thesis by (simp add: digits_num.simps)
qed

lemma digits_val_digit_list: "\<forall>c \<in> set ds. is_digit c \<Longrightarrow> \<exists>n. digits_val acc ds = Some n"
  by (induction ds arbitrary: acc) (auto simp: is_digit_def)

lemma trailing_split: "xs = rev (dropWhile P (rev xs)) @ rev (takeWhile P (rev xs))"
  by (metis rev_append rev_rev_ident takeWhile_dropWhile_id)

lemma trailing_zeros:
  obtains ds k where "rev (dropWhile (\<lambda>c. c = CHR ''0'') (rev (padded 9 n))) = ds" "padded 9 n = ds @ replicate k (CHR ''0'')"
    "k = 9 - length ds" "\<forall>c \<in> set ds. is_digit c" "length ds \<le> 9"
proof -
  let ?z = "takeWhile (\<lambda>c. c = CHR ''0'') (rev (padded 9 n))"
  define ds where "ds = rev (dropWhile (\<lambda>c. c = CHR ''0'') (rev (padded 9 n)))"
  define k where "k = length ?z"
  have "\<forall>c \<in> set ?z. c = CHR ''0''" using set_takeWhileD by fast
  then have "replicate k (CHR ''0'') = ?z" unfolding k_def by (rule replicate_length_same)
  then have "rev ?z = replicate k (CHR ''0'')" by (metis rev_replicate)
  then have p: "padded 9 n = ds @ replicate k (CHR ''0'')"
    using trailing_split [of "padded 9 n" "\<lambda>c. c = CHR ''0''"] by (simp add: ds_def)
  then have "9 = length ds + k" by (metis length_append length_padded length_replicate)
  moreover have "\<forall>c \<in> set ds. is_digit c" using padded_digits [of _ 9 n] unfolding p by simp
  ultimately show thesis using that [OF ds_def [symmetric] p] by linarith
qed

lemma get_frac_digits:
  assumes "\<forall>c \<in> set ds. is_digit c" "ds \<noteq> []" "length ds \<le> 9" "no_digit_first s"
  shows "get_frac (CHR ''.'' # ds @ s) = (int (digits_num ds * 10 ^ (9 - length ds)), s)"
proof -
  obtain c cs where "ds = c # cs" using assms(2) by (cases ds) auto
  moreover have "takeWhile is_digit (ds @ s) = ds" "dropWhile is_digit (ds @ s) = s"
    using assms(1,4) by (auto simp: no_digit_first_def split: list.splits)
  ultimately show ?thesis using assms(1,3) by (simp add: get_frac_def Let_def)
qed

lemma get_frac_text:
  assumes "n < 10 ^ 9" "no_digit_first s"
  shows "get_frac (frac_text n @ s) = (int n, s)"
proof -
  obtain ds k where d: "rev (dropWhile (\<lambda>c. c = CHR ''0'') (rev (padded 9 n))) = ds" "padded 9 n = ds @ replicate k (CHR ''0'')"
    "k = 9 - length ds" "\<forall>c \<in> set ds. is_digit c" "length ds \<le> 9" by (rule trailing_zeros)
  obtain v where v: "digits_val 0 ds = Some v" using digits_val_digit_list d(4) by blast
  have n: "n = v * 10 ^ (9 - length ds)" using digits_num_zeros [OF v, of k] digits_num_padded [OF assms(1)] d(2,3) by simp
  show ?thesis
  proof (cases ds)
    case Nil
    then have "n = 0" using n v by simp
    then show ?thesis using Nil d(1) assms(2) by (auto simp: fmtFrac_def get_frac_def no_digit_first_def split: list.splits)
  next
    case (Cons c cs)
    then show ?thesis using get_frac_digits [OF d(4) _ d(5) assms(2)] d(1) n v by (simp add: fmtFrac_def Let_def digits_num.simps)
  qed
qed

lemma zone_text_no_digit: "no_digit_first (zone_text sep off)"
  by (auto simp: zone_text_def no_digit_first_def is_digit_chars)

lemma get_zone_text:
  assumes "\<bar>off\<bar> < 1440"
  shows "get_zone (zone_text '':'' off) = Some (off * 60)"
proof -
  define h mi where "h = nat (\<bar>off\<bar> div 60)" and "mi = nat (\<bar>off\<bar> mod 60)"
  have b: "h \<le> 24" "mi \<le> 60" using assms by (auto simp: h_def mi_def)
  have o: "off = (if off < 0 then -1 else 1) * (int h * 60 + int mi)"
    using pos_imp_zdiv_nonneg_iff [of 60 "\<bar>off\<bar>"] by (simp add: h_def mi_def)
  have d: "digits_num (padded 2 h) = h" "digits_num (padded 2 mi) = mi" using b by (auto intro!: digits_num_padded)
  have "list_all is_digit (padded 2 h @ padded 2 mi)" using padded_digits by (auto simp: list_all_iff)
  with d b have z: "get_zone (sg # padded 2 h @ CHR '':'' # padded 2 mi) =
      Some ((if sg = CHR ''-'' then -1 else 1) * (int h * 60 + int mi) * 60)" if "sg \<in> {CHR ''+'', CHR ''-''}" for sg
    using that by (auto simp: get_zone_def padded_2)
  show ?thesis
  proof (cases "off = 0")
    case False
    then have "zone_text '':'' off = (if off < 0 then CHR ''-'' else CHR ''+'') # padded 2 h @ CHR '':'' # padded 2 mi"
      by (simp add: zone_text_def h_def mi_def)
    then show ?thesis using z [of "if off < 0 then CHR ''-'' else CHR ''+''"] o by (auto split: if_splits)
  qed (simp add: zone_text_def get_zone_def)
qed

lemma seconds_split: "s div 3600 * 3600 + s div 60 mod 60 * 60 + s mod 60 = s" for s :: int
proof -
  have "s div 3600 = s div 60 div 60" using zdiv_zmult2_eq [of 60 s 60] by simp
  then have "s div 3600 * 3600 + s div 60 mod 60 * 60 + s mod 60 = (s div 60 div 60 * 60 + s div 60 mod 60) * 60 + s mod 60"
    by (simp only: distrib_right mult.assoc)
  also have "\<dots> = s" by (simp only: div_mult_mod_eq)
  finally show ?thesis .
qed

lemma instant_valid:
  assumes "1 \<le> m" "m \<le> 12" "1 \<le> k" "k \<le> daysIn m y" "h < 24" "mi < 60" "sec < 60"
  shows "instant y m k h mi sec ns off = Some ((day_number y m k * 86400 + (h * 3600 + mi * 60 + sec) - off) * ns_per_second + ns)"
  using assms by (simp add: instant_def add.assoc)

text \<open>The front of both layouts, up to the seconds.\<close>

lemma parse_front:
  assumes "civil d = (y, m, k)" "0 \<le> y" "y \<le> 9999" "0 \<le> s" "s < 86400"
  shows "rfc3339_parse (date_text d @ ''T'' @ clock_text s @ r) =
    (case get_frac r of (ns, r') \<Rightarrow> Option.bind (get_zone r') (\<lambda>off. Some ((d * 86400 + s - off) * ns_per_second + ns)))"
proof -
  note c = civil_sound [OF assms(1,2)]
  have k: "k \<le> 31" using c(2,3,5) by (simp add: daysIn_def month_lengths_def nth_Cons' split: if_splits)
  have h: "0 \<le> s div 3600" "s div 3600 < 24" using assms(4,5) by simp_all
  have "instant y m k (s div 3600) (s div 60 mod 60) (s mod 60) ns off = Some ((d * 86400 + s - off) * ns_per_second + ns)" for ns off
    unfolding c(1) [symmetric] using instant_valid [OF c(2-5) h(2), of "s div 60 mod 60" "s mod 60"] by (simp only: seconds_split pos_mod_bound)
  then have i: "instant y m k (s div 3600) (s div 60 mod 60) (s mod 60) ns = (\<lambda>off. Some ((d * 86400 + s - off) * ns_per_second + ns))" for ns
    by blast
  have t: "date_text d @ ''T'' @ clock_text s @ r =
      padded 4 (nat y) @ CHR ''-'' # padded 2 (nat m) @ CHR ''-'' # padded 2 (nat k) @ CHR ''T'' #
      padded 2 (nat (s div 3600)) @ CHR '':'' # padded 2 (nat (s div 60 mod 60)) @ CHR '':'' # padded 2 (nat (s mod 60)) @ r"
    by (simp add: date_text_def clock_text_def assms(1))
  have p: "get_year (padded 4 (nat y) @ x) = Some (y, x)" "getnum True (padded 2 (nat m) @ x) = Some (m, x)"
    "getnum True (padded 2 (nat k) @ x) = Some (k, x)" "getnum False (padded 2 (nat (s div 3600)) @ x) = Some (s div 3600, x)"
    "getnum True (padded 2 (nat (s div 60 mod 60)) @ x) = Some (s div 60 mod 60, x)"
    "getnum True (padded 2 (nat (s mod 60)) @ x) = Some (s mod 60, x)" for x
    using assms(2,3) c(2-4) k h by (auto intro!: get_year_padded getnum_padded intro: order.strict_trans [OF pos_mod_bound])
  show ?thesis unfolding t rfc3339_parse_def by (simp add: p i split_beta)
qed

text \<open>Instants survive their text, whatever the zone.\<close>

theorem rfc3339_roundtrip:
  assumes "\<bar>off\<bar> < 1440" "rfc3339_format off t = Some s"
  shows "rfc3339_parse s = Some t"
proof -
  define u where "u = t + off * 60 * ns_per_second"
  define secs where "secs = u div ns_per_second"
  obtain y m k where c: "civil (secs div 86400) = (y, m, k)" by (metis prod_cases3)
  have s: "0 \<le> y" "y \<le> 9999" "s = date_text (secs div 86400) @ ''T'' @ clock_text (secs mod 86400) @
      frac_text (nat (u mod ns_per_second)) @ zone_text '':'' off"
    using assms(2) c by (auto simp: rfc3339_format_def Let_def u_def secs_def split: if_splits)
  have u: "nat (u mod ns_per_second) < 10 ^ 9" "int (nat (u mod ns_per_second)) = u mod ns_per_second" by (simp_all add: ns_per_second_def)
  have "0 \<le> secs mod 86400" "secs mod 86400 < 86400" by simp_all
  from parse_front [OF c s(1,2) this]
  have "rfc3339_parse s = Some ((secs div 86400 * 86400 + secs mod 86400 - off * 60) * ns_per_second + u mod ns_per_second)"
    unfolding s(3) by (simp add: get_frac_text [OF u(1) zone_text_no_digit] u(2) [simplified] get_zone_text [OF assms(1)])
  moreover have "secs div 86400 * 86400 + secs mod 86400 = secs" by simp
  moreover have "secs * ns_per_second + u mod ns_per_second = u" by (simp add: secs_def)
  ultimately show ?thesis by (simp add: u_def left_diff_distrib)
qed

lemma milliseconds: "t div 1000000000 * 1000000000 + t mod 1000000000 div 1000000 * 1000000 = t div 1000000 * 1000000" for t :: int
proof -
  have "t mod 1000000000 = 1000000 * (t div 1000000 mod 1000) + t mod 1000000" using zmod_zmult2_eq [of 1000 t 1000000] by simp
  then have "t mod 1000000000 div 1000000 = t div 1000000 mod 1000" by simp
  moreover have "t div 1000000000 = t div 1000000 div 1000" using zdiv_zmult2_eq [of 1000 t 1000000] by simp
  ultimately have "t div 1000000000 * 1000000000 + t mod 1000000000 div 1000000 * 1000000 =
      (t div 1000000 div 1000 * 1000 + t div 1000000 mod 1000) * 1000000" by (simp only: distrib_right mult.assoc)
  then show ?thesis by (simp only: div_mult_mod_eq)
qed

text \<open>The text needs no escape in JSON.\<close>

lemma names_plain [simp]: "\<forall>c \<in> set s. bv c < 0x80 \<and> c \<noteq> CHR 0x5C \<and> c \<noteq> CHR 0x22 \<and> 0x20 \<le> bv c \<Longrightarrow> wf_raw s"
proof -
  assume "\<forall>c \<in> set s. bv c < 0x80 \<and> c \<noteq> CHR 0x5C \<and> c \<noteq> CHR 0x22 \<and> 0x20 \<le> bv c"
  then have "jstring (s @ [CHR 0x22]) = Some (s, [])" by (induction s) auto
  then show ?thesis by (simp add: wf_raw_def)
qed

lemma time_chars_plain:
  assumes "is_digit c \<or> c \<in> set ''-+:.TZ''"
  shows "bv c < 0x80 \<and> c \<noteq> CHR 0x5C \<and> c \<noteq> CHR 0x22 \<and> 0x20 \<le> bv c"
proof -
  have "\<forall>c \<in> set (''0123456789'' @ ''-+:.TZ''). bv c < 0x80 \<and> c \<noteq> CHR 0x5C \<and> c \<noteq> CHR 0x22 \<and> 0x20 \<le> bv c" by code_simp
  with assms show ?thesis unfolding is_digit_chars set_append by blast
qed

lemma rfc3339_chars:
  assumes "rfc3339_format off t = Some s" "c \<in> set s"
  shows "is_digit c \<or> c \<in> set ''-+:.TZ''"
proof -
  have f: "c \<in> set (frac_text n) \<Longrightarrow> is_digit c \<or> c = CHR ''.''" for n
    using padded_digits [of _ 9 n] by (auto simp: fmtFrac_def Let_def dest: set_dropWhileD split: if_splits)
  have d: "c \<in> set (date_text d) \<Longrightarrow> is_digit c \<or> c = CHR ''-''" for d
    using padded_digits by (auto simp: date_text_def split: prod.splits)
  have k: "c \<in> set (clock_text x) \<Longrightarrow> is_digit c \<or> c = CHR '':''" for x
    using padded_digits by (auto simp: clock_text_def)
  have z: "c \<in> set (zone_text '':'' off) \<Longrightarrow> is_digit c \<or> c \<in> set ''-+:Z''"
    using padded_digits by (auto simp: zone_text_def split: if_splits)
  show ?thesis using assms f d k z by (fastforce simp: rfc3339_format_def Let_def split: if_splits)
qed

lemma rfc3339_wf: "rfc3339_format off t = Some s \<Longrightarrow> wf_raw s"
  using rfc3339_chars time_chars_plain by (intro names_plain) blast

text \<open>Every instant from year 1 to year 9999 has a text.\<close>

lemma civil_year:
  assumes "0 \<le> d" "d < days_before 10000"
  shows "1 \<le> fst (civil d)" "fst (civil d) \<le> 9999"
proof -
  have "days_before (d div 366 + 1) \<le> d"
    using estimate_below [of "d div 366"] assms(1) mult_div_mod_eq [of 366 d] pos_mod_sign [of 366 d]
      pos_imp_zdiv_nonneg_iff [of 366 d] by linarith
  then have y: "days_before (year_of d) \<le> d" "d < days_before (year_of d + 1)" "d div 366 + 1 \<le> year_of d"
    using year_from_bounds [of "d div 366 + 1" d] by (auto simp: year_of_def)
  then show "1 \<le> fst (civil d)" using assms(1) pos_imp_zdiv_nonneg_iff [of 366 d] by (simp add: civil_def Let_def)
  show "fst (civil d) \<le> 9999"
    using y(1) assms(2) days_before_mono [of 10000 "year_of d"] by (force simp: civil_def Let_def)
qed

lemma rfc3339_total:
  assumes "0 \<le> t" "t < days_before 10000 * 86400 * ns_per_second"
  shows "rfc3339_format 0 t \<noteq> None"
proof -
  have "0 \<le> t div ns_per_second div 86400" using assms(1) by (simp add: ns_per_second_def pos_imp_zdiv_nonneg_iff)
  moreover have "t div ns_per_second div 86400 < days_before 10000"
    using assms(2) zdiv_mono1 [of t "days_before 10000 * 86400 * ns_per_second - 1" "ns_per_second * 86400"]
      zdiv_zmult2_eq [of 86400 t ns_per_second] by (simp add: ns_per_second_def days_before_def)
  ultimately show ?thesis using civil_year by (force simp: rfc3339_format_def Let_def)
qed

text \<open>
  A time of the log is read back to the millisecond in UTC, and not at all in any other zone: its zone has
  no colon.
\<close>

theorem iso8601_read:
  assumes "civil ((t + off * 60 * ns_per_second) div ns_per_second div 86400) = (y, m, k)" "0 \<le> y" "y \<le> 9999" "\<bar>off\<bar> < 1440"
  shows "rfc3339_parse (iso8601_format off t) = (if off = 0 then Some (t div 1000000 * 1000000) else None)"
proof -
  define u where "u = t + off * 60 * ns_per_second"
  define secs where "secs = u div ns_per_second"
  define ms where "ms = nat (u mod ns_per_second div 1000000)"
  have ms: "ms < 10 ^ 3" "int ms = u mod ns_per_second div 1000000" by (auto simp: ms_def ns_per_second_def)
  have "0 \<le> secs mod 86400" "secs mod 86400 < 86400" by simp_all
  note front = parse_front [OF assms(1) [folded u_def secs_def] assms(2,3) this]
  have "get_frac (CHR ''.'' # padded 3 ms @ zone_text [] off) = (int (digits_num (padded 3 ms) * 10 ^ (9 - length (padded 3 ms))), zone_text [] off)"
    using padded_digits [of _ 3 ms] length_padded [of 3 ms] zone_text_no_digit by (intro get_frac_digits) (auto simp del: length_padded)
  then have f: "get_frac (CHR ''.'' # padded 3 ms @ zone_text [] off) = (int ms * 1000000, zone_text [] off)"
    using digits_num_padded [OF ms(1)] by simp
  have "get_zone (zone_text [] off) = (if off = 0 then Some 0 else None)" by (simp add: zone_text_def get_zone_def padded_2)
  moreover have "iso8601_format off t = date_text (secs div 86400) @ ''T'' @ clock_text (secs mod 86400) @ CHR ''.'' # padded 3 ms @ zone_text [] off"
    by (simp add: iso8601_format_def Let_def u_def secs_def ms_def)
  ultimately have "rfc3339_parse (iso8601_format off t) = (if off = 0 then Some (secs * ns_per_second + int ms * 1000000) else None)"
    using front f by simp
  moreover have "secs * ns_per_second + int ms * 1000000 = t div 1000000 * 1000000" if "off = 0"
    unfolding ms(2) using milliseconds [of t] that by (simp add: secs_def u_def ns_per_second_def)
  ultimately show ?thesis by simp
qed

end
