(* ===== verification/JsonSpace.thy ===== *)
theory JsonSpace
  imports Json
begin

text \<open>
  The texts of a JSON value with white space between the tokens, as an inductive relation: the parser reads
  each of them back. Two instances are the compact text of \<open>Json\<close> and the indented text that
  \<open>Encoder.SetIndent\<close> asks for.
\<close>

section \<open>Spaced texts\<close>

definition all_ws :: "string \<Rightarrow> bool" where
  "all_ws w \<longleftrightarrow> list_all is_ws w"

inductive spaced :: "json \<Rightarrow> string \<Rightarrow> bool"
  and spaced_elems :: "json list \<Rightarrow> string \<Rightarrow> bool"
  and spaced_members :: "(string \<times> json) list \<Rightarrow> string \<Rightarrow> bool" where
  space: "is_ws c \<Longrightarrow> spaced v s \<Longrightarrow> spaced v (c # s)"
| null: "spaced JNull ''null''"
| bool: "spaced (JBool b) (if b then ''true'' else ''false'')"
| num: "wf_num l \<Longrightarrow> spaced (JNum l) l"
| str: "wf_raw r \<Longrightarrow> spaced (JStr r) (quoted r)"
| arr_empty: "all_ws w \<Longrightarrow> spaced (JArr []) (''['' @ w @ '']'')"
| arr: "spaced_elems js s \<Longrightarrow> spaced (JArr js) (''['' @ s)"
| obj_empty: "all_ws w \<Longrightarrow> spaced (JObj []) (''{'' @ w @ ''}'')"
| obj: "spaced_members ms s \<Longrightarrow> spaced (JObj ms) (''{'' @ s)"
| elem_last: "spaced j s \<Longrightarrow> all_ws w \<Longrightarrow> spaced_elems [j] (s @ w @ '']'')"
| elem: "spaced j s \<Longrightarrow> all_ws w \<Longrightarrow> spaced_elems js r \<Longrightarrow> spaced_elems (j # js) (s @ w @ '','' @ r)"
| member_last: "all_ws w1 \<Longrightarrow> wf_raw k \<Longrightarrow> all_ws w2 \<Longrightarrow> spaced v s \<Longrightarrow> all_ws w3 \<Longrightarrow>
    spaced_members [(k, v)] (w1 @ quoted k @ w2 @ '':'' @ s @ w3 @ ''}'')"
| member: "all_ws w1 \<Longrightarrow> wf_raw k \<Longrightarrow> all_ws w2 \<Longrightarrow> spaced v s \<Longrightarrow> all_ws w3 \<Longrightarrow> spaced_members ms r \<Longrightarrow>
    spaced_members ((k, v) # ms) (w1 @ quoted k @ w2 @ '':'' @ s @ w3 @ '','' @ r)"

section \<open>The parser reads them back\<close>

lemma all_ws_simps [simp]: "all_ws []" "all_ws (c # w) \<longleftrightarrow> is_ws c \<and> all_ws w" "all_ws (w @ w') \<longleftrightarrow> all_ws w \<and> all_ws w'"
  by (simp_all add: all_ws_def)

lemma jws_skip: "all_ws w \<Longrightarrow> jws (w @ s) = jws s"
  by (induction w) (simp_all add: jws_def)

lemma jws_idem [simp]: "jws (jws s) = jws s"
  by (simp add: jws_def)

lemma jvalue_jws: "jvalue n d (jws s) = jvalue n d s"
  by (cases n) simp_all

lemma jelems_jws: "jelems n d (jws s) = jelems n d s"
  by (cases n) (simp_all add: jvalue_jws del: jvalue.simps)

lemma jmembers_jws: "jmembers n d (jws s) = jmembers n d s"
  by (cases n) (simp_all del: jvalue.simps)

lemma num_end_ws: "all_ws w \<Longrightarrow> num_end s \<Longrightarrow> num_end (w @ s)"
  by (cases w) (auto simp: num_end_def is_ws_def is_digit_chars)

lemma jws_append: "jws s = c # cs \<Longrightarrow> jws (s @ t) = c # cs @ t"
  by (induction s) (auto simp: jws_def split: if_splits)

lemma jws_token: "\<not> is_ws c \<Longrightarrow> all_ws w \<Longrightarrow> jws (w @ c # s) = c # s"
  by (simp add: jws_skip jws_id)

lemma not_ws [simp]: "\<not> is_ws (CHR 0x22)" "\<not> is_ws CHR '':''" "\<not> is_ws CHR '',''" "\<not> is_ws CHR '']''" "\<not> is_ws CHR ''}''" "\<not> is_ws CHR ''[''"
  "\<not> is_ws CHR ''{''"
  by (simp_all add: is_ws_def)

lemma spaced_hd:
  "spaced v s \<Longrightarrow> \<exists>c cs. jws s = c # cs \<and> c \<notin> {CHR '']'', CHR ''}''}"
  "spaced_elems js s \<Longrightarrow> \<exists>c cs. jws s = c # cs \<and> c \<notin> {CHR '']'', CHR ''}''}"
  "spaced_members ms s \<Longrightarrow> \<exists>c cs. jws s = c # cs \<and> c \<notin> {CHR '']'', CHR ''}''}"
proof (induction rule: spaced_spaced_elems_spaced_members.inducts)
  case (space c v s)
  then show ?case by (simp add: jws_def)
next
  case (num l)
  then obtain c cs where "l = c # cs" "c = CHR ''-'' \<or> is_digit c" using wf_num_hd by blast
  then show ?case by (auto simp: jws_id is_ws_def is_digit_chars)
next
  case (elem_last j s w)
  then show ?case using jws_append by fastforce
next
  case (elem j s w js r)
  then show ?case using jws_append by fastforce
qed (simp_all add: jws_id jws_token quoted_def, simp_all add: jws_def is_ws_def)

lemma jvalue_spaced:
  "spaced v s \<Longrightarrow> wf_json d v \<Longrightarrow> num_end t \<Longrightarrow> 2 * length s < n \<Longrightarrow> jvalue n d (s @ t) = Some (v, t)"
  "spaced_elems js s \<Longrightarrow> (\<forall>j \<in> set js. wf_json d j) \<Longrightarrow> 2 * length s \<le> n \<Longrightarrow> jelems n d (s @ t) = Some (js, t)"
  "spaced_members ms s \<Longrightarrow> (\<forall>(k, v) \<in> set ms. wf_raw k \<and> wf_json d v) \<Longrightarrow> 2 * length s \<le> n \<Longrightarrow> jmembers n d (s @ t) = Some (ms, t)"
proof (induction arbitrary: n d t and n d t and n d t rule: spaced_spaced_elems_spaced_members.inducts)
  case (space c v s)
  then have "jvalue n d (s @ t) = Some (v, t)" by simp
  moreover have "jvalue n d ((c # s) @ t) = jvalue n d (s @ t)" using space(1) jvalue_jws [of n d "c # s @ t"] jvalue_jws [of n d "s @ t"] by (simp add: jws_def)
  ultimately show ?case by simp
next
  case null
  then show ?case using jvalue_text [of d JNull t n] by simp
next
  case (bool b)
  then show ?case using jvalue_text [of d "JBool b" t n] by simp
next
  case (num l)
  then show ?case using jvalue_text [of d "JNum l" t n] by simp
next
  case (str r)
  then show ?case using jvalue_text [of d "JStr r" t n] by simp
next
  case (arr_empty w)
  then obtain n' where "n = Suc n'" by (cases n) auto
  with arr_empty show ?case by (simp add: jws_token)
next
  case (arr js s)
  then obtain n' where n: "n = Suc n'" by (cases n) auto
  obtain c cs where c: "jws s = c # cs" "c \<noteq> CHR '']''" using spaced_hd(2) [OF arr(1)] by auto
  have "jelems n' (d - 1) (s @ t) = Some (js, t)" using arr.prems n by (intro arr.IH) auto
  then show ?case using arr.prems(1) n c jws_append [OF c(1), of t] jelems_jws [of n' "d - 1" "s @ t"] by (simp add: jws_id)
next
  case (obj_empty w)
  then obtain n' where "n = Suc n'" by (cases n) auto
  with obj_empty show ?case by (simp add: jws_token)
next
  case (obj ms s)
  then obtain n' where n: "n = Suc n'" by (cases n) auto
  obtain c cs where c: "jws s = c # cs" "c \<noteq> CHR ''}''" using spaced_hd(3) [OF obj(1)] by auto
  have "jmembers n' (d - 1) (s @ t) = Some (ms, t)" using obj.prems n by (intro obj.IH) auto
  then show ?case using obj.prems(1) n c jws_append [OF c(1), of t] jmembers_jws [of n' "d - 1" "s @ t"] by (simp add: jws_id)
next
  case (elem_last j s w)
  then obtain n' where n: "n = Suc n'" by (cases n) auto
  have "jvalue n' d (s @ w @ CHR '']'' # t) = Some (j, w @ CHR '']'' # t)"
    using elem_last.prems n elem_last(2) by (intro elem_last.IH) (auto intro: num_end_ws)
  then show ?case using n elem_last(2) by (simp add: jws_token)
next
  case (elem j s w js r)
  then obtain n' where n: "n = Suc n'" by (cases n) auto
  have "jvalue n' d (s @ w @ CHR '','' # r @ t) = Some (j, w @ CHR '','' # r @ t)"
    using elem.prems n elem(2) by (intro elem.IH(1)) (auto intro: num_end_ws)
  moreover have "jelems n' d (r @ t) = Some (js, t)" using elem.prems n by (intro elem.IH(2)) auto
  ultimately show ?case using n elem(2) by (simp add: jws_token)
next
  case (member_last w1 k w2 v s w3)
  then obtain n' where n: "n = Suc n'" by (cases n) auto
  have "jvalue n' d (s @ w3 @ CHR ''}'' # t) = Some (v, w3 @ CHR ''}'' # t)"
    using member_last.prems n member_last(5) by (intro member_last.IH) (auto intro: num_end_ws simp: quoted_def)
  then show ?case using n member_last(1,2,3,5) by (simp add: jws_token quoted_def wf_raw_read)
next
  case (member w1 k w2 v s w3 ms r)
  then obtain n' where n: "n = Suc n'" by (cases n) auto
  have "jvalue n' d (s @ w3 @ CHR '','' # r @ t) = Some (v, w3 @ CHR '','' # r @ t)"
    using member.prems n member(5) by (intro member.IH(1)) (auto intro: num_end_ws simp: quoted_def)
  moreover have "jmembers n' d (r @ t) = Some (ms, t)" using member.prems n by (intro member.IH(2)) (auto simp: quoted_def)
  ultimately show ?case using n member(1,2,3,5) by (simp add: jws_token quoted_def wf_raw_read)
qed

lemma json_parse_spaced:
  assumes "spaced v s" "wf_json maxNestingDepth v" "all_ws w"
  shows "json_parse (s @ w) = Some v"
proof -
  have "num_end w" using assms(3) num_end_ws [of w "[]"] by (simp add: num_end_def)
  then have "jvalue (Suc (2 * length (s @ w))) maxNestingDepth (s @ w) = Some (v, w)" using assms by (intro jvalue_spaced(1)) auto
  moreover have "jws w = []" using assms(3) jws_skip [of w "[]"] by (simp add: jws_def)
  ultimately show ?thesis by (simp add: json_parse_def del: jvalue.simps)
qed

section \<open>Indented texts\<close>

definition newline :: "nat \<Rightarrow> string" where
  "newline d = CHR 0x0A # replicate (2 * d) (CHR '' '')"

fun json_indent :: "nat \<Rightarrow> json \<Rightarrow> string" where
  "json_indent d (JArr js) =
     (if js = [] then ''[]'' else ''['' @ commas (map (\<lambda>j. newline (Suc d) @ json_indent (Suc d) j) js) @ newline d @ '']'')"
| "json_indent d (JObj ms) =
     (if ms = [] then ''{}''
      else ''{'' @ commas (map (\<lambda>(k, v). newline (Suc d) @ quoted k @ '': '' @ json_indent (Suc d) v) ms) @ newline d @ ''}'')"
| "json_indent d j = json_text j"

lemma newline_ws [simp]: "all_ws (newline d)"
  by (simp add: newline_def all_ws_def is_ws_def list_all_iff)

lemma all_ws_space [simp]: "all_ws '' ''"
  by (simp add: is_ws_def)

lemma spaced_ws: "all_ws w \<Longrightarrow> spaced v s \<Longrightarrow> spaced v (w @ s)"
  by (induction w) (auto intro: spaced_spaced_elems_spaced_members.intros)

lemma elems_spaced:
  assumes "\<And>j. j \<in> set js \<Longrightarrow> spaced j (f j)" "js \<noteq> []" "all_ws w"
  shows "spaced_elems js (commas (map f js) @ w @ '']'')"
  using assms(1,2)
proof (induction js)
  case (Cons j js)
  show ?case
  proof (cases "js = []")
    case True
    then show ?thesis using elem_last [OF Cons.prems(1) assms(3), of j] by simp
  next
    case False
    then show ?thesis using elem [OF Cons.prems(1) all_ws_simps(1), of j js] Cons by (simp add: commas_Cons)
  qed
qed simp

lemma members_spaced:
  assumes "\<And>k v. (k, v) \<in> set ms \<Longrightarrow> wf_raw k \<and> spaced v (f v)" "ms \<noteq> []" "all_ws w1" "all_ws w"
  shows "spaced_members ms (commas (map (\<lambda>(k, v). w1 @ quoted k @ '':'' @ f v) ms) @ w @ ''}'')"
  using assms(1,2)
proof (induction ms)
  case (Cons m ms)
  obtain k v where m: "m = (k, v)" by fastforce
  then have k: "wf_raw k" "spaced v (f v)" using Cons.prems(1) [of k v] by auto
  show ?case
  proof (cases "ms = []")
    case True
    then show ?thesis using member_last [OF assms(3) k(1) all_ws_simps(1) k(2) assms(4)] m by simp
  next
    case False
    then have "spaced_members ms (commas (map (\<lambda>(k, v). w1 @ quoted k @ '':'' @ f v) ms) @ w @ ''}'')"
      using Cons.prems(1) by (intro Cons.IH) (meson list.set_intros(2))
    from member [OF assms(3) k(1) all_ws_simps(1) k(2) all_ws_simps(1) this] show ?thesis using m False by (simp add: commas_Cons)
  qed
qed simp

lemma json_indent_spaced: "wf_json d v \<Longrightarrow> spaced v (json_indent i v)"
proof (induction d v arbitrary: i rule: wf_json.induct)
  case (5 d js)
  show ?case
  proof (cases "js = []")
    case True
    then show ?thesis using arr_empty [of "[]"] by simp
  next
    case False
    have "spaced_elems js (commas (map (\<lambda>j. newline (Suc i) @ json_indent (Suc i) j) js) @ newline i @ '']'')"
      using 5 False by (intro elems_spaced spaced_ws) auto
    then show ?thesis using False arr by simp
  qed
next
  case (6 d ms)
  show ?case
  proof (cases "ms = []")
    case True
    then show ?thesis using obj_empty [of "[]"] by simp
  next
    case False
    have "spaced v (json_indent (Suc i) v)" "wf_raw k" if "(k, v) \<in> set ms" for k v using 6 that by auto
    then have "spaced_members ms (commas (map (\<lambda>(k, v). newline (Suc i) @ quoted k @ '':'' @ ('' '' @ json_indent (Suc i) v)) ms) @ newline i @ ''}'')"
      using False by (intro members_spaced) (auto intro: space simp: is_ws_def)
    then show ?thesis using False obj by simp
  qed
qed (auto intro: null bool [of True, simplified] bool [of False, simplified] num str)

lemma json_text_spaced: "wf_json d v \<Longrightarrow> spaced v (json_text v)"
proof (induction d v rule: wf_json.induct)
  case (5 d js)
  then show ?case using arr_empty [of "[]"] arr elems_spaced [of js json_text "[]"] by (cases "js = []") auto
next
  case (6 d ms)
  then have "wf_raw k \<and> spaced v (json_text v)" if "(k, v) \<in> set ms" for k v using that by auto
  then show ?case using obj_empty [of "[]"] obj members_spaced [of ms json_text "[]" "[]"] by (cases "ms = []") auto
qed (auto intro: null bool [of True, simplified] bool [of False, simplified] num str)

section \<open>Text cut off\<close>

text \<open>What has been read stays read when more text follows, but for a number, which more digits could continue.\<close>

lemma dropWhile_more: "dropWhile P s \<noteq> [] \<Longrightarrow> dropWhile P (s @ x) = dropWhile P s @ x \<and> takeWhile P (s @ x) = takeWhile P s"
  by (induction s) auto

lemma jexp_more:
  assumes "jexp lit s = Some (l, r)" "r \<noteq> []"
  shows "jexp lit (s @ x) = Some (l, r @ x)"
proof (cases s)
  case (Cons e t)
  show ?thesis
  proof (cases "e = CHR ''e'' \<or> e = CHR ''E''")
    case True
    have "t \<noteq> []" using assms(1) Cons True by (auto simp: jexp_def)
    then obtain c u where t: "t = c # u" by (cases t) auto
    let ?r1 = "if c = CHR ''+'' \<or> c = CHR ''-'' then u else t"
    have r: "dropWhile is_digit ?r1 = r" "takeWhile is_digit ?r1 \<noteq> []"
      using assms(1) Cons True t by (auto simp: jexp_def Let_def split: if_splits)
    from dropWhile_more [of is_digit ?r1 x] r(1) assms(2) have "dropWhile is_digit (?r1 @ x) = r @ x"
      "takeWhile is_digit (?r1 @ x) = takeWhile is_digit ?r1" by simp_all
    then show ?thesis using assms(1) Cons True t r by (auto simp: jexp_def Let_def split: if_splits)
  qed (use assms Cons in \<open>auto simp: jexp_def\<close>)
qed (use assms in \<open>simp add: jexp_def\<close>)

lemma jexp_empty: "jexp lit [] = Some (l, r) \<Longrightarrow> r = []"
  by (simp add: jexp_def)

lemma jfrac_more:
  assumes "jfrac lit s = Some (l, r)" "r \<noteq> []"
  shows "jfrac lit (s @ x) = Some (l, r @ x)"
proof (cases s)
  case (Cons c t)
  show ?thesis
  proof (cases "c = CHR ''.''")
    case True
    have j: "jexp (lit @ c # takeWhile is_digit t) (dropWhile is_digit t) = Some (l, r)" "takeWhile is_digit t \<noteq> []"
      using assms(1) Cons True by (simp_all add: jfrac_def Let_def split: if_splits)
    have "dropWhile is_digit t \<noteq> []" using j(1) assms(2) jexp_empty by (metis)
    then show ?thesis using dropWhile_more [of is_digit t x] jexp_more [OF j(1) assms(2), of x] j(2) Cons True
      by (simp add: jfrac_def Let_def)
  next
    case False
    then show ?thesis using assms Cons jexp_more [of lit s l r x] by (simp add: jfrac_def)
  qed
qed (use assms in \<open>simp add: jfrac_def jexp_def\<close>)

lemma jfrac_empty: "jfrac lit [] = Some (l, r) \<Longrightarrow> r = []"
  by (simp add: jfrac_def jexp_def)

lemma digits_append:
  assumes "jfrac (sg @ takeWhile is_digit u) (dropWhile is_digit u) = Some (l, r)" "r \<noteq> []"
  shows "jfrac (sg @ takeWhile is_digit (u @ x)) (dropWhile is_digit (u @ x)) = Some (l, r @ x)"
proof -
  have "dropWhile is_digit u \<noteq> []" using assms jfrac_empty by metis
  then show ?thesis using dropWhile_more [of is_digit u x] jfrac_more [OF assms] by simp
qed

lemma jnumber_cases:
  "jnumber [] = None" "jnumber ''-'' = None"
  "jnumber (CHR ''-'' # c # t) = (if c = CHR ''0'' then jfrac (''-'' @ [c]) t
     else if is_digit c then jfrac (''-'' @ takeWhile is_digit (c # t)) (dropWhile is_digit (c # t)) else None)"
  "c \<noteq> CHR ''-'' \<Longrightarrow> jnumber (c # t) = (if c = CHR ''0'' then jfrac [c] t
     else if is_digit c then jfrac ([] @ takeWhile is_digit (c # t)) (dropWhile is_digit (c # t)) else None)"
  by (simp_all add: jnumber_def)

lemma jnumber_more:
  assumes "jnumber s = Some (l, r)" "r \<noteq> []"
  shows "jnumber (s @ x) = Some (l, r @ x)"
proof (cases s)
  case (Cons c t)
  show ?thesis
  proof (cases "c = CHR ''-''")
    case True
    then obtain c' u where t: "t = c' # u" using assms(1) Cons by (cases t) (simp_all add: jnumber_cases)
    show ?thesis using assms(1) digits_append [of "''-''" t l r x] jfrac_more [of _ u l r x] assms(2)
      unfolding Cons True t append_Cons jnumber_cases(3) by (auto split: if_splits)
  next
    case False
    then show ?thesis using assms(1) digits_append [of "[]" s l r x] jfrac_more [of _ t l r x] assms(2)
      unfolding Cons append_Cons jnumber_cases(4) [OF False] by (auto split: if_splits)
  qed
qed (use assms in \<open>simp add: jnumber_cases\<close>)

lemma prefix_append: "has_prefix s p \<Longrightarrow> has_prefix (s @ x) p \<and> drop (length p) (s @ x) = drop (length p) s @ x"
proof -
  assume "has_prefix s p"
  then obtain t where "s = p @ t" by (metis has_prefix_def append_take_drop_id)
  then show ?thesis by (simp add: has_prefix_def)
qed

lemma jvalue_append:
  "jvalue n d s = Some (j, r) \<Longrightarrow> r \<noteq> [] \<or> (\<forall>l. j \<noteq> JNum l) \<Longrightarrow> jvalue n d (s @ x) = Some (j, r @ x)"
  "jmembers n d s = Some (ms, r) \<Longrightarrow> jmembers n d (s @ x) = Some (ms, r @ x)"
  "jelems n d s = Some (js, r) \<Longrightarrow> jelems n d (s @ x) = Some (js, r @ x)"
proof (induction n arbitrary: d s j r ms js rule: nat.induct)
  case (Suc n)
  {
    case 1
    note p = 1
    then obtain c cs where c: "jws s = c # cs" by (auto split: list.splits)
    note a = jws_append [OF c, of x]
    consider (str) "c = CHR 0x22" | (obj) "c = CHR ''{''" | (arr) "c = CHR ''[''"
      | (leaf) "c \<noteq> CHR 0x22" "c \<noteq> CHR ''{''" "c \<noteq> CHR ''[''" by blast
    then show ?case
    proof cases
      case str
      then show ?thesis using p c a jstring_append [of cs _ r x] by auto
    next
      case obj
      then obtain y u where y: "jws cs = y # u" using p c by (auto split: list.splits if_splits)
      show ?thesis using p c a obj y jws_append [OF y, of x] Suc(2) [of "d - 1" "y # u"] by (auto split: if_splits)
    next
      case arr
      then obtain y u where y: "jws cs = y # u" using p c by (auto split: list.splits if_splits)
      show ?thesis using p c a arr y jws_append [OF y, of x] Suc(3) [of "d - 1" "y # u"] by (auto split: if_splits)
    next
      case leaf
      have h: "has_prefix (c # cs @ x) w \<longleftrightarrow> has_prefix (c # cs) w" "drop (length w) (c # cs @ x) = drop (length w) (c # cs) @ x"
        if "has_prefix (c # cs) w" for w using prefix_append [OF that, of x] that by simp_all
      have e: "jvalue (Suc n) d s = (if has_prefix (c # cs) ''null'' then Some (JNull, drop 4 (c # cs))
          else if has_prefix (c # cs) ''true'' then Some (JBool True, drop 4 (c # cs))
          else if has_prefix (c # cs) ''false'' then Some (JBool False, drop 5 (c # cs))
          else map_option (apfst JNum) (jnumber (c # cs)))" using c leaf by simp
      have e': "jvalue (Suc n) d (s @ x) = (if has_prefix (c # cs @ x) ''null'' then Some (JNull, drop 4 (c # cs @ x))
          else if has_prefix (c # cs @ x) ''true'' then Some (JBool True, drop 4 (c # cs @ x))
          else if has_prefix (c # cs @ x) ''false'' then Some (JBool False, drop 5 (c # cs @ x))
          else map_option (apfst JNum) (jnumber (c # cs @ x)))" using a leaf by simp
      have hd: "has_prefix (c # t) (y # w) \<Longrightarrow> c = y" for t y w by (simp add: has_prefix_def)
      show ?thesis
      proof (cases "has_prefix (c # cs) ''null'' \<or> has_prefix (c # cs) ''true'' \<or> has_prefix (c # cs) ''false''")
        case True
        then consider (n) "has_prefix (c # cs) ''null''" | (t) "has_prefix (c # cs) ''true''" | (f) "has_prefix (c # cs) ''false''" by blast
        then show ?thesis
        proof cases
          case n
          then show ?thesis using p(1) h [OF n] unfolding e e' by (simp add: numeral_eq_Suc)
        next
          case t
          then have "c = CHR ''t''" by (rule hd)
          then have "\<not> has_prefix (c # u) ''null''" for u using hd [of u "CHR ''n''"] by auto
          then show ?thesis using p(1) t h [OF t] unfolding e e' by (simp add: numeral_eq_Suc)
        next
          case f
          then have "c = CHR ''f''" by (rule hd)
          then have "\<not> has_prefix (c # u) ''null''" "\<not> has_prefix (c # u) ''true''" for u using hd [of u "CHR ''n''"] hd [of u "CHR ''t''"] by auto
          then show ?thesis using p(1) f h [OF f] unfolding e e' by (simp add: numeral_eq_Suc)
        qed
      next
        case False
        then obtain l where l: "jnumber (c # cs) = Some (l, r)" "j = JNum l" using p(1) unfolding e by auto
        then have "c = CHR ''-'' \<or> is_digit c" using jnumber_cases(4) [of c cs] by (auto simp: is_digit_chars split: if_splits)
        then have "c \<noteq> CHR ''n''" "c \<noteq> CHR ''t''" "c \<noteq> CHR ''f''" by (auto simp: is_digit_chars)
        then have "\<not> has_prefix (c # cs @ x) ''null''" "\<not> has_prefix (c # cs @ x) ''true''" "\<not> has_prefix (c # cs @ x) ''false''"
          using hd by blast+
        then show ?thesis unfolding e' using jnumber_more [OF l(1), of x] p(2) l(2) by simp
      qed
    qed
  next
    case 2
    note p = 2
    then obtain c cs k u where c: "jws s = c # cs" "c = CHR 0x22" "jstring cs = Some (k, u)"
      by (auto split: list.splits if_splits option.splits)
    with p obtain y u1 v u2 z u3 where u: "jws u = y # u1" "y = CHR '':''" "jvalue n d u1 = Some (v, u2)" "jws u2 = z # u3"
      by (auto split: list.splits if_splits option.splits)
    have "u2 \<noteq> []" using u(4) by (auto simp: jws_def)
    note q = jws_append [OF c(1), of x] jstring_append [OF c(3), of x] jws_append [OF u(1), of x]
      Suc(1) [OF u(3) disjI1 [OF this]] jws_append [OF u(4), of x]
    show ?case using p c u q Suc(2) [of d u3] by (auto split: if_splits)
  next
    case 3
    note p = 3
    then obtain v u2 z u3 where u: "jvalue n d s = Some (v, u2)" "jws u2 = z # u3"
      by (auto split: list.splits if_splits option.splits)
    have "u2 \<noteq> []" using u(2) by (auto simp: jws_def)
    note q = Suc(1) [OF u(1) disjI1 [OF this]] jws_append [OF u(2), of x]
    show ?case using p u q Suc(3) [of d u3] by (auto split: if_splits)
  }
qed simp_all

text \<open>No proper beginning of a text of an object is a value: the parser needs the whole of it.\<close>

lemma jvalue_cut:
  assumes "spaced (JObj ms) s" "wf_json d (JObj ms)" "n < length s" "jvalue (Suc (2 * n)) d (take n s) = Some (j, r)"
  shows "\<exists>l. j = JNum l"
proof (rule ccontr)
  assume c: "\<nexists>l. j = JNum l"
  have "jvalue (Suc (2 * length s)) d (take n s) = Some (j, r)"
    using assms(3,4) jvalue_fuel(1) [of "take n s" "Suc (2 * n)" "Suc (2 * length s)" d] by (simp del: jvalue.simps)
  from jvalue_append(1) [OF this, of "drop n s"] c have "jvalue (Suc (2 * length s)) d s = Some (j, r @ drop n s)" by (simp del: jvalue.simps)
  moreover have "jvalue (Suc (2 * length s)) d s = Some (JObj ms, [])"
    using jvalue_spaced(1) [OF assms(1,2), of "[]" "Suc (2 * length s)"] by (simp add: num_end_def del: jvalue.simps)
  ultimately show False using assms(3) by (simp del: jvalue.simps)
qed

end
