(* ===== verification/Credential.thy ===== *)
theory Credential
  imports Errs
begin

text \<open>
  \<^verbatim>\<open>src/internal/credential\<close> and \<^verbatim>\<open>src/cmd/init-credential\<close>: the encrypted credentials file. AES-GCM
  (\<open>gcm\<close>) and the JSON encoding of the encrypted fields (\<open>codec\<close>) are parameters with their documented
  round-trip laws; base64, which carries the master key, is modelled.
\<close>

section \<open>Base64\<close>

definition b64_alphabet :: string where
  "b64_alphabet = ''ABCDEFGHIJKLMNOPQRSTUVWXYZabcdefghijklmnopqrstuvwxyz0123456789+/''"

definition b64_char :: "nat \<Rightarrow> char" where
  "b64_char n = b64_alphabet ! n"

definition b64_val :: "char \<Rightarrow> nat option" where
  "b64_val c = map_of (zip b64_alphabet [0..<64]) c"

fun b64_encode :: "bytes \<Rightarrow> string" where
  "b64_encode [] = []"
| "b64_encode [a] =
     (let n = unat a * 65536 in [b64_char (n div 262144), b64_char (n div 4096 mod 64)] @ ''=='')"
| "b64_encode [a, b] =
     (let n = unat a * 65536 + unat b * 256
      in [b64_char (n div 262144), b64_char (n div 4096 mod 64), b64_char (n div 64 mod 64)] @ ''='')"
| "b64_encode (a # b # c # r) =
     (let n = unat a * 65536 + unat b * 256 + unat c
      in [b64_char (n div 262144), b64_char (n div 4096 mod 64), b64_char (n div 64 mod 64), b64_char (n mod 64)] @
         b64_encode r)"

text \<open>The decoder after the line breaks, which it skips wherever they are, have been dropped.\<close>

fun b64_quads :: "string \<Rightarrow> bytes option" where
  "b64_quads [] = Some []"
| "b64_quads (a # b # c # d # r) =
     (case (b64_val a, b64_val b) of
        (Some x, Some y) \<Rightarrow>
          if c = CHR ''='' then
            (if d = CHR ''='' \<and> r = [] then Some [of_nat ((x * 64 + y) div 16)] else None)
          else
            (case b64_val c of
               None \<Rightarrow> None
             | Some z \<Rightarrow>
                 if d = CHR ''='' then
                   (if r = [] then Some [of_nat ((x * 64 + y) div 16), of_nat ((x * 4096 + y * 64 + z) div 4)] else None)
                 else
                   (case b64_val d of
                      None \<Rightarrow> None
                    | Some w \<Rightarrow>
                        let n = x * 262144 + y * 4096 + z * 64 + w
                        in map_option (\<lambda>bs. [of_nat (n div 65536), of_nat (n div 256), of_nat n] @ bs) (b64_quads r)))
      | _ \<Rightarrow> None)"
| "b64_quads _ = None"

definition b64_decode :: "string \<Rightarrow> bytes option" where
  "b64_decode s = b64_quads (filter (\<lambda>c. c \<noteq> CHR 0x0A \<and> c \<noteq> CHR 0x0D) s)"

lemma b64_table:
  "list_all (\<lambda>n. b64_val (b64_char n) = Some n \<and> b64_char n \<noteq> CHR ''='' \<and> b64_char n \<noteq> CHR 0x0A \<and>
     b64_char n \<noteq> CHR 0x0D) [0..<64]"
  by code_simp

lemma b64_val_char [simp]:
  "n < 64 \<Longrightarrow> b64_val (b64_char n) = Some n" "n < 64 \<Longrightarrow> b64_char n \<noteq> CHR ''=''"
  "n < 64 \<Longrightarrow> b64_char n \<noteq> CHR 0x0A" "n < 64 \<Longrightarrow> b64_char n \<noteq> CHR 0x0D"
  using b64_table unfolding list_all_iff by simp_all

lemma of_nat_byte: "n mod 256 = unat (a :: byte) \<Longrightarrow> (of_nat n :: byte) = a"
  by (simp add: word_unat_eq_iff unat_of_nat)

text \<open>The six-bit groups of a number put together again, and the bytes of a number taken apart.\<close>

lemma sextets:
  fixes n :: nat
  shows "n div 262144 * 64 + n div 4096 mod 64 = n div 4096"
    "n div 262144 * 4096 + n div 4096 mod 64 * 64 + n div 64 mod 64 = n div 64"
    "n div 262144 * 262144 + n div 4096 mod 64 * 4096 + n div 64 mod 64 * 64 + n mod 64 = n"
proof -
  have "n div 64 = n div 4096 * 64 + n div 64 mod 64" by (simp add: div_mult2_eq [of n 64 64, simplified] div_mult_mod_eq)
  moreover have "n div 4096 = n div 262144 * 64 + n div 4096 mod 64"
    by (simp add: div_mult2_eq [of n 4096 64, simplified] div_mult_mod_eq)
  moreover have "n = n div 64 * 64 + n mod 64" by (simp add: div_mult_mod_eq)
  ultimately show "n div 262144 * 64 + n div 4096 mod 64 = n div 4096"
    "n div 262144 * 4096 + n div 4096 mod 64 * 64 + n div 64 mod 64 = n div 64"
    "n div 262144 * 262144 + n div 4096 mod 64 * 4096 + n div 64 mod 64 * 64 + n mod 64 = n"
    by linarith+
qed

lemma three_bytes:
  fixes x y z :: nat
  assumes "x < 256" "y < 256" "z < 256"
  shows "(x * 65536 + y * 256 + z) div 65536 = x" "(x * 65536 + y * 256 + z) div 256 mod 256 = y"
    "(x * 65536 + y * 256 + z) mod 256 = z" "(x * 65536 + y * 256 + z) div 262144 < 64"
proof -
  have r: "y * 256 + z < 65536" using assms by simp
  show "(x * 65536 + y * 256 + z) div 65536 = x" using div_mult_self3 [of 65536 x "y * 256 + z"] r by (simp add: add.assoc)
  have "(x * 65536 + y * 256 + z) div 256 = x * 256 + y"
    using div_mult_self3 [of 256 "x * 256 + y" z] assms(3) by (simp add: algebra_simps)
  then show "(x * 65536 + y * 256 + z) div 256 mod 256 = y" using assms by simp
  have "x * 65536 + y * 256 + z = (x * 256 + y) * 256 + z" by simp
  then show "(x * 65536 + y * 256 + z) mod 256 = z" using assms(3) by (metis mod_less mod_mult_self3)
  show "(x * 65536 + y * 256 + z) div 262144 < 64" by (rule less_mult_imp_div_less) (use r assms(1) in linarith)
qed

lemma bytes_of_three:
  fixes a b c :: byte
  defines "n \<equiv> unat a * 65536 + unat b * 256 + unat c"
  shows "of_nat (n div 65536) = a" "of_nat (n div 256) = b" "of_nat n = c" "n div 262144 < 64"
  unfolding n_def using three_bytes [of "unat a" "unat b" "unat c"] by (simp_all add: of_nat_byte del: of_nat_add of_nat_mult)

lemma b64_quads_encode: "b64_quads (b64_encode bs) = Some bs"
proof (induction bs rule: b64_encode.induct)
  case (2 a)
  show ?case using bytes_of_three [of a 0 0] sextets(1) [of "unat a * 65536"]
    by (simp add: Let_def div_mult2_eq [symmetric] del: of_nat_add of_nat_mult)
next
  case (3 a b)
  show ?case using bytes_of_three [of a b 0] sextets(1,2) [of "unat a * 65536 + unat b * 256"]
    by (simp add: Let_def div_mult2_eq [symmetric] del: of_nat_add of_nat_mult)
next
  case (4 a b c r)
  show ?case using bytes_of_three [of a b c] sextets(3) [of "unat a * 65536 + unat b * 256 + unat c"] 4
    by (simp add: Let_def del: of_nat_add of_nat_mult)
qed simp

lemma b64_encode_no_newline: "c \<in> set (b64_encode bs) \<Longrightarrow> c \<noteq> CHR 0x0A \<and> c \<noteq> CHR 0x0D"
proof (induction bs rule: b64_encode.induct)
  case (2 a)
  then show ?case using bytes_of_three(4) [of a 0 0] by (auto simp: Let_def)
next
  case (3 a b)
  then show ?case using bytes_of_three(4) [of a b 0] by (auto simp: Let_def)
next
  case (4 a b d r)
  then show ?case using bytes_of_three(4) [of a b d] by (auto simp: Let_def)
qed simp

lemma b64_roundtrip: "b64_decode (b64_encode bs) = Some bs"
proof -
  have "filter (\<lambda>c. c \<noteq> CHR 0x0A \<and> c \<noteq> CHR 0x0D) (b64_encode bs) = b64_encode bs"
    using b64_encode_no_newline by (simp add: filter_id_conv)
  then show ?thesis by (simp add: b64_decode_def b64_quads_encode)
qed

section \<open>Encryption\<close>

text \<open>AES-GCM: creating the cipher and the mode may fail, sealing and opening take key and nonce.\<close>

record aead =
  ae_cipher :: "bytes \<Rightarrow> goerror option"
  ae_gcm :: "bytes \<Rightarrow> goerror option"
  ae_seal :: "bytes \<Rightarrow> bytes \<Rightarrow> bytes \<Rightarrow> bytes"
  ae_open :: "bytes \<Rightarrow> bytes \<Rightarrow> bytes \<Rightarrow> goerror + bytes"

definition masterKeyLen :: nat where "masterKeyLen = 32"
definition nonceSize :: nat where "nonceSize = 12"

text \<open>The documented behaviour: a 32-byte key makes a cipher, and what was sealed opens with the same key and nonce.\<close>

definition aead_ok :: "aead \<Rightarrow> bool" where
  "aead_ok A \<longleftrightarrow> (\<forall>key nonce pt. length key = 32 \<and> length nonce = 12 \<longrightarrow>
     ae_cipher A key = None \<and> ae_gcm A key = None \<and> ae_open A key nonce (ae_seal A key nonce pt) = Inr pt)"

definition key_error :: "bytes \<Rightarrow> goerror" where
  "key_error masterKey = New ErrCredentialInvalid
     (''master key must be '' @ itoa (int masterKeyLen) @ '' bytes, got '' @ itoa (int (length masterKey)))"

definition Encrypt :: "aead \<Rightarrow> goerror + bytes \<Rightarrow> bytes \<Rightarrow> bytes \<Rightarrow> goerror + bytes" where
  "Encrypt A rnd masterKey plaintext =
     (if length masterKey \<noteq> masterKeyLen then Inl (key_error masterKey)
      else case ae_cipher A masterKey of
        Some err \<Rightarrow> Inl (Wrap ErrCredentialInvalid ''create aes cipher'' err)
      | None \<Rightarrow>
     (case ae_gcm A masterKey of
        Some err \<Rightarrow> Inl (Wrap ErrCredentialInvalid ''create gcm'' err)
      | None \<Rightarrow>
     (case rnd of
        Inl err \<Rightarrow> Inl (Wrap ErrCredentialInvalid ''generate nonce'' err)
      | Inr nonce \<Rightarrow> Inr (nonce @ ae_seal A masterKey nonce plaintext))))"

definition Decrypt :: "aead \<Rightarrow> bytes \<Rightarrow> bytes \<Rightarrow> goerror + bytes" where
  "Decrypt A masterKey ciphertext =
     (if length masterKey \<noteq> masterKeyLen then Inl (key_error masterKey)
      else case ae_cipher A masterKey of
        Some err \<Rightarrow> Inl (Wrap ErrCredentialInvalid ''create aes cipher'' err)
      | None \<Rightarrow>
     (case ae_gcm A masterKey of
        Some err \<Rightarrow> Inl (Wrap ErrCredentialInvalid ''create gcm'' err)
      | None \<Rightarrow>
        if length ciphertext < nonceSize then Inl (New ErrCredentialInvalid ''ciphertext too short'')
        else
          let nonce = take nonceSize ciphertext; ct = drop nonceSize ciphertext
          in case ae_open A masterKey nonce ct of
               Inl err \<Rightarrow> Inl (Wrap ErrCredentialInvalid ''gcm open'' err)
             | Inr plaintext \<Rightarrow> Inr plaintext))"

section \<open>The credentials file\<close>

record encryptedFields =
  ef_DeviceToken :: bytes
  ef_MTLSCert :: bytes
  ef_MTLSKey :: bytes

record codec =
  cd_marshal :: "encryptedFields \<Rightarrow> goerror + bytes"
  cd_unmarshal :: "bytes \<Rightarrow> goerror + encryptedFields"

definition codec_ok :: "codec \<Rightarrow> bool" where
  "codec_ok C \<longleftrightarrow> (\<forall>e data. cd_marshal C e = Inr data \<longrightarrow> cd_unmarshal C data = Inr e)"

text \<open>An absent field stays absent.\<close>

definition encrypt_field :: "aead \<Rightarrow> goerror + bytes \<Rightarrow> bytes \<Rightarrow> string \<Rightarrow> goerror + bytes" where
  "encrypt_field A rnd masterKey s = (if s \<noteq> [] then Encrypt A rnd masterKey (bytes_of s) else Inr [])"

definition decrypt_field :: "aead \<Rightarrow> bytes \<Rightarrow> bytes \<Rightarrow> goerror + string" where
  "decrypt_field A masterKey c =
     (if 0 < length c then (case Decrypt A masterKey c of Inl err \<Rightarrow> Inl err | Inr pt \<Rightarrow> Inr (string_of pt)) else Inr [])"

text \<open>
  What the calls of \<open>Save\<close> meet: the three nonces, and the results of \<open>MkdirAll\<close> and \<open>WriteFile\<close>. A
  failed write may leave any content behind.
\<close>

record save_io =
  si_mkdir :: "goerror option"
  si_nonces :: "(goerror + bytes) \<times> (goerror + bytes) \<times> (goerror + bytes)"
  si_write :: "(goerror \<times> bytes option) option"

definition cred_Save ::
  "aead \<Rightarrow> codec \<Rightarrow> save_io \<Rightarrow> string \<Rightarrow> Credentials \<Rightarrow> bytes \<Rightarrow> (string \<rightharpoonup> bytes) \<Rightarrow> goerror option \<times> (string \<rightharpoonup> bytes)" where
  "cred_Save A C io path creds masterKey fs =
     (case si_mkdir io of
        Some err \<Rightarrow> (Some (Wrap ErrStorageIO ''mkdir for credentials'' err), fs)
      | None \<Rightarrow>
     (case encrypt_field A (fst (si_nonces io)) masterKey (cr_DeviceToken creds) of
        Inl err \<Rightarrow> (Some err, fs)
      | Inr t \<Rightarrow>
     (case encrypt_field A (fst (snd (si_nonces io))) masterKey (cr_MTLSCert creds) of
        Inl err \<Rightarrow> (Some err, fs)
      | Inr c \<Rightarrow>
     (case encrypt_field A (snd (snd (si_nonces io))) masterKey (cr_MTLSKey creds) of
        Inl err \<Rightarrow> (Some err, fs)
      | Inr k \<Rightarrow>
     (case cd_marshal C \<lparr>ef_DeviceToken = t, ef_MTLSCert = c, ef_MTLSKey = k\<rparr> of
        Inl err \<Rightarrow> (Some (Wrap ErrCredentialInvalid ''marshal credentials'' err), fs)
      | Inr data \<Rightarrow>
          (case si_write io of
             Some (err, left) \<Rightarrow> (Some (Wrap ErrStorageIO ''write credentials file'' err), fs(path := left))
           | None \<Rightarrow> (None, fs(path \<mapsto> data))))))))"

text \<open>\<open>os.ReadFile\<close>: an error of its own, or that the file does not exist.\<close>

definition read_file :: "goerror option \<Rightarrow> (string \<rightharpoonup> bytes) \<Rightarrow> string \<Rightarrow> goerror + bytes" where
  "read_file rd fs path =
     (case rd of
        Some err \<Rightarrow> Inl err
      | None \<Rightarrow> (case fs path of None \<Rightarrow> Inl (PlainError ''no such file or directory'') | Some data \<Rightarrow> Inr data))"

definition cred_Load :: "aead \<Rightarrow> codec \<Rightarrow> goerror option \<Rightarrow> string \<Rightarrow> bytes \<Rightarrow> (string \<rightharpoonup> bytes) \<Rightarrow> goerror + Credentials" where
  "cred_Load A C rd path masterKey fs =
     (case read_file rd fs path of
        Inl err \<Rightarrow> Inl (Wrap ErrCredentialMissing ''read credentials file'' err)
      | Inr data \<Rightarrow>
     (case cd_unmarshal C data of
        Inl err \<Rightarrow> Inl (Wrap ErrCredentialInvalid ''unmarshal credentials'' err)
      | Inr enc \<Rightarrow>
     (case decrypt_field A masterKey (ef_DeviceToken enc) of
        Inl err \<Rightarrow> Inl err
      | Inr t \<Rightarrow>
     (case decrypt_field A masterKey (ef_MTLSCert enc) of
        Inl err \<Rightarrow> Inl err
      | Inr c \<Rightarrow>
     (case decrypt_field A masterKey (ef_MTLSKey enc) of
        Inl err \<Rightarrow> Inl err
      | Inr k \<Rightarrow> Inr \<lparr>cr_DeviceToken = t, cr_MTLSCert = c, cr_MTLSKey = k\<rparr>)))))"

section \<open>The manager\<close>

record CredManager =
  cm_masterKey :: bytes
  cm_creds :: Credentials
  cm_envKey :: string
  cm_encPath :: string

definition NewCredManager ::
  "aead \<Rightarrow> codec \<Rightarrow> (string \<Rightarrow> string) \<Rightarrow> goerror option \<Rightarrow> string \<Rightarrow> string \<Rightarrow> (string \<rightharpoonup> bytes) \<Rightarrow> goerror + CredManager" where
  "NewCredManager A C getenv rd envKey encPath fs =
     (if getenv envKey = [] then Inl (New ErrCredentialMissing (''master key env '' @ envKey @ '' is empty''))
      else case b64_decode (getenv envKey) of
        None \<Rightarrow> Inl (Wrap ErrCredentialInvalid ''decode master key base64'' (PlainError ''illegal base64 data''))
      | Some key \<Rightarrow>
          if length key \<noteq> masterKeyLen then
            Inl (New ErrCredentialInvalid (''master key must be '' @ itoa (int masterKeyLen) @
              '' bytes after base64 decode, got '' @ itoa (int (length key))))
          else case cred_Load A C rd encPath key fs of
                 Inl err \<Rightarrow> Inl err
               | Inr creds \<Rightarrow> Inr \<lparr>cm_masterKey = key, cm_creds = creds, cm_envKey = envKey, cm_encPath = encPath\<rparr>)"

definition GetDeviceToken :: "CredManager \<Rightarrow> string" where
  "GetDeviceToken m = cr_DeviceToken (cm_creds m)"

definition CredManager_Reload ::
  "aead \<Rightarrow> codec \<Rightarrow> goerror option \<Rightarrow> (string \<rightharpoonup> bytes) \<Rightarrow> CredManager \<Rightarrow> goerror option \<times> CredManager" where
  "CredManager_Reload A C rd fs m =
     (case cred_Load A C rd (cm_encPath m) (cm_masterKey m) fs of
        Inl err \<Rightarrow> (Some err, m)
      | Inr creds \<Rightarrow> (None, m\<lparr>cm_creds := creds\<rparr>))"

definition CredManager_Save ::
  "aead \<Rightarrow> codec \<Rightarrow> save_io \<Rightarrow> Credentials \<Rightarrow> CredManager \<times> (string \<rightharpoonup> bytes) \<Rightarrow> goerror option \<times> CredManager \<times> (string \<rightharpoonup> bytes)" where
  "CredManager_Save A C io creds s =
     (case s of (m, fs) \<Rightarrow>
        (case cred_Save A C io (cm_encPath m) creds (cm_masterKey m) fs of
           (Some err, fs') \<Rightarrow> (Some err, m, fs')
         | (None, fs') \<Rightarrow> (None, m\<lparr>cm_creds := creds\<rparr>, fs')))"

section \<open>The tool that creates the file\<close>

text \<open>
  \<open>main\<close> of \<^verbatim>\<open>init-credential\<close>: the message it exits with, or the master key it prints and the file
  system. Its struct has the token only; the two optional fields of the agent's struct are left out
  of the JSON text when empty, so that both are the same text.
\<close>

record init_io =
  ii_key :: "goerror + bytes"
  ii_nonce :: "goerror + bytes"
  ii_mkdir :: "goerror option"
  ii_write :: "(goerror \<times> bytes option) option"

definition init_encrypt :: "aead \<Rightarrow> goerror + bytes \<Rightarrow> bytes \<Rightarrow> bytes \<Rightarrow> goerror + bytes" where
  "init_encrypt A rnd masterKey plaintext =
     (case ae_cipher A masterKey of
        Some err \<Rightarrow> Inl err
      | None \<Rightarrow>
     (case ae_gcm A masterKey of
        Some err \<Rightarrow> Inl err
      | None \<Rightarrow>
     (case rnd of Inl err \<Rightarrow> Inl err | Inr nonce \<Rightarrow> Inr (nonce @ ae_seal A masterKey nonce plaintext))))"

definition init_main :: "aead \<Rightarrow> codec \<Rightarrow> init_io \<Rightarrow> string \<Rightarrow> string \<Rightarrow> (string \<rightharpoonup> bytes) \<Rightarrow> (string + string) \<times> (string \<rightharpoonup> bytes)" where
  "init_main A C io token outPath fs =
     (if token = [] then (Inl ''token is required'', fs)
      else case ii_key io of
        Inl err \<Rightarrow> (Inl (''gen master key: '' @ Error err), fs)
      | Inr masterKey \<Rightarrow>
     (case init_encrypt A (ii_nonce io) masterKey (bytes_of token) of
        Inl err \<Rightarrow> (Inl (''encrypt token: '' @ Error err), fs)
      | Inr encToken \<Rightarrow>
     (case cd_marshal C \<lparr>ef_DeviceToken = encToken, ef_MTLSCert = [], ef_MTLSKey = []\<rparr> of
        Inl err \<Rightarrow> (Inl (''marshal: '' @ Error err), fs)
      | Inr data \<Rightarrow>
     (case ii_mkdir io of
        Some err \<Rightarrow> (Inl (''mkdir: '' @ Error err), fs)
      | None \<Rightarrow>
     (case ii_write io of
        Some (err, left) \<Rightarrow> (Inl (''write: '' @ Error err), fs(outPath := left))
      | None \<Rightarrow> (Inr (b64_encode masterKey), fs(outPath \<mapsto> data)))))))"

section \<open>Lemmas\<close>

lemma aead_okD:
  assumes "aead_ok A" "length key = 32" "length nonce = 12"
  shows "ae_cipher A key = None" "ae_gcm A key = None" "ae_open A key nonce (ae_seal A key nonce pt) = Inr pt"
  using assms unfolding aead_ok_def by blast+

lemma decrypt_sealed:
  assumes "aead_ok A" "length key = 32" "length nonce = 12"
  shows "Decrypt A key (nonce @ ae_seal A key nonce pt) = Inr pt"
  using assms aead_okD [OF assms] by (simp add: Decrypt_def masterKeyLen_def nonceSize_def Let_def)

lemma field_roundtrip:
  assumes "aead_ok A" "length key = 32" "rnd = Inr nonce" "length nonce = 12" "encrypt_field A rnd key s = Inr c"
  shows "decrypt_field A key c = Inr s"
proof (cases "s = []")
  case True
  with assms(5) show ?thesis by (simp add: encrypt_field_def decrypt_field_def)
next
  case False
  then have c: "c = nonce @ ae_seal A key nonce (bytes_of s)"
    using assms aead_okD [OF assms(1,2,4)] by (simp add: encrypt_field_def Encrypt_def masterKeyLen_def)
  then show ?thesis using decrypt_sealed [OF assms(1,2,4)] assms(4) by (simp add: decrypt_field_def)
qed

lemma Decrypt_code: "Decrypt A key c = Inl e \<Longrightarrow> CodeFromErr e = Some ErrCredentialInvalid"
  by (auto simp: Decrypt_def key_error_def Let_def split: if_splits option.splits sum.splits)

lemma decrypt_field_code: "decrypt_field A key c = Inl e \<Longrightarrow> CodeFromErr e = Some ErrCredentialInvalid"
  by (auto simp: decrypt_field_def split: if_splits sum.splits dest: Decrypt_code)

lemma cred_Load_code:
  "cred_Load A C rd path key fs = Inl e \<Longrightarrow>
     CodeFromErr e = Some ErrCredentialMissing \<or> CodeFromErr e = Some ErrCredentialInvalid"
  by (auto simp: cred_Load_def split: sum.splits dest: decrypt_field_code)

section \<open>Properties\<close>

text \<open>
  What \<open>Save\<close> has written \<open>Load\<close> reads back with the same key: all three credentials, the empty ones
  included.
\<close>

theorem credentials_roundtrip:
  assumes "aead_ok A" "codec_ok C" "length key = 32"
    "si_nonces io = (Inr n1, Inr n2, Inr n3)" "length n1 = 12" "length n2 = 12" "length n3 = 12"
    "cred_Save A C io path creds key fs = (None, fs')"
  shows "cred_Load A C None path key fs' = Inr creds"
proof -
  from assms(4,8) obtain t c k data where
    f: "encrypt_field A (Inr n1) key (cr_DeviceToken creds) = Inr t" "encrypt_field A (Inr n2) key (cr_MTLSCert creds) = Inr c"
      "encrypt_field A (Inr n3) key (cr_MTLSKey creds) = Inr k"
    and m: "cd_marshal C \<lparr>ef_DeviceToken = t, ef_MTLSCert = c, ef_MTLSKey = k\<rparr> = Inr data"
    and fs': "fs' = fs(path \<mapsto> data)"
    by (auto simp: cred_Save_def split: option.splits sum.splits)
  have "cd_unmarshal C data = Inr \<lparr>ef_DeviceToken = t, ef_MTLSCert = c, ef_MTLSKey = k\<rparr>"
    using assms(2) m by (simp add: codec_ok_def)
  moreover note field_roundtrip [OF assms(1,3) refl assms(5) f(1)] field_roundtrip [OF assms(1,3) refl assms(6) f(2)]
    field_roundtrip [OF assms(1,3) refl assms(7) f(3)]
  ultimately show ?thesis by (simp add: cred_Load_def read_file_def fs')
qed

lemma b64_encode_empty: "b64_encode k = [] \<longleftrightarrow> k = []"
  by (cases k rule: b64_encode.cases) (auto simp: Let_def)

text \<open>
  The tool and the agent fit together: with the key it printed in the environment, the agent opens the
  file the tool wrote and has the token it was given, and no certificate.
\<close>

theorem init_credential_opens:
  assumes "aead_ok A" "codec_ok C" "ii_key io = Inr key" "length key = 32" "ii_nonce io = Inr nonce" "length nonce = 12"
    "init_main A C io token path fs = (Inr printed, fs')" "getenv envKey = printed"
  shows "\<exists>m. NewCredManager A C getenv None envKey path fs' = Inr m \<and> GetDeviceToken m = token \<and>
    cm_creds m = \<lparr>cr_DeviceToken = token, cr_MTLSCert = [], cr_MTLSKey = []\<rparr>"
proof -
  note ok = aead_okD [OF assms(1,4,6)]
  from assms(3,5,7) ok obtain data where t: "token \<noteq> []"
    and m: "cd_marshal C \<lparr>ef_DeviceToken = nonce @ ae_seal A key nonce (bytes_of token), ef_MTLSCert = [], ef_MTLSKey = []\<rparr> = Inr data"
    and fs': "fs' = fs(path \<mapsto> data)" "printed = b64_encode key"
    by (auto simp: init_main_def init_encrypt_def split: option.splits sum.splits if_splits)
  have "cd_unmarshal C data = Inr \<lparr>ef_DeviceToken = nonce @ ae_seal A key nonce (bytes_of token), ef_MTLSCert = [], ef_MTLSKey = []\<rparr>"
    using assms(2) m by (simp add: codec_ok_def)
  then have l: "cred_Load A C None path key fs' = Inr \<lparr>cr_DeviceToken = token, cr_MTLSCert = [], cr_MTLSKey = []\<rparr>"
    using decrypt_sealed [OF assms(1,4,6)] assms(6) by (simp add: cred_Load_def read_file_def fs' decrypt_field_def)
  have "b64_encode key \<noteq> []" using assms(4) by (auto simp: b64_encode_empty)
  then show ?thesis using l assms(4,8)
    by (simp add: NewCredManager_def fs'(2) b64_roundtrip masterKeyLen_def GetDeviceToken_def)
qed

text \<open>
  A failure never touches the credentials in memory, and says what is wrong: reloading fails with the
  missing or the invalid code, and after a successful reload or save the credentials in memory are those
  of the file, or those that were given.
\<close>

theorem credential_failures_keep_memory:
  "(case CredManager_Reload A C rd fs m of
      (Some err, m') \<Rightarrow> m' = m \<and> (CodeFromErr err = Some ErrCredentialMissing \<or> CodeFromErr err = Some ErrCredentialInvalid)
    | (None, m') \<Rightarrow> cred_Load A C rd (cm_encPath m) (cm_masterKey m) fs = Inr (cm_creds m')) \<and>
   (case CredManager_Save A C io creds (m, fs) of
      (Some err, m', fs') \<Rightarrow> m' = m \<and> (fs' = fs \<or> (\<exists>e left. si_write io = Some (e, left) \<and> fs' = fs(cm_encPath m := left)))
    | (None, m', fs') \<Rightarrow> cm_creds m' = creds)"
  using cred_Load_code [of A C rd "cm_encPath m" "cm_masterKey m" fs]
  by (auto simp: CredManager_Reload_def CredManager_Save_def cred_Save_def split: sum.splits prod.splits option.splits)

section \<open>Witnesses\<close>

text \<open>A transparent cipher and a codec that keeps the one record it is asked about satisfy the laws.\<close>

definition demo_aead :: aead where
  "demo_aead = \<lparr>ae_cipher = (\<lambda>_. None), ae_gcm = (\<lambda>_. None), ae_seal = (\<lambda>_ _ pt. pt), ae_open = (\<lambda>_ _ ct. Inr ct)\<rparr>"

definition demo_fields :: encryptedFields where
  "demo_fields = \<lparr>ef_DeviceToken = replicate 12 7 @ bytes_of ''tok'', ef_MTLSCert = [], ef_MTLSKey = []\<rparr>"

definition demo_codec :: codec where
  "demo_codec = \<lparr>cd_marshal = (\<lambda>e. if e = demo_fields then Inr [1] else Inl (PlainError ''unsupported'')),
     cd_unmarshal = (\<lambda>_. Inr demo_fields)\<rparr>"

lemma demo_laws: "aead_ok demo_aead" "codec_ok demo_codec"
  by (simp_all add: aead_ok_def demo_aead_def codec_ok_def demo_codec_def split: if_splits)

theorem credentials_roundtrip_witness:
  "cred_Load demo_aead demo_codec None ''f'' (replicate 32 5)
     (snd (cred_Save demo_aead demo_codec \<lparr>si_mkdir = None, si_nonces = (Inr (replicate 12 7), Inr (replicate 12 8), Inr (replicate 12 9)),
        si_write = None\<rparr> ''f'' \<lparr>cr_DeviceToken = ''tok'', cr_MTLSCert = [], cr_MTLSKey = []\<rparr> (replicate 32 5) Map.empty)) =
   Inr \<lparr>cr_DeviceToken = ''tok'', cr_MTLSCert = [], cr_MTLSKey = []\<rparr>"
proof (rule credentials_roundtrip [OF demo_laws, where ?n1.0 = "replicate 12 7" and ?n2.0 = "replicate 12 8" and ?n3.0 = "replicate 12 9"])
  show "cred_Save demo_aead demo_codec \<lparr>si_mkdir = None, si_nonces = (Inr (replicate 12 7), Inr (replicate 12 8), Inr (replicate 12 9)),
        si_write = None\<rparr> ''f'' \<lparr>cr_DeviceToken = ''tok'', cr_MTLSCert = [], cr_MTLSKey = []\<rparr> (replicate 32 5) Map.empty =
      (None, snd (cred_Save demo_aead demo_codec \<lparr>si_mkdir = None, si_nonces = (Inr (replicate 12 7), Inr (replicate 12 8), Inr (replicate 12 9)),
        si_write = None\<rparr> ''f'' \<lparr>cr_DeviceToken = ''tok'', cr_MTLSCert = [], cr_MTLSKey = []\<rparr> (replicate 32 5) Map.empty))"
    by (simp add: cred_Save_def encrypt_field_def Encrypt_def masterKeyLen_def demo_aead_def demo_codec_def demo_fields_def)
qed simp_all

theorem init_credential_opens_witness:
  "\<exists>m. NewCredManager demo_aead demo_codec (\<lambda>_. b64_encode (replicate 32 5)) None ''K'' ''f'' [''f'' \<mapsto> [1]] = Inr m \<and>
     GetDeviceToken m = ''tok''"
proof -
  have "init_main demo_aead demo_codec \<lparr>ii_key = Inr (replicate 32 5), ii_nonce = Inr (replicate 12 7), ii_mkdir = None,
      ii_write = None\<rparr> ''tok'' ''f'' Map.empty = (Inr (b64_encode (replicate 32 5)), [''f'' \<mapsto> [1]])"
    by (simp add: init_main_def init_encrypt_def demo_aead_def demo_codec_def demo_fields_def)
  from init_credential_opens [OF demo_laws _ _ _ _ this, of "replicate 32 5" "replicate 12 7" "\<lambda>_. b64_encode (replicate 32 5)" "''K''"]
  show ?thesis by auto
qed

end
