(* ===== verification/Wire.thy ===== *)
theory Wire
  imports GoTime JsonSpace Credential Agent
begin

text \<open>
  The messages of \<^verbatim>\<open>src/internal/domain/domain.go\<close> as JSON texts: the names, the \<open>omitempty\<close> marks and the
  \<open>MarshalJSON\<close> and \<open>UnmarshalJSON\<close> methods of its types, the structures the dispatcher and the handshake
  decode, and the envelope as \<open>Read\<close> and \<open>Write\<close> of \<^verbatim>\<open>cloudlink/client.go\<close> exchange it. The
  definitions take the format of instants as a parameter \<open>tf\<close>; the theorems are about \<open>rfc_tf\<close>, the format
  of \<open>GoTime\<close> in some zone.
\<close>

section \<open>Fields\<close>

text \<open>
  The format of an instant, between the quotes: \<open>None\<close> when the year is out of range, or when the text
  is no instant. What it writes it reads back, and it contains nothing that needs an escape.
\<close>

record timefmt =
  tf_format :: "gotime \<Rightarrow> string option"
  tf_parse :: "string \<Rightarrow> gotime option"

definition timefmt_ok :: "timefmt \<Rightarrow> bool" where
  "timefmt_ok tf \<longleftrightarrow> (\<forall>t s. tf_format tf t = Some s \<longrightarrow> tf_parse tf s = Some t \<and> wf_raw s)"

text \<open>
  A \<open>time.Time\<close> carries its zone with it: \<open>off\<close> gives for each instant the offset, in minutes, of the zone it is
  written in, so that a text may show instants of several zones.
\<close>

definition rfc_tf :: "(gotime \<Rightarrow> int) \<Rightarrow> timefmt" where
  "rfc_tf off = \<lparr>tf_format = (\<lambda>t. rfc3339_format (off t) t), tf_parse = rfc3339_parse\<rparr>"

lemma rfc_tf_ok: "\<forall>t. \<bar>off t\<bar> < 1440 \<Longrightarrow> timefmt_ok (rfc_tf off)"
  using rfc3339_roundtrip rfc3339_wf by (auto simp: timefmt_ok_def rfc_tf_def)

definition time_ok :: "timefmt \<Rightarrow> gotime \<Rightarrow> bool" where
  "time_ok tf t \<longleftrightarrow> tf_format tf t \<noteq> None"

definition enc_time :: "timefmt \<Rightarrow> gotime \<Rightarrow> json" where
  "enc_time tf t = (case tf_format tf t of None \<Rightarrow> JNull | Some s \<Rightarrow> JStr s)"

fun dec_time :: "timefmt \<Rightarrow> gotime leaf" where
  "dec_time tf (JStr r) v = (case tf_parse tf r of None \<Rightarrow> (Abort, v) | Some t \<Rightarrow> (Fine, t))"
| "dec_time tf JNull v = (Fine, v)"
| "dec_time tf _ v = (Abort, v)"

text \<open>
  The string types. Their methods hand the text to \<open>json.Unmarshal\<close> into a string, which \<open>null\<close> leaves
  empty, and pass an error on.
\<close>

definition unmarshal_string_type :: "string leaf" where
  "unmarshal_string_type j v = (case dec_string j [] of (st, s) \<Rightarrow> if st = Fine then (Fine, s) else (Abort, v))"

definition Protocol_UnmarshalJSON :: "Protocol leaf" where
  "Protocol_UnmarshalJSON = unmarshal_string_type"

definition DeviceStatus_UnmarshalJSON :: "DeviceStatus leaf" where
  "DeviceStatus_UnmarshalJSON = unmarshal_string_type"

definition TaskStatus_UnmarshalJSON :: "TaskStatus leaf" where
  "TaskStatus_UnmarshalJSON = unmarshal_string_type"

definition NetClass_UnmarshalJSON :: "NetClass leaf" where
  "NetClass_UnmarshalJSON = unmarshal_string_type"

definition Protocol_MarshalJSON :: "Protocol \<Rightarrow> json" where
  "Protocol_MarshalJSON p = enc_string p"

definition DeviceStatus_MarshalJSON :: "DeviceStatus \<Rightarrow> json" where
  "DeviceStatus_MarshalJSON s = enc_string s"

definition TaskStatus_MarshalJSON :: "TaskStatus \<Rightarrow> json" where
  "TaskStatus_MarshalJSON s = enc_string s"

definition NetClass_MarshalJSON :: "NetClass \<Rightarrow> json" where
  "NetClass_MarshalJSON c = enc_string c"

text \<open>\<open>[]byte\<close>: base64 in a string, or an array of numbers.\<close>

definition enc_bytes :: "bytes \<Rightarrow> json" where
  "enc_bytes b = JStr (json_escape (b64_encode b))"

fun dec_byte :: "json \<Rightarrow> byte \<Rightarrow> status \<times> byte" where
  "dec_byte (JNum l) v =
     (case atoi l of None \<Rightarrow> (Saved, v) | Some i \<Rightarrow> if 0 \<le> i \<and> i < 256 \<and> hd l \<noteq> CHR ''-'' then (Fine, of_int i) else (Saved, v))"
| "dec_byte JNull v = (Fine, v)"
| "dec_byte _ v = (Saved, v)"

fun dec_byte_list :: "json list \<Rightarrow> bytes \<Rightarrow> status \<times> bytes" where
  "dec_byte_list [] old = (Fine, [])"
| "dec_byte_list (j # js) old =
     (case dec_byte j (case old of [] \<Rightarrow> 0 | b # _ \<Rightarrow> b) of
        (st, x) \<Rightarrow> (case dec_byte_list js (tl old) of (st2, xs) \<Rightarrow> (worse st st2, x # xs)))"

fun dec_bytes :: "bytes leaf" where
  "dec_bytes (JStr r) v = (case b64_decode (json_unquote r) of None \<Rightarrow> (Saved, v) | Some b \<Rightarrow> (Fine, b))"
| "dec_bytes (JArr js) v = dec_byte_list js v"
| "dec_bytes JNull v = (Fine, [])"
| "dec_bytes _ v = (Saved, v)"

section \<open>The structures the agent reads\<close>

definition PrintParams_fields :: "PrintParams fields" where
  "PrintParams_fields =
     [(''copies'', fld pp_Copies pp_Copies_update dec_int),
      (''orientation'', fld pp_Orientation pp_Orientation_update dec_string),
      (''extra'', fld pp_Extra pp_Extra_update dec_string_map)]"

definition PrintTask_fields :: "timefmt \<Rightarrow> PrintTask fields" where
  "PrintTask_fields tf =
     [(''task_id'', fld t_TaskID t_TaskID_update dec_string),
      (''device_id'', fld t_DeviceID t_DeviceID_update dec_string),
      (''document_ref'', fld t_DocumentRef t_DocumentRef_update dec_string),
      (''checksum'', fld t_Checksum t_Checksum_update dec_string),
      (''params'', fld t_Params t_Params_update (dec_struct PrintParams_fields)),
      (''status'', fld t_Status t_Status_update TaskStatus_UnmarshalJSON),
      (''retry_count'', fld t_RetryCount t_RetryCount_update dec_int),
      (''trace_id'', fld t_TraceID t_TraceID_update dec_string),
      (''received_at'', fld t_ReceivedAt t_ReceivedAt_update (dec_time tf)),
      (''started_at'', fld t_StartedAt t_StartedAt_update (dec_time tf)),
      (''finished_at'', fld t_FinishedAt t_FinishedAt_update (dec_time tf)),
      (''next_retry_at'', fld t_NextRetryAt t_NextRetryAt_update (dec_time tf)),
      (''error_code'', fld t_ErrorCode t_ErrorCode_update dec_string),
      (''error_msg'', fld t_ErrorMsg t_ErrorMsg_update dec_string),
      (''seq_no'', fld t_SeqNo t_SeqNo_update dec_int),
      (''content'', fld t_Content t_Content_update dec_bytes)]"

definition Device_fields :: "timefmt \<Rightarrow> Device fields" where
  "Device_fields tf =
     [(''device_id'', fld d_DeviceID d_DeviceID_update dec_string),
      (''name'', fld d_Name d_Name_update dec_string),
      (''ip'', fld d_IP d_IP_update dec_string),
      (''hostname'', fld d_Hostname d_Hostname_update dec_string),
      (''model'', fld d_Model d_Model_update dec_string),
      (''protocol'', fld d_Protocol d_Protocol_update Protocol_UnmarshalJSON),
      (''status'', fld d_Status d_Status_update DeviceStatus_UnmarshalJSON),
      (''factory'', fld d_Factory d_Factory_update dec_string),
      (''port'', fld d_Port d_Port_update dec_int),
      (''last_probe_at'', fld d_LastProbeAt d_LastProbeAt_update (dec_time tf)),
      (''created_at'', fld d_CreatedAt d_CreatedAt_update (dec_time tf)),
      (''updated_at'', fld d_UpdatedAt d_UpdatedAt_update (dec_time tf))]"

text \<open>The structures declared in the handlers, a single field as its value.\<close>

definition remove_fields :: "string fields" where
  "remove_fields = [(''device_id'', dec_string)]"

definition control_fields :: "control fields" where
  "control_fields =
     [(''action'', fld ct_Action ct_Action_update dec_string),
      (''device_id'', fld ct_DeviceID ct_DeviceID_update dec_string),
      (''task_id'', fld ct_TaskID ct_TaskID_update dec_string)]"

definition config_fields :: "string fields" where
  "config_fields = [(''endpoint'', dec_string)]"

definition handshake_fields :: "handshakePayload fields" where
  "handshake_fields =
     [(''code'', fld hs_Code hs_Code_update dec_int),
      (''reason'', fld hs_Reason hs_Reason_update dec_string),
      (''status'', fld hs_Status hs_Status_update dec_string),
      (''detail'', fld hs_Detail hs_Detail_update dec_string)]"

text \<open>
  The envelope. A \<open>RawMessage\<close> takes the text of the value as it stands; the model keeps its compact
  text, which decodes to the same value.
\<close>

definition dec_raw :: "Payload leaf" where
  "dec_raw j v = (Fine, PRaw (bytes_of (json_text j)))"

definition Envelope_fields :: "timefmt \<Rightarrow> Envelope fields" where
  "Envelope_fields tf =
     [(''type'', fld e_Type e_Type_update dec_string),
      (''trace_id'', fld e_TraceID e_TraceID_update dec_string),
      (''ts'', fld e_TS e_TS_update (dec_time tf)),
      (''payload'', fld e_Payload e_Payload_update dec_raw)]"

definition zero_Envelope :: Envelope where
  "zero_Envelope = \<lparr>e_Type = [], e_TraceID = [], e_TS = 0, e_Payload = PRaw []\<rparr>"

section \<open>The structures the agent writes\<close>

definition HeartbeatPayload_json :: "timefmt \<Rightarrow> HeartbeatPayload \<Rightarrow> json" where
  "HeartbeatPayload_json tf p = JObj (
     member ''agent_id'' False (enc_string (hp_AgentID p)) @
     member ''version'' False (enc_string (hp_Version p)) @
     member ''online_devices'' False (enc_int (hp_OnlineDevices p)) @
     member ''pending_tasks'' False (enc_int (hp_PendingTasks p)) @
     member ''cloud_endpoint'' False (enc_string (hp_CloudEndpoint p)) @
     member ''net_class'' False (NetClass_MarshalJSON (hp_NetClass p)) @
     member ''timestamp'' False (enc_time tf (hp_Timestamp p)) @ [])"

definition TaskResultPayload_json :: "timefmt \<Rightarrow> TaskResultPayload \<Rightarrow> json" where
  "TaskResultPayload_json tf p = JObj (
     member ''task_id'' False (enc_string (tr_TaskID p)) @
     member ''device_id'' False (enc_string (tr_DeviceID p)) @
     member ''status'' False (TaskStatus_MarshalJSON (tr_Status p)) @
     member ''retry_count'' False (enc_int (tr_RetryCount p)) @
     member ''error_code'' (tr_ErrorCode p = []) (enc_string (tr_ErrorCode p)) @
     member ''error_msg'' (tr_ErrorMsg p = []) (enc_string (tr_ErrorMsg p)) @
     member ''finished_at'' False (enc_time tf (tr_FinishedAt p)) @ [])"

definition DeviceStatusPayload_json :: "timefmt \<Rightarrow> DeviceStatusPayload \<Rightarrow> json" where
  "DeviceStatusPayload_json tf p = JObj (
     member ''device_id'' False (enc_string (ds_DeviceID p)) @
     member ''status'' False (DeviceStatus_MarshalJSON (ds_Status p)) @
     member ''protocol'' (ds_Protocol p = []) (Protocol_MarshalJSON (ds_Protocol p)) @
     member ''last_probe_at'' False (enc_time tf (ds_LastProbeAt p)) @ [])"

definition NetEventPayload_json :: "timefmt \<Rightarrow> NetEventPayload \<Rightarrow> json" where
  "NetEventPayload_json tf p = JObj (
     member ''class'' False (NetClass_MarshalJSON (ne_Class p)) @
     member ''endpoint'' (ne_Endpoint p = []) (enc_string (ne_Endpoint p)) @
     member ''detail'' (ne_Detail p = []) (enc_string (ne_Detail p)) @
     member ''ts'' False (enc_time tf (ne_TS p)) @ [])"

definition ConfigAckPayload_json :: "ConfigAckPayload \<Rightarrow> json" where
  "ConfigAckPayload_json p = JObj (
     member ''applied'' False (JBool (ca_Applied p)) @
     member ''reason'' (ca_Reason p = []) (enc_string (ca_Reason p)) @
     member ''field'' (ca_Field p = []) (enc_string (ca_Field p)) @ [])"

definition TaskAckPayload_json :: "TaskAckPayload \<Rightarrow> json" where
  "TaskAckPayload_json p = JObj (
     member ''task_id'' False (enc_string (ta_TaskID p)) @
     member ''accepted'' False (JBool (ta_Accepted p)) @
     member ''reason'' (ta_Reason p = []) (enc_string (ta_Reason p)) @ [])"

text \<open>The payload of a message of the agent; it never sends on one it has received.\<close>

fun payload_json :: "timefmt \<Rightarrow> Payload \<Rightarrow> json option" where
  "payload_json tf (PHeartbeat p) = (if time_ok tf (hp_Timestamp p) then Some (HeartbeatPayload_json tf p) else None)"
| "payload_json tf (PTaskResult p) = (if time_ok tf (tr_FinishedAt p) then Some (TaskResultPayload_json tf p) else None)"
| "payload_json tf (PDeviceStatus p) = (if time_ok tf (ds_LastProbeAt p) then Some (DeviceStatusPayload_json tf p) else None)"
| "payload_json tf (PNetEvent p) = (if time_ok tf (ne_TS p) then Some (NetEventPayload_json tf p) else None)"
| "payload_json tf (PConfigAck p) = Some (ConfigAckPayload_json p)"
| "payload_json tf (PTaskAck p) = Some (TaskAckPayload_json p)"
| "payload_json tf (PRaw b) = None"

definition Envelope_json :: "timefmt \<Rightarrow> Envelope \<Rightarrow> json \<Rightarrow> json" where
  "Envelope_json tf e j = JObj (
     member ''type'' False (enc_string (e_Type e)) @
     member ''trace_id'' (e_TraceID e = []) (enc_string (e_TraceID e)) @
     member ''ts'' False (enc_time tf (e_TS e)) @
     member ''payload'' False j @ [])"

text \<open>What the encoder of \<open>Write\<close> produces, a newline at the end; \<open>None\<close> is its error.\<close>

definition encode_envelope :: "timefmt \<Rightarrow> Envelope \<Rightarrow> string option" where
  "encode_envelope tf e =
     (case payload_json tf (e_Payload e) of
        None \<Rightarrow> None
      | Some j \<Rightarrow> if time_ok tf (e_TS e) then Some (json_text (Envelope_json tf e j) @ [CHR 0x0A]) else None)"

text \<open>What the decoder of \<open>Read\<close> makes of a message: it takes the first value and ignores what follows.\<close>

definition decode_envelope :: "timefmt \<Rightarrow> string \<Rightarrow> ws_read" where
  "decode_envelope tf s =
     (if jws s = [] then ReadEOF
      else case jvalue (Suc (2 * length s)) maxNestingDepth s of
             None \<Rightarrow> ReadBad (PlainError ''syntax error'')
           | Some (j, _) \<Rightarrow>
               (case dec_struct (Envelope_fields tf) j zero_Envelope of
                  (st, e) \<Rightarrow> if st = Fine then ReadMsg e else ReadBad (PlainError ''cannot unmarshal'')))"

text \<open>
  What \<open>Read\<close> makes of a text message. The web socket package bounds the messages it reads: its \<open>Reader\<close> delivers the
  first \<open>limit\<close> bytes of a message and then an error (\<open>limit\<close> is 32768 unless \<open>SetReadLimit\<close> is called, which the
  source never does). The decoder stops reading as soon as it has a whole value.
\<close>

definition receive_envelope :: "nat \<Rightarrow> timefmt \<Rightarrow> string \<Rightarrow> ws_read" where
  "receive_envelope limit tf s =
     (if length s \<le> limit then decode_envelope tf s
      else case decode_envelope tf (take limit s) of
             ReadMsg e \<Rightarrow> ReadMsg e
           | _ \<Rightarrow> ReadBad (PlainError ''read limited''))"

section \<open>The decoders of the handlers\<close>

definition payload_text :: "Payload \<Rightarrow> string" where
  "payload_text p = (case p of PRaw b \<Rightarrow> string_of b | _ \<Rightarrow> [])"

definition unmarshal :: "'a fields \<Rightarrow> 'a \<Rightarrow> Payload \<Rightarrow> goerror + 'a" where
  "unmarshal fs zero p =
     (case json_unmarshal fs (payload_text p) zero of (err, v) \<Rightarrow> if err then Inl (PlainError ''cannot unmarshal'') else Inr v)"

definition wire_un :: "timefmt \<Rightarrow> decoders" where
  "wire_un tf = \<lparr>un_task = unmarshal (PrintTask_fields tf) zero_PrintTask, un_device = unmarshal (Device_fields tf) zero_Device,
     un_remove = unmarshal remove_fields [], un_control = unmarshal control_fields \<lparr>ct_Action = [], ct_DeviceID = [], ct_TaskID = []\<rparr>,
     un_config = unmarshal config_fields []\<rparr>"

definition wire_handshake :: "Payload \<Rightarrow> handshakePayload" where
  "wire_handshake p =
     snd (json_unmarshal handshake_fields (payload_text p) \<lparr>hs_Code = 0, hs_Reason = [], hs_Status = [], hs_Detail = []\<rparr>)"

section \<open>Every field is read back\<close>

lemma unquote_plain: "\<forall>c \<in> set s. bv c < 0x80 \<and> c \<noteq> CHR 0x5C \<Longrightarrow> json_unquote s = s"
  by (induction s) auto

lemma utf8_valid_ascii: "\<forall>c \<in> set s. bv c < 0x80 \<Longrightarrow> utf8_valid s"
  by (induction s) auto

lemma unmarshal_string_type_ok: "leaf_codec enc_string unmarshal_string_type utf8_valid"
  by unfold_locales (simp_all add: unmarshal_string_type_def str.dec_enc str.enc_wf)

interpretation protocol: leaf_codec Protocol_MarshalJSON Protocol_UnmarshalJSON utf8_valid
  unfolding Protocol_MarshalJSON_def [abs_def] Protocol_UnmarshalJSON_def by (rule unmarshal_string_type_ok)

interpretation dstatus: leaf_codec DeviceStatus_MarshalJSON DeviceStatus_UnmarshalJSON utf8_valid
  unfolding DeviceStatus_MarshalJSON_def [abs_def] DeviceStatus_UnmarshalJSON_def by (rule unmarshal_string_type_ok)

interpretation tstatus: leaf_codec TaskStatus_MarshalJSON TaskStatus_UnmarshalJSON utf8_valid
  unfolding TaskStatus_MarshalJSON_def [abs_def] TaskStatus_UnmarshalJSON_def by (rule unmarshal_string_type_ok)

interpretation netclass: leaf_codec NetClass_MarshalJSON NetClass_UnmarshalJSON utf8_valid
  unfolding NetClass_MarshalJSON_def [abs_def] NetClass_UnmarshalJSON_def by (rule unmarshal_string_type_ok)

lemma b64_char_ascii: "n < 64 \<Longrightarrow> bv (b64_char n) < 0x80"
proof -
  have "\<forall>c \<in> set b64_alphabet. bv c < 0x80" "length b64_alphabet = 64" by (simp_all add: b64_alphabet_def)
  then show "n < 64 \<Longrightarrow> bv (b64_char n) < 0x80" unfolding b64_char_def by simp
qed

lemma b64_encode_ascii: "\<forall>c \<in> set (b64_encode bs). bv c < 0x80"
proof (induction bs rule: b64_encode.induct)
  case (2 a)
  then show ?case using bytes_of_three(4) [of a 0 0] by (auto simp: Let_def intro!: b64_char_ascii)
next
  case (3 a b)
  then show ?case using bytes_of_three(4) [of a b 0] by (auto simp: Let_def intro!: b64_char_ascii)
next
  case (4 a b d r)
  then show ?case using bytes_of_three(4) [of a b d] by (auto simp: Let_def intro!: b64_char_ascii)
qed simp

interpretation bytes: leaf_codec enc_bytes dec_bytes "\<lambda>_. True"
  by unfold_locales
    (simp_all add: enc_bytes_def json_escape_wf json_unquote_escape utf8_valid_ascii b64_encode_ascii b64_roundtrip)

lemma time_codec: "timefmt_ok tf \<Longrightarrow> leaf_codec (enc_time tf) (dec_time tf) (time_ok tf)"
  by unfold_locales (auto simp: timefmt_ok_def time_ok_def enc_time_def)

section \<open>A task and a device as the cloud encodes them\<close>

text \<open>The entries of the map in the order \<open>ex\<close>, in which the text has them.\<close>

definition PrintParams_json :: "(string \<times> string) list \<Rightarrow> PrintParams \<Rightarrow> json" where
  "PrintParams_json ex p = JObj (
     member ''copies'' (pp_Copies p = 0) (enc_int (pp_Copies p)) @
     member ''orientation'' (pp_Orientation p = []) (enc_string (pp_Orientation p)) @
     member ''extra'' (ex = []) (enc_string_map ex) @ [])"

definition PrintTask_json :: "timefmt \<Rightarrow> (string \<times> string) list \<Rightarrow> PrintTask \<Rightarrow> json" where
  "PrintTask_json tf ex t = JObj (
     member ''task_id'' False (enc_string (t_TaskID t)) @
     member ''device_id'' False (enc_string (t_DeviceID t)) @
     member ''document_ref'' (t_DocumentRef t = []) (enc_string (t_DocumentRef t)) @
     member ''checksum'' (t_Checksum t = []) (enc_string (t_Checksum t)) @
     member ''params'' False (PrintParams_json ex (t_Params t)) @
     member ''status'' False (TaskStatus_MarshalJSON (t_Status t)) @
     member ''retry_count'' False (enc_int (t_RetryCount t)) @
     member ''trace_id'' (t_TraceID t = []) (enc_string (t_TraceID t)) @
     member ''received_at'' False (enc_time tf (t_ReceivedAt t)) @
     member ''started_at'' False (enc_time tf (t_StartedAt t)) @
     member ''finished_at'' False (enc_time tf (t_FinishedAt t)) @
     member ''next_retry_at'' False (enc_time tf (t_NextRetryAt t)) @
     member ''error_code'' (t_ErrorCode t = []) (enc_string (t_ErrorCode t)) @
     member ''error_msg'' (t_ErrorMsg t = []) (enc_string (t_ErrorMsg t)) @
     member ''seq_no'' (t_SeqNo t = 0) (enc_int (t_SeqNo t)) @
     member ''content'' (t_Content t = []) (enc_bytes (t_Content t)) @ [])"

definition Device_json :: "timefmt \<Rightarrow> Device \<Rightarrow> json" where
  "Device_json tf d = JObj (
     member ''device_id'' False (enc_string (d_DeviceID d)) @
     member ''name'' False (enc_string (d_Name d)) @
     member ''ip'' False (enc_string (d_IP d)) @
     member ''hostname'' (d_Hostname d = []) (enc_string (d_Hostname d)) @
     member ''model'' False (enc_string (d_Model d)) @
     member ''protocol'' False (Protocol_MarshalJSON (d_Protocol d)) @
     member ''status'' False (DeviceStatus_MarshalJSON (d_Status d)) @
     member ''factory'' False (enc_string (d_Factory d)) @
     member ''port'' (d_Port d = 0) (enc_int (d_Port d)) @
     member ''last_probe_at'' False (enc_time tf (d_LastProbeAt d)) @
     member ''created_at'' False (enc_time tf (d_CreatedAt d)) @
     member ''updated_at'' False (enc_time tf (d_UpdatedAt d)) @ [])"

text \<open>What can be sent without loss: text that is Utf-8, integers of 64 bits, instants of the calendar's range.\<close>

definition params_ok :: "(string \<times> string) list \<Rightarrow> PrintParams \<Rightarrow> bool" where
  "params_ok ex p \<longleftrightarrow> is_int64 (pp_Copies p) \<and> utf8_valid (pp_Orientation p) \<and>
     distinct (map fst ex) \<and> map_of ex = pp_Extra p \<and> (\<forall>(k, x) \<in> set ex. utf8_valid k \<and> utf8_valid x)"

definition task_ok :: "timefmt \<Rightarrow> (string \<times> string) list \<Rightarrow> PrintTask \<Rightarrow> bool" where
  "task_ok tf ex t \<longleftrightarrow> params_ok ex (t_Params t) \<and> is_int64 (t_RetryCount t) \<and> is_int64 (t_SeqNo t) \<and>
     list_all utf8_valid [t_TaskID t, t_DeviceID t, t_DocumentRef t, t_Checksum t, t_Status t, t_TraceID t, t_ErrorCode t, t_ErrorMsg t] \<and>
     list_all (time_ok tf) [t_ReceivedAt t, t_StartedAt t, t_FinishedAt t, t_NextRetryAt t]"

definition device_ok :: "timefmt \<Rightarrow> Device \<Rightarrow> bool" where
  "device_ok tf d \<longleftrightarrow> is_int64 (d_Port d) \<and>
     list_all utf8_valid [d_DeviceID d, d_Name d, d_IP d, d_Hostname d, d_Model d, d_Protocol d, d_Status d, d_Factory d] \<and>
     list_all (time_ok tf) [d_LastProbeAt d, d_CreatedAt d, d_UpdatedAt d]"

lemmas find_defs = find_field_def PrintParams_fields_def PrintTask_fields_def Device_fields_def Envelope_fields_def

lemma params_find:
  "find_field PrintParams_fields ''copies'' = Some (fld pp_Copies pp_Copies_update dec_int)"
  "find_field PrintParams_fields ''orientation'' = Some (fld pp_Orientation pp_Orientation_update dec_string)"
  "find_field PrintParams_fields ''extra'' = Some (fld pp_Extra pp_Extra_update dec_string_map)"
  by (simp_all add: find_defs)

lemma map_of_rev: "distinct (map fst es) \<Longrightarrow> map_of (rev es) = map_of es"
  by (subst map_of_inject_set) (simp_all add: rev_map [symmetric])

lemma params_decode:
  assumes "params_ok ex p"
  shows "dec_struct PrintParams_fields (PrintParams_json ex p) \<lparr>pp_Copies = 0, pp_Orientation = [], pp_Extra = Map.empty\<rparr> = (Fine, p)"
proof -
  have e: "dec_string_map (enc_string_map ex) Map.empty = (Fine, pp_Extra p)"
    using assms dec_entries_enc [of ex Map.empty] by (simp add: enc_string_map_def params_ok_def map_of_rev)
  have "decode_members PrintParams_fields (member ''extra'' (ex = []) (enc_string_map ex) @ []) v = (Fine, v\<lparr>pp_Extra := pp_Extra p\<rparr>)"
    if "pp_Extra v = Map.empty" for v
    using that e assms by (auto simp: member_def params_find unquote_plain fld_def params_ok_def)
  then show ?thesis
    using assms unfolding PrintParams_json_def dec_struct.simps
    by (intro int.member_step [OF params_find(1)] str.member_step [OF params_find(2)]) (simp_all add: unquote_plain params_ok_def)
qed

lemma nested_step:
  assumes "find_field fs name = Some (fld get upd dec)" "json_unquote name = name" "dec j (get v) = (Fine, x)"
    "decode_members fs ms (upd (\<lambda>_. x) v) = R"
  shows "decode_members fs (member name False j @ ms) v = R"
  using assms by (simp add: member_def fld_def split: prod.splits)

lemma task_find:
  "find_field (PrintTask_fields tf) ''task_id'' = Some (fld t_TaskID t_TaskID_update dec_string)"
  "find_field (PrintTask_fields tf) ''device_id'' = Some (fld t_DeviceID t_DeviceID_update dec_string)"
  "find_field (PrintTask_fields tf) ''document_ref'' = Some (fld t_DocumentRef t_DocumentRef_update dec_string)"
  "find_field (PrintTask_fields tf) ''checksum'' = Some (fld t_Checksum t_Checksum_update dec_string)"
  "find_field (PrintTask_fields tf) ''params'' = Some (fld t_Params t_Params_update (dec_struct PrintParams_fields))"
  "find_field (PrintTask_fields tf) ''status'' = Some (fld t_Status t_Status_update TaskStatus_UnmarshalJSON)"
  "find_field (PrintTask_fields tf) ''retry_count'' = Some (fld t_RetryCount t_RetryCount_update dec_int)"
  "find_field (PrintTask_fields tf) ''trace_id'' = Some (fld t_TraceID t_TraceID_update dec_string)"
  "find_field (PrintTask_fields tf) ''received_at'' = Some (fld t_ReceivedAt t_ReceivedAt_update (dec_time tf))"
  "find_field (PrintTask_fields tf) ''started_at'' = Some (fld t_StartedAt t_StartedAt_update (dec_time tf))"
  "find_field (PrintTask_fields tf) ''finished_at'' = Some (fld t_FinishedAt t_FinishedAt_update (dec_time tf))"
  "find_field (PrintTask_fields tf) ''next_retry_at'' = Some (fld t_NextRetryAt t_NextRetryAt_update (dec_time tf))"
  "find_field (PrintTask_fields tf) ''error_code'' = Some (fld t_ErrorCode t_ErrorCode_update dec_string)"
  "find_field (PrintTask_fields tf) ''error_msg'' = Some (fld t_ErrorMsg t_ErrorMsg_update dec_string)"
  "find_field (PrintTask_fields tf) ''seq_no'' = Some (fld t_SeqNo t_SeqNo_update dec_int)"
  "find_field (PrintTask_fields tf) ''content'' = Some (fld t_Content t_Content_update dec_bytes)"
  by (simp_all add: find_defs)

lemma task_decode:
  assumes "task_ok tf ex t" "timefmt_ok tf"
  shows "dec_struct (PrintTask_fields tf) (PrintTask_json tf ex t) zero_PrintTask = (Fine, t)"
proof -
  note time = leaf_codec.member_step [OF time_codec [OF assms(2)]]
  note steps = str.member_step [OF task_find(1)] str.member_step [OF task_find(2)] str.member_step [OF task_find(3)]
    str.member_step [OF task_find(4)] nested_step [OF task_find(5)] tstatus.member_step [OF task_find(6)]
    int.member_step [OF task_find(7)] str.member_step [OF task_find(8)] time [OF task_find(9)] time [OF task_find(10)]
    time [OF task_find(11)] time [OF task_find(12)] str.member_step [OF task_find(13)] str.member_step [OF task_find(14)]
    int.member_step [OF task_find(15)] bytes.member_step [OF task_find(16)]
  have p: "params_ok ex (t_Params t)" using assms(1) by (simp add: task_ok_def)
  show ?thesis unfolding PrintTask_json_def dec_struct.simps
    by (intro steps; (simp add: zero_PrintTask_def params_decode [OF p]; fail)?)
      (use assms in \<open>simp_all add: unquote_plain task_ok_def zero_PrintTask_def\<close>)
qed

lemma wf_obj: "0 < d \<Longrightarrow> \<forall>m \<in> set ms. wf_raw (fst m) \<and> wf_json (d - 1) (snd m) \<Longrightarrow> wf_json d (JObj ms)"
  by auto

lemma wf_obj_3: "wf_json 3 (JObj ms) \<longleftrightarrow> (\<forall>m \<in> set ms. wf_raw (fst m) \<and> wf_json 2 (snd m))"
  by (auto simp: case_prod_unfold)

lemma ball_member: "(\<forall>m \<in> set (member name omit j). P m) \<longleftrightarrow> omit \<or> P (name, j)"
  by (simp add: member_def)

lemmas enc_wfs = str.enc_wf int.enc_wf bool.enc_wf protocol.enc_wf dstatus.enc_wf tstatus.enc_wf netclass.enc_wf bytes.enc_wf
  leaf_codec.enc_wf [OF time_codec]

lemma params_wf: "params_ok ex p \<Longrightarrow> wf_json 2 (PrintParams_json ex p)"
  unfolding PrintParams_json_def
  by (intro wf_obj) (auto simp: ball_member ball_Un params_ok_def enc_int_def wf_num_itoa enc_string_def enc_string_map_def json_escape_wf)

lemma task_wf:
  assumes "task_ok tf ex t" "timefmt_ok tf"
  shows "wf_json 3 (PrintTask_json tf ex t)"
  unfolding PrintTask_json_def
  by (intro wf_obj) (use assms params_wf [of ex "t_Params t"] in
      \<open>simp_all add: ball_member ball_Un task_ok_def enc_wfs del: wf_json.simps\<close>)

lemma device_find:
  "find_field (Device_fields tf) ''device_id'' = Some (fld d_DeviceID d_DeviceID_update dec_string)"
  "find_field (Device_fields tf) ''name'' = Some (fld d_Name d_Name_update dec_string)"
  "find_field (Device_fields tf) ''ip'' = Some (fld d_IP d_IP_update dec_string)"
  "find_field (Device_fields tf) ''hostname'' = Some (fld d_Hostname d_Hostname_update dec_string)"
  "find_field (Device_fields tf) ''model'' = Some (fld d_Model d_Model_update dec_string)"
  "find_field (Device_fields tf) ''protocol'' = Some (fld d_Protocol d_Protocol_update Protocol_UnmarshalJSON)"
  "find_field (Device_fields tf) ''status'' = Some (fld d_Status d_Status_update DeviceStatus_UnmarshalJSON)"
  "find_field (Device_fields tf) ''factory'' = Some (fld d_Factory d_Factory_update dec_string)"
  "find_field (Device_fields tf) ''port'' = Some (fld d_Port d_Port_update dec_int)"
  "find_field (Device_fields tf) ''last_probe_at'' = Some (fld d_LastProbeAt d_LastProbeAt_update (dec_time tf))"
  "find_field (Device_fields tf) ''created_at'' = Some (fld d_CreatedAt d_CreatedAt_update (dec_time tf))"
  "find_field (Device_fields tf) ''updated_at'' = Some (fld d_UpdatedAt d_UpdatedAt_update (dec_time tf))"
  by (simp_all add: find_defs)

lemma device_decode:
  assumes "device_ok tf d" "timefmt_ok tf"
  shows "dec_struct (Device_fields tf) (Device_json tf d) zero_Device = (Fine, d)"
proof -
  note time = leaf_codec.member_step [OF time_codec [OF assms(2)]]
  note steps = str.member_step [OF device_find(1)] str.member_step [OF device_find(2)] str.member_step [OF device_find(3)]
    str.member_step [OF device_find(4)] str.member_step [OF device_find(5)] protocol.member_step [OF device_find(6)]
    dstatus.member_step [OF device_find(7)] str.member_step [OF device_find(8)] int.member_step [OF device_find(9)]
    time [OF device_find(10)] time [OF device_find(11)] time [OF device_find(12)]
  show ?thesis unfolding Device_json_def dec_struct.simps
    by (intro steps) (use assms in \<open>simp_all add: unquote_plain device_ok_def zero_Device_def\<close>)
qed

lemma device_wf:
  assumes "device_ok tf d" "timefmt_ok tf"
  shows "wf_json 3 (Device_json tf d)"
  unfolding Device_json_def
  by (intro wf_obj) (use assms in \<open>simp_all add: ball_member ball_Un device_ok_def enc_wfs del: wf_json.simps\<close>)

text \<open>A correct value as the payload of a message is decoded from its text.\<close>

lemma unmarshal_text:
  assumes "wf_json 3 j" "dec_struct fs j zero = (Fine, v)"
  shows "unmarshal fs zero (PRaw (bytes_of (json_text j))) = Inr v"
proof -
  have "wf_json maxNestingDepth j" using wf_json_mono [OF assms(1)] by (simp add: maxNestingDepth_def)
  then show ?thesis
    using assms(2) by (simp add: unmarshal_def payload_text_def json_unmarshal_def json_parse_text)
qed

lemma envelope_find:
  "find_field (Envelope_fields tf) ''type'' = Some (fld e_Type e_Type_update dec_string)"
  "find_field (Envelope_fields tf) ''trace_id'' = Some (fld e_TraceID e_TraceID_update dec_string)"
  "find_field (Envelope_fields tf) ''ts'' = Some (fld e_TS e_TS_update (dec_time tf))"
  "find_field (Envelope_fields tf) ''payload'' = Some (fld e_Payload e_Payload_update dec_raw)"
  by (simp_all add: find_defs)

lemma envelope_eta: "\<lparr>e_Type = e_Type e, e_TraceID = e_TraceID e, e_TS = e_TS e, e_Payload = p\<rparr> = e\<lparr>e_Payload := p\<rparr>"
  by (cases e) simp

lemma envelope_decode:
  assumes "timefmt_ok tf" "time_ok tf (e_TS e)" "utf8_valid (e_Type e)" "utf8_valid (e_TraceID e)"
  shows "dec_struct (Envelope_fields tf) (Envelope_json tf e j) zero_Envelope = (Fine, e\<lparr>e_Payload := PRaw (bytes_of (json_text j))\<rparr>)"
  unfolding Envelope_json_def dec_struct.simps
  by (intro str.member_step [OF envelope_find(1)] str.member_step [OF envelope_find(2)]
      leaf_codec.member_step [OF time_codec [OF assms(1)] envelope_find(3)] nested_step [OF envelope_find(4)])
    (use assms in \<open>simp_all add: unquote_plain zero_Envelope_def dec_raw_def envelope_eta\<close>)

lemma envelope_wf:
  assumes "timefmt_ok tf" "time_ok tf (e_TS e)" "utf8_valid (e_Type e)" "utf8_valid (e_TraceID e)" "wf_json 3 j"
  shows "wf_json 4 (Envelope_json tf e j)"
  unfolding Envelope_json_def
  by (intro wf_obj) (use assms wf_json_mono [OF str.enc_wf, of _ 3] wf_json_mono [OF leaf_codec.enc_wf [OF time_codec], of tf _ 3] in
      \<open>simp_all add: ball_member ball_Un del: wf_json.simps\<close>)

text \<open>Every text of an envelope, whatever follows it that is no part of a number, is read as this envelope.\<close>

lemma read_envelope:
  assumes "timefmt_ok tf" "time_ok tf (e_TS e)" "utf8_valid (e_Type e)" "utf8_valid (e_TraceID e)" "wf_json 3 j"
    "spaced (Envelope_json tf e j) s" "num_end r"
  shows "decode_envelope tf (s @ r) = ReadMsg (e\<lparr>e_Payload := PRaw (bytes_of (json_text j))\<rparr>)"
proof -
  let ?v = "Envelope_json tf e j"
  have w: "wf_json maxNestingDepth ?v" using wf_json_mono [OF envelope_wf [OF assms(1-5)]] by (simp add: maxNestingDepth_def)
  have "jvalue (Suc (2 * length (s @ r))) maxNestingDepth (s @ r) = Some (?v, r)"
    by (rule jvalue_spaced(1) [OF assms(6) w assms(7)]) simp
  moreover have "jws (s @ r) \<noteq> []" using spaced_hd(1) [OF assms(6)] jws_append by fastforce
  ultimately show ?thesis
    using envelope_decode [OF assms(1-4), of j] by (simp add: decode_envelope_def del: jvalue.simps)
qed

lemma receive_read:
  assumes "timefmt_ok tf" "time_ok tf (e_TS e)" "utf8_valid (e_Type e)" "utf8_valid (e_TraceID e)" "wf_json 3 j"
    "spaced (Envelope_json tf e j) s" "all_ws r"
  shows "receive_envelope limit tf (s @ r) =
    (if length s \<le> limit then ReadMsg (e\<lparr>e_Payload := PRaw (bytes_of (json_text j))\<rparr>) else ReadBad (PlainError ''read limited''))"
proof (cases "length s \<le> limit")
  case True
  have "all_ws (take k r)" for k using assms(7) by (auto simp: all_ws_def list_all_iff dest: in_set_takeD)
  then have ne: "num_end (take k r)" "num_end r" for k
    using num_end_ws [of "take k r" "[]"] num_end_ws [of r "[]"] assms(7) by (simp_all add: num_end_def)
  have "decode_envelope tf (s @ take k r) = ReadMsg (e\<lparr>e_Payload := PRaw (bytes_of (json_text j))\<rparr>)" for k
    using read_envelope [OF assms(1-6) ne(1)] .
  from this [of "length r"] this [of "limit - length s"] show ?thesis using True by (simp add: receive_envelope_def)
next
  case False
  let ?v = "Envelope_json tf e j"
  have w: "wf_json maxNestingDepth ?v" using wf_json_mono [OF envelope_wf [OF assms(1-5)]] by (simp add: maxNestingDepth_def)
  obtain ms where ms: "?v = JObj ms" by (simp add: Envelope_json_def)
  have t: "take limit (s @ r) = take limit s" using False by simp
  have "\<exists>l. v' = JNum l" if "jvalue (Suc (2 * length (take limit s))) maxNestingDepth (take limit s) = Some (v', r')" for v' r'
    using jvalue_cut [OF assms(6) [unfolded ms] w [unfolded ms], of limit v' r'] that False by (simp add: min_def del: jvalue.simps)
  note num = this
  have "decode_envelope tf (take limit s) \<noteq> ReadMsg x" for x
  proof (cases "jvalue (Suc (2 * length (take limit s))) maxNestingDepth (take limit s)")
    case None
    then show ?thesis unfolding decode_envelope_def None by simp
  next
    case (Some a)
    then obtain l r' where a: "a = (JNum l, r')" using num by (cases a) blast
    show ?thesis unfolding decode_envelope_def Some a by simp
  qed
  then show ?thesis using False unfolding receive_envelope_def t by (auto split: ws_read.splits)
qed

section \<open>A receiver of the agent's messages\<close>

text \<open>A receiver that uses the same structures, and chooses the one to decode by the type of the message.\<close>

definition HeartbeatPayload_fields :: "timefmt \<Rightarrow> HeartbeatPayload fields" where
  "HeartbeatPayload_fields tf =
     [(''agent_id'', fld hp_AgentID hp_AgentID_update dec_string),
      (''version'', fld hp_Version hp_Version_update dec_string),
      (''online_devices'', fld hp_OnlineDevices hp_OnlineDevices_update dec_int),
      (''pending_tasks'', fld hp_PendingTasks hp_PendingTasks_update dec_int),
      (''cloud_endpoint'', fld hp_CloudEndpoint hp_CloudEndpoint_update dec_string),
      (''net_class'', fld hp_NetClass hp_NetClass_update NetClass_UnmarshalJSON),
      (''timestamp'', fld hp_Timestamp hp_Timestamp_update (dec_time tf))]"

definition TaskResultPayload_fields :: "timefmt \<Rightarrow> TaskResultPayload fields" where
  "TaskResultPayload_fields tf =
     [(''task_id'', fld tr_TaskID tr_TaskID_update dec_string),
      (''device_id'', fld tr_DeviceID tr_DeviceID_update dec_string),
      (''status'', fld tr_Status tr_Status_update TaskStatus_UnmarshalJSON),
      (''retry_count'', fld tr_RetryCount tr_RetryCount_update dec_int),
      (''error_code'', fld tr_ErrorCode tr_ErrorCode_update dec_string),
      (''error_msg'', fld tr_ErrorMsg tr_ErrorMsg_update dec_string),
      (''finished_at'', fld tr_FinishedAt tr_FinishedAt_update (dec_time tf))]"

definition DeviceStatusPayload_fields :: "timefmt \<Rightarrow> DeviceStatusPayload fields" where
  "DeviceStatusPayload_fields tf =
     [(''device_id'', fld ds_DeviceID ds_DeviceID_update dec_string),
      (''status'', fld ds_Status ds_Status_update DeviceStatus_UnmarshalJSON),
      (''protocol'', fld ds_Protocol ds_Protocol_update Protocol_UnmarshalJSON),
      (''last_probe_at'', fld ds_LastProbeAt ds_LastProbeAt_update (dec_time tf))]"

definition NetEventPayload_fields :: "timefmt \<Rightarrow> NetEventPayload fields" where
  "NetEventPayload_fields tf =
     [(''class'', fld ne_Class ne_Class_update NetClass_UnmarshalJSON),
      (''endpoint'', fld ne_Endpoint ne_Endpoint_update dec_string),
      (''detail'', fld ne_Detail ne_Detail_update dec_string),
      (''ts'', fld ne_TS ne_TS_update (dec_time tf))]"

definition ConfigAckPayload_fields :: "ConfigAckPayload fields" where
  "ConfigAckPayload_fields =
     [(''applied'', fld ca_Applied ca_Applied_update dec_bool),
      (''reason'', fld ca_Reason ca_Reason_update dec_string),
      (''field'', fld ca_Field ca_Field_update dec_string)]"

definition TaskAckPayload_fields :: "TaskAckPayload fields" where
  "TaskAckPayload_fields =
     [(''task_id'', fld ta_TaskID ta_TaskID_update dec_string),
      (''accepted'', fld ta_Accepted ta_Accepted_update dec_bool),
      (''reason'', fld ta_Reason ta_Reason_update dec_string)]"

definition read_payload :: "timefmt \<Rightarrow> string \<Rightarrow> Payload \<Rightarrow> goerror + Payload" where
  "read_payload tf ty raw =
     (if ty = ''heartbeat'' then
        map_sum id PHeartbeat (unmarshal (HeartbeatPayload_fields tf)
          \<lparr>hp_AgentID = [], hp_Version = [], hp_OnlineDevices = 0, hp_PendingTasks = 0, hp_CloudEndpoint = [], hp_NetClass = [], hp_Timestamp = 0\<rparr> raw)
      else if ty = ''task_result'' then
        map_sum id PTaskResult (unmarshal (TaskResultPayload_fields tf)
          \<lparr>tr_TaskID = [], tr_DeviceID = [], tr_Status = [], tr_RetryCount = 0, tr_ErrorCode = [], tr_ErrorMsg = [], tr_FinishedAt = 0\<rparr> raw)
      else if ty = ''device_status'' then
        map_sum id PDeviceStatus (unmarshal (DeviceStatusPayload_fields tf)
          \<lparr>ds_DeviceID = [], ds_Status = [], ds_Protocol = [], ds_LastProbeAt = 0\<rparr> raw)
      else if ty = ''net_event'' then
        map_sum id PNetEvent (unmarshal (NetEventPayload_fields tf) \<lparr>ne_Class = [], ne_Endpoint = [], ne_Detail = [], ne_TS = 0\<rparr> raw)
      else if ty = ''config_ack'' then
        map_sum id PConfigAck (unmarshal ConfigAckPayload_fields \<lparr>ca_Applied = False, ca_Reason = [], ca_Field = []\<rparr> raw)
      else if ty = ''task_ack'' then
        map_sum id PTaskAck (unmarshal TaskAckPayload_fields \<lparr>ta_TaskID = [], ta_Accepted = False, ta_Reason = []\<rparr> raw)
      else Inr raw)"

text \<open>The type a payload is sent with, and when it can be sent without loss.\<close>

fun payload_type :: "Payload \<Rightarrow> string" where
  "payload_type (PHeartbeat p) = ''heartbeat''"
| "payload_type (PTaskResult p) = ''task_result''"
| "payload_type (PDeviceStatus p) = ''device_status''"
| "payload_type (PNetEvent p) = ''net_event''"
| "payload_type (PConfigAck p) = ''config_ack''"
| "payload_type (PTaskAck p) = ''task_ack''"
| "payload_type (PRaw b) = []"

fun payload_ok :: "Payload \<Rightarrow> bool" where
  "payload_ok (PHeartbeat p) \<longleftrightarrow> list_all utf8_valid [hp_AgentID p, hp_Version p, hp_CloudEndpoint p, hp_NetClass p] \<and>
     is_int64 (hp_OnlineDevices p) \<and> is_int64 (hp_PendingTasks p)"
| "payload_ok (PTaskResult p) \<longleftrightarrow> list_all utf8_valid [tr_TaskID p, tr_DeviceID p, tr_Status p, tr_ErrorCode p, tr_ErrorMsg p] \<and>
     is_int64 (tr_RetryCount p)"
| "payload_ok (PDeviceStatus p) \<longleftrightarrow> list_all utf8_valid [ds_DeviceID p, ds_Status p, ds_Protocol p]"
| "payload_ok (PNetEvent p) \<longleftrightarrow> list_all utf8_valid [ne_Class p, ne_Endpoint p, ne_Detail p]"
| "payload_ok (PConfigAck p) \<longleftrightarrow> list_all utf8_valid [ca_Reason p, ca_Field p]"
| "payload_ok (PTaskAck p) \<longleftrightarrow> list_all utf8_valid [ta_TaskID p, ta_Reason p]"
| "payload_ok (PRaw b) \<longleftrightarrow> True"

lemmas payload_json_defs = HeartbeatPayload_json_def TaskResultPayload_json_def DeviceStatusPayload_json_def NetEventPayload_json_def
  ConfigAckPayload_json_def TaskAckPayload_json_def

lemmas payload_field_defs = HeartbeatPayload_fields_def TaskResultPayload_fields_def DeviceStatusPayload_fields_def
  NetEventPayload_fields_def ConfigAckPayload_fields_def TaskAckPayload_fields_def

lemma payload_wf:
  assumes "timefmt_ok tf" "payload_ok p" "payload_json tf p = Some j"
  shows "wf_json 3 j"
  using assms
  by (cases p; clarsimp split: if_splits; simp add: payload_json_defs wf_obj_3 ball_member ball_Un enc_wfs del: wf_json.simps)

lemma decs:
  "utf8_valid s \<Longrightarrow> dec_string (enc_string s) y = (Fine, s)" "is_int64 i \<Longrightarrow> dec_int (enc_int i) k = (Fine, i)"
  "utf8_valid s \<Longrightarrow> Protocol_UnmarshalJSON (Protocol_MarshalJSON s) y = (Fine, s)"
  "utf8_valid s \<Longrightarrow> DeviceStatus_UnmarshalJSON (DeviceStatus_MarshalJSON s) y = (Fine, s)"
  "utf8_valid s \<Longrightarrow> TaskStatus_UnmarshalJSON (TaskStatus_MarshalJSON s) y = (Fine, s)"
  "utf8_valid s \<Longrightarrow> NetClass_UnmarshalJSON (NetClass_MarshalJSON s) y = (Fine, s)"
  "timefmt_ok tf \<Longrightarrow> time_ok tf t \<Longrightarrow> dec_time tf (enc_time tf t) u = (Fine, t)"
  by (simp_all add: str.dec_enc int.dec_enc protocol.dec_enc dstatus.dec_enc tstatus.dec_enc netclass.dec_enc
      leaf_codec.dec_enc [OF time_codec])

lemma heartbeat_decode:
  assumes "timefmt_ok tf" "payload_ok (PHeartbeat q)" "time_ok tf (hp_Timestamp q)"
  shows "dec_struct (HeartbeatPayload_fields tf) (HeartbeatPayload_json tf q) \<lparr>hp_AgentID = [], hp_Version = [], hp_OnlineDevices = 0, hp_PendingTasks = 0, hp_CloudEndpoint = [], hp_NetClass = [], hp_Timestamp = 0\<rparr> = (Fine, q)"
  using assms by (cases q) (simp add: payload_json_defs payload_field_defs member_def find_field_def fld_def decs unquote_plain)

lemma result_decode:
  assumes "timefmt_ok tf" "payload_ok (PTaskResult q)" "time_ok tf (tr_FinishedAt q)"
  shows "dec_struct (TaskResultPayload_fields tf) (TaskResultPayload_json tf q) \<lparr>tr_TaskID = [], tr_DeviceID = [], tr_Status = [], tr_RetryCount = 0, tr_ErrorCode = [], tr_ErrorMsg = [], tr_FinishedAt = 0\<rparr> = (Fine, q)"
  using assms by (cases q) (simp add: payload_json_defs payload_field_defs member_def find_field_def fld_def decs unquote_plain)

lemma device_status_decode:
  assumes "timefmt_ok tf" "payload_ok (PDeviceStatus q)" "time_ok tf (ds_LastProbeAt q)"
  shows "dec_struct (DeviceStatusPayload_fields tf) (DeviceStatusPayload_json tf q) \<lparr>ds_DeviceID = [], ds_Status = [], ds_Protocol = [], ds_LastProbeAt = 0\<rparr> = (Fine, q)"
  using assms by (cases q) (simp add: payload_json_defs payload_field_defs member_def find_field_def fld_def decs unquote_plain)

lemma net_event_decode:
  assumes "timefmt_ok tf" "payload_ok (PNetEvent q)" "time_ok tf (ne_TS q)"
  shows "dec_struct (NetEventPayload_fields tf) (NetEventPayload_json tf q) \<lparr>ne_Class = [], ne_Endpoint = [], ne_Detail = [], ne_TS = 0\<rparr> = (Fine, q)"
  using assms by (cases q) (simp add: payload_json_defs payload_field_defs member_def find_field_def fld_def decs unquote_plain)

lemma config_ack_decode:
  assumes "payload_ok (PConfigAck q)"
  shows "dec_struct (ConfigAckPayload_fields) (ConfigAckPayload_json q) \<lparr>ca_Applied = False, ca_Reason = [], ca_Field = []\<rparr> = (Fine, q)"
  using assms by (cases q) (simp add: payload_json_defs payload_field_defs member_def find_field_def fld_def decs unquote_plain)

lemma task_ack_decode:
  assumes "payload_ok (PTaskAck q)"
  shows "dec_struct (TaskAckPayload_fields) (TaskAckPayload_json q) \<lparr>ta_TaskID = [], ta_Accepted = False, ta_Reason = []\<rparr> = (Fine, q)"
  using assms by (cases q) (simp add: payload_json_defs payload_field_defs member_def find_field_def fld_def decs unquote_plain)

lemma payload_read:
  assumes "timefmt_ok tf" "payload_ok p" "payload_json tf p = Some j"
  shows "read_payload tf (payload_type p) (PRaw (bytes_of (json_text j))) = Inr p"
proof -
  note w = unmarshal_text [OF payload_wf [OF assms]]
  show ?thesis
  proof (cases p)
    case (PHeartbeat q)
    then show ?thesis using assms(2,3) w [of "HeartbeatPayload_fields tf" _ q] heartbeat_decode [OF assms(1), of q] by (simp add: read_payload_def split: if_splits)
  next
    case (PTaskResult q)
    then show ?thesis using assms(2,3) w [of "TaskResultPayload_fields tf" _ q] result_decode [OF assms(1), of q] by (simp add: read_payload_def split: if_splits)
  next
    case (PDeviceStatus q)
    then show ?thesis using assms(2,3) w [of "DeviceStatusPayload_fields tf" _ q] device_status_decode [OF assms(1), of q] by (simp add: read_payload_def split: if_splits)
  next
    case (PNetEvent q)
    then show ?thesis using assms(2,3) w [of "NetEventPayload_fields tf" _ q] net_event_decode [OF assms(1), of q] by (simp add: read_payload_def split: if_splits)
  next
    case (PConfigAck q)
    then show ?thesis using assms(2,3) w [of "ConfigAckPayload_fields" _ q] config_ack_decode [of q] by (simp add: read_payload_def split: if_splits)
  next
    case (PTaskAck q)
    then show ?thesis using assms(2,3) w [of "TaskAckPayload_fields" _ q] task_ack_decode [of q] by (simp add: read_payload_def split: if_splits)
  qed (use assms in simp_all)
qed

section \<open>The credentials file\<close>

text \<open>The encrypted fields as JSON: an empty token is a nil slice, which is written as \<open>null\<close>.\<close>

definition encryptedFields_json :: "encryptedFields \<Rightarrow> json" where
  "encryptedFields_json e = JObj (
     member ''device_token'' False (if ef_DeviceToken e = [] then JNull else enc_bytes (ef_DeviceToken e)) @
     member ''mtls_cert'' (ef_MTLSCert e = []) (enc_bytes (ef_MTLSCert e)) @
     member ''mtls_key'' (ef_MTLSKey e = []) (enc_bytes (ef_MTLSKey e)) @ [])"

definition encryptedFields_fields :: "encryptedFields fields" where
  "encryptedFields_fields =
     [(''device_token'', fld ef_DeviceToken ef_DeviceToken_update dec_bytes),
      (''mtls_cert'', fld ef_MTLSCert ef_MTLSCert_update dec_bytes),
      (''mtls_key'', fld ef_MTLSKey ef_MTLSKey_update dec_bytes)]"

definition cred_json :: codec where
  "cred_json = \<lparr>cd_marshal = (\<lambda>e. Inr (bytes_of (json_text (encryptedFields_json e)))),
     cd_unmarshal = (\<lambda>data. unmarshal encryptedFields_fields \<lparr>ef_DeviceToken = [], ef_MTLSCert = [], ef_MTLSKey = []\<rparr> (PRaw data))\<rparr>"

lemma cred_json_ok: "codec_ok cred_json"
proof -
  have "wf_json 3 (encryptedFields_json e)" for e
    using bytes.enc_wf by (simp add: encryptedFields_json_def wf_obj_3 ball_member ball_Un del: wf_json.simps) simp
  moreover have "dec_struct encryptedFields_fields (encryptedFields_json e) \<lparr>ef_DeviceToken = [], ef_MTLSCert = [], ef_MTLSKey = []\<rparr> = (Fine, e)" for e
    using bytes.dec_enc
    by (cases e) (simp add: encryptedFields_json_def encryptedFields_fields_def member_def find_field_def fld_def unquote_plain)
  ultimately show ?thesis by (simp add: codec_ok_def cred_json_def unmarshal_text)
qed

section \<open>Values of the wrong type\<close>

lemma worse_Fine [simp]: "worse st st' = Fine \<longleftrightarrow> st = Fine \<and> st' = Fine"
  by (cases st) auto

lemma mistyped_member:
  assumes "(k, j) \<in> set ms" "find_field fs (json_unquote k) = Some f" "\<And>v. fst (f j v) \<noteq> Fine"
  shows "fst (decode_members fs ms v) \<noteq> Fine"
  using assms(1)
proof (induction ms arbitrary: v)
  case (Cons m ms)
  obtain k' j' where m: "m = (k', j')" by fastforce
  show ?case
  proof (cases "m = (k, j)")
    case True
    then show ?thesis using m assms(2) assms(3) [of v] by (auto split: prod.splits)
  next
    case False
    with Cons have "\<And>v. fst (decode_members fs ms v) \<noteq> Fine" by auto
    then show ?thesis using m by (auto split: prod.splits option.splits) (metis fst_conv)
  qed
qed simp

text \<open>A text that is no JSON, or an object with a member of the wrong type.\<close>

definition undecodable :: "'a fields \<Rightarrow> string \<Rightarrow> bool" where
  "undecodable fs s \<longleftrightarrow> json_parse s = None \<or>
     (\<exists>ms k j f. json_parse s = Some (JObj ms) \<and> (k, j) \<in> set ms \<and> find_field fs (json_unquote k) = Some f \<and>
        (\<forall>v. fst (f j v) \<noteq> Fine))"

lemma undecodable_fails:
  assumes "undecodable fs s"
  shows "\<exists>err. unmarshal fs zero (PRaw (bytes_of s)) = Inl err"
proof (cases "json_parse s")
  case None
  then show ?thesis by (simp add: unmarshal_def payload_text_def json_unmarshal_def)
next
  case (Some j)
  then obtain ms k j' f where m: "json_parse s = Some (JObj ms)" "(k, j') \<in> set ms" "find_field fs (json_unquote k) = Some f"
    "\<And>v. fst (f j' v) \<noteq> Fine" using assms by (auto simp: undecodable_def)
  obtain st v where "decode_members fs ms zero = (st, v)" by fastforce
  moreover from this mistyped_member [OF m(2,3,4), of zero] have "st \<noteq> Fine" by simp
  ultimately show ?thesis using m(1) by (simp add: unmarshal_def payload_text_def json_unmarshal_def)
qed

text \<open>What the text of a task message does.\<close>

lemma task_text:
  assumes "timefmt_ok tf" "task_ok tf ex t" "e_Type e = ''task''" "utf8_valid (e_TraceID e)" "time_ok tf (e_TS e)" "\<not> cn_closed c"
    "Queue_Enqueue b g now (dw_queue w) (Some (traced e t)) = (err, q)" "spaced (Envelope_json tf e (PrintTask_json tf ex t)) s" "all_ws r"
    "length s \<le> limit"
  shows "\<exists>msg. Conn_Read c (receive_envelope limit tf (s @ r)) = Inr msg \<and>
    handle (ag_ops b g now) (wire_un tf) now wr msg w =
      sendTaskAck now wr (t_TaskID t) (err = None) (case err of None \<Rightarrow> [] | Some x \<Rightarrow> Error x) (w\<lparr>dw_queue := q\<rparr>)"
proof -
  let ?m = "e\<lparr>e_Payload := PRaw (bytes_of (json_text (PrintTask_json tf ex t)))\<rparr>"
  have "receive_envelope limit tf (s @ r) = ReadMsg ?m"
    using receive_read [OF assms(1,5) _ assms(4) task_wf [OF assms(2,1)] assms(8,9), of limit] assms(3,10) by (simp add: utf8_valid_ascii)
  moreover have "un_task (wire_un tf) (e_Payload ?m) = Inr t"
    using unmarshal_text [OF task_wf [OF assms(2,1)] task_decode [OF assms(2,1)]] by (simp add: wire_un_def)
  moreover have "traced ?m t = traced e t" by (simp add: traced_def)
  ultimately show ?thesis
    using handleTask_effect [of ?m "wire_un tf" t b g now w err q wr] assms(3,6,7) by (simp add: Conn_Read_def)
qed

section \<open>Properties\<close>

text \<open>
  (C8) What the agent writes can be read: whenever the encoder succeeds on a message with a payload of the agent
  (text in UTF-8, counts of 64 bits), a receiver that decodes the text with the same structures gets the same
  type, trace id and time, and a payload that decodes to exactly the one that was sent, the fields that
  were left out because they were empty included, in whatever zone the times are written.
\<close>

theorem agent_messages_are_readable:
  assumes "\<forall>x. \<bar>off x\<bar> < 1440" "encode_envelope (rfc_tf off) e = Some s" "payload_ok (e_Payload e)" "e_Type e = payload_type (e_Payload e)"
    "utf8_valid (e_TraceID e)"
  shows "\<exists>raw. decode_envelope (rfc_tf off) s = ReadMsg (e\<lparr>e_Payload := raw\<rparr>) \<and> read_payload (rfc_tf off) (e_Type e) raw = Inr (e_Payload e)"
proof -
  note ok = rfc_tf_ok [OF assms(1)]
  obtain j where j: "payload_json (rfc_tf off) (e_Payload e) = Some j" "time_ok (rfc_tf off) (e_TS e)" "s = json_text (Envelope_json (rfc_tf off) e j) @ [CHR 0x0A]"
    using assms(2) by (auto simp: encode_envelope_def split: option.splits if_splits)
  have "utf8_valid (e_Type e)" unfolding assms(4) by (cases "e_Payload e") (simp_all add: utf8_valid_ascii)
  then have "decode_envelope (rfc_tf off) s = ReadMsg (e\<lparr>e_Payload := PRaw (bytes_of (json_text j))\<rparr>)"
    unfolding j(3) using assms(5) j(2) payload_wf [OF ok assms(3) j(1)]
    by (intro read_envelope [OF ok] json_text_spaced [OF envelope_wf [OF ok]]) (simp_all add: num_end_def is_digit_chars)
  moreover have "read_payload (rfc_tf off) (e_Type e) (PRaw (bytes_of (json_text j))) = Inr (e_Payload e)"
    unfolding assms(4) by (rule payload_read [OF ok assms(3) j(1)])
  ultimately show ?thesis by blast
qed

text \<open>
  (C7) A task arrives complete, up to the size the web socket admits. Take any text of a task message, with white space
  wherever JSON allows it, with every field encoded as the structure says (the document in base64, empty fields
  left out, the times in RFC 3339 of any zones, the extra parameters in any order). If it is not longer, up to its
  closing brace, than the read limit of the connection, the agent reads the message and hands the queue exactly this task, with the
  trace id of the message if it has none; the acknowledgement tells whether the queue took it. If it is longer, the
  read fails as a disconnection. The limit is a parameter; the package documents 32768 bytes, and the source
  does not change it.
\<close>

theorem task_message_arrives_complete:
  assumes "\<forall>x. \<bar>off x\<bar> < 1440" "task_ok (rfc_tf off) ex t" "e_Type e = ''task''" "utf8_valid (e_TraceID e)" "time_ok (rfc_tf off) (e_TS e)" "\<not> cn_closed c"
    "Queue_Enqueue b g now (dw_queue w) (Some (traced e t)) = (err, q)" "spaced (Envelope_json (rfc_tf off) e (PrintTask_json (rfc_tf off) ex t)) s"
    "all_ws r"
  shows "if length s \<le> limit
    then \<exists>msg. Conn_Read c (receive_envelope limit (rfc_tf off) (s @ r)) = Inr msg \<and>
      handle (ag_ops b g now) (wire_un (rfc_tf off)) now wr msg w =
        sendTaskAck now wr (t_TaskID t) (err = None) (case err of None \<Rightarrow> [] | Some x \<Rightarrow> Error x) (w\<lparr>dw_queue := q\<rparr>)
    else \<exists>x. Conn_Read c (receive_envelope limit (rfc_tf off) (s @ r)) = Inl x \<and> CodeFromErr x = Some ErrCloudDisconnected"
proof (cases "length s \<le> limit")
  case True
  then show ?thesis using task_text [OF rfc_tf_ok [OF assms(1)] assms(2-9) True] by simp
next
  case False
  have "receive_envelope limit (rfc_tf off) (s @ r) = ReadBad (PlainError ''read limited'')"
    using receive_read [OF rfc_tf_ok [OF assms(1)] assms(5) _ assms(4) task_wf [OF assms(2) rfc_tf_ok [OF assms(1)]] assms(8,9), of limit]
      assms(3) False by (simp add: utf8_valid_ascii)
  then show ?thesis using False assms(6) by (simp add: Conn_Read_def)
qed

text \<open>
  (C9) A task that cannot be decoded is refused: when the payload of a task message is not JSON, or one of its
  members has a value of the wrong type, the queue and the registry stay as they are and the answer is a
  refusal, without a task id.
\<close>

theorem undecodable_task_is_refused:
  assumes "e_Type msg = ''task''" "e_Payload msg = PRaw (bytes_of s)" "undecodable (PrintTask_fields (rfc_tf off)) s"
  shows "handle ops (wire_un (rfc_tf off)) now None msg w =
    w\<lparr>dw_out := dw_out w @ [NewEnvelope now ''task_ack'' (PTaskAck \<lparr>ta_TaskID = [], ta_Accepted = False, ta_Reason = ''bad payload''\<rparr>)]\<rparr>"
  using undecodable_fails [OF assms(3), of zero_PrintTask] assms(1,2)
  by (auto simp: handle_def handleTask_def wire_un_def sendTaskAck_def Let_def)

text \<open>
  (C10) A task message can stop the agent. When its text, within the read limit, has a negative \<open>retry_count\<close> and the queue has room, the
  task is acknowledged as accepted; the first attempt that fails, for whatever reason on a device that is not
  offline, ends in a run-time panic.
\<close>

theorem task_message_stops_agent:
  assumes "\<forall>x. \<bar>off x\<bar> < 1440" "task_ok (rfc_tf off) ex t" "e_Type e = ''task''" "utf8_valid (e_TraceID e)" "time_ok (rfc_tf off) (e_TS e)" "\<not> cn_closed c"
    "Queue_Enqueue b g now (dw_queue w) (Some (traced e t)) = (None, q)"
    "spaced (Envelope_json (rfc_tf off) e (PrintTask_json (rfc_tf off) ex t)) s" "t_RetryCount t < 0" "\<not> TaskStatus_IsTerminal (t_Status t)"
    "online_attempt (t_DeviceID t) a" "fst (executeTask audit a (enqueue_clone now (traced e t))) \<noteq> None" "length s \<le> limit"
  shows "\<exists>msg. Conn_Read c (receive_envelope limit (rfc_tf off) s) = Inr msg \<and>
    handle (ag_ops b g now) (wire_un (rfc_tf off)) now wr msg w = sendTaskAck now wr (t_TaskID t) True [] (w\<lparr>dw_queue := q\<rparr>) \<and>
    fst (executeTaskLoop audit (a # as) (enqueue_clone now (traced e t))) = Panicked"
proof -
  let ?t = "enqueue_clone now (traced e t)"
  have "\<not> TaskStatus_IsTerminal (t_Status ?t)" using assms(10) by (simp add: enqueue_clone_def traced_def Let_def)
  then have p: "fst (executeTaskLoop audit (a # as) ?t) = Panicked"
    using assms(2,9,11,12) by (intro negative_retry_panics) (simp_all add: task_ok_def)
  from task_text [OF rfc_tf_ok [OF assms(1)] assms(2-8) _ assms(13), of "[]" wr] p show ?thesis by auto
qed

text \<open>
  (C24) The credentials survive the file: what \<open>Save\<close> has encrypted and written as JSON \<open>Load\<close> reads back with the
  same key, all three credentials, the empty ones included.
\<close>

theorem credentials_file_roundtrip:
  assumes "aead_ok A" "length key = 32" "si_nonces io = (Inr n1, Inr n2, Inr n3)" "length n1 = 12" "length n2 = 12" "length n3 = 12"
    "cred_Save A cred_json io path creds key fs = (None, fs')"
  shows "cred_Load A cred_json None path key fs' = Inr creds"
  by (rule credentials_roundtrip [OF assms(1) cred_json_ok assms(2-7)])

text \<open>
  (C25) The tool and the agent fit together: with the key it printed in the environment, the agent opens the JSON
  file the tool wrote and has the token it was given, and no certificate.
\<close>

theorem init_credential_file_opens:
  assumes "aead_ok A" "ii_key io = Inr key" "length key = 32" "ii_nonce io = Inr nonce" "length nonce = 12"
    "init_main A cred_json io token path fs = (Inr printed, fs')" "getenv envKey = printed"
  shows "\<exists>m. NewCredManager A cred_json getenv None envKey path fs' = Inr m \<and> GetDeviceToken m = token \<and>
    cm_creds m = \<lparr>cr_DeviceToken = token, cr_MTLSCert = [], cr_MTLSKey = []\<rparr>"
  by (rule init_credential_opens [where getenv = getenv and envKey = envKey, OF assms(1) cred_json_ok assms(2-7)])

text \<open>
  A device arrives complete: any text of a \<open>device_add\<close> or \<open>device_update\<close> message within the read limit hands the registry exactly
  the device that was encoded, and nothing else changes.
\<close>

theorem device_message_arrives_complete:
  assumes "\<forall>x. \<bar>off x\<bar> < 1440" "device_ok (rfc_tf off) d" "e_Type e \<in> {''device_add'', ''device_update''}" "utf8_valid (e_TraceID e)"
    "time_ok (rfc_tf off) (e_TS e)" "\<not> cn_closed c" "spaced (Envelope_json (rfc_tf off) e (Device_json (rfc_tf off) d)) s" "length s \<le> limit"
  shows "\<exists>msg. Conn_Read c (receive_envelope limit (rfc_tf off) s) = Inr msg \<and>
    handle ops (wire_un (rfc_tf off)) now wr msg w =
      w\<lparr>dw_mgr := snd (if e_Type e = ''device_add'' then op_Add ops (dw_mgr w) d else op_Update ops (dw_mgr w) d)\<rparr>"
proof -
  note ok = rfc_tf_ok [OF assms(1)]
  let ?m = "e\<lparr>e_Payload := PRaw (bytes_of (json_text (Device_json (rfc_tf off) d)))\<rparr>"
  have "utf8_valid (e_Type e)" using assms(3) by (auto simp: utf8_valid_ascii)
  then have "receive_envelope limit (rfc_tf off) s = ReadMsg ?m"
    using receive_read [OF ok assms(5) _ assms(4) device_wf [OF assms(2) ok] assms(7), of "[]" limit] assms(8) by simp
  moreover have "un_device (wire_un (rfc_tf off)) (e_Payload ?m) = Inr d"
    using unmarshal_text [OF device_wf [OF assms(2) ok] device_decode [OF assms(2) ok]] by (simp add: wire_un_def)
  ultimately show ?thesis
    using assms(3,6) by (auto simp: Conn_Read_def handle_def handleDeviceAdd_def handleDeviceUpdate_def)
qed

text \<open>
  A time that was never set is sent all the same: the mark \<open>omitempty\<close> does not apply to \<open>time.Time\<close>, so a
  task that has not started carries a start in year 1.
\<close>

theorem unset_times_are_sent:
  assumes "t_StartedAt t = 0"
  shows "\<exists>ms. PrintTask_json (rfc_tf (\<lambda>_. 0)) ex t = JObj ms \<and> (''started_at'', JStr ''0001-01-01T00:00:00Z'') \<in> set ms"
proof -
  have "rfc3339_format 0 0 = Some ''0001-01-01T00:00:00Z''" by code_simp
  then show ?thesis using assms by (simp add: PrintTask_json_def member_def enc_time_def rfc_tf_def)
qed

section \<open>Witnesses\<close>

lemma demo_times: "0 \<le> t \<Longrightarrow> t < 10 \<Longrightarrow> time_ok (rfc_tf (\<lambda>_. 0)) t"
  using rfc3339_total [of t] by (simp add: time_ok_def rfc_tf_def days_before_def ns_per_second_def)

lemma demo_zone: "\<forall>x :: gotime. \<bar>0 :: int\<bar> < 1440"
  by simp

definition env_task :: Envelope where
  "env_task = \<lparr>e_Type = ''task'', e_TraceID = ''t1'', e_TS = 3, e_Payload = PRaw []\<rparr>"

definition task_N :: PrintTask where
  "task_N = task_B\<lparr>t_RetryCount := -1, t_Content := [0, 255], t_TraceID := ''t0''\<rparr>"

definition conn_1 :: Conn where
  "conn_1 = \<lparr>cn_endpoint = ''c'', cn_resolved = ''10.0.0.1'', cn_closed = False\<rparr>"

lemma task_N_ok: "task_ok (rfc_tf (\<lambda>_. 0)) [] task_N"
  by (simp add: task_ok_def params_ok_def task_N_def task_B_def zero_PrintTask_def go_consts demo_times is_int64_def utf8_valid_ascii)

lemma env_task_sel: "e_Type env_task = ''task''" "utf8_valid (e_TraceID env_task)" "time_ok (rfc_tf (\<lambda>_. 0)) (e_TS env_task)" "\<not> cn_closed conn_1"
  by (simp_all add: env_task_def demo_times is_int64_def utf8_valid_ascii conn_1_def)

lemma demo_spaced: "spaced (Envelope_json (rfc_tf (\<lambda>_. 0)) env_task (PrintTask_json (rfc_tf (\<lambda>_. 0)) [] task_N))
    (json_indent 0 (Envelope_json (rfc_tf (\<lambda>_. 0)) env_task (PrintTask_json (rfc_tf (\<lambda>_. 0)) [] task_N)))"
  by (rule json_indent_spaced [OF envelope_wf [OF rfc_tf_ok [OF demo_zone] env_task_sel(3) _ env_task_sel(2)
        task_wf [OF task_N_ok rfc_tf_ok [OF demo_zone]]]]) (simp add: env_task_sel(1) utf8_valid_ascii)

lemma enqueue_N: "Queue_Enqueue mem_bbolt AB_gob 5 (NewQueue 100 None) (Some (traced env_task task_N)) = (None, q_with [task_N])"
  "enqueue_clone 5 (traced env_task task_N) = task_N"
proof -
  have n: "enqueue_clone 5 task_N = task_N" "t_DeviceID task_N = ''D01''" "t_TaskID task_N \<noteq> []" "traced env_task task_N = task_N"
    by (simp_all add: enqueue_clone_def IsZero_def task_N_def task_B_def go_consts traced_def)
  then show "Queue_Enqueue mem_bbolt AB_gob 5 (NewQueue 100 None) (Some (traced env_task task_N)) = (None, q_with [task_N])"
    "enqueue_clone 5 (traced env_task task_N) = task_N" using enqueue_new [of task_N] by simp_all
qed

abbreviation demo_w :: "(mem_db Queue, Manager, unit) dworld" where
  "demo_w \<equiv> \<lparr>dw_queue = NewQueue 100 None, dw_mgr = NewManager, dw_sys = (), dw_out = []\<rparr>"

theorem agent_messages_are_readable_witness:
  "\<exists>s raw. encode_envelope (rfc_tf (\<lambda>_. 0)) (NewEnvelope 7 ''task_ack'' (PTaskAck \<lparr>ta_TaskID = ''B'', ta_Accepted = True, ta_Reason = []\<rparr>)) = Some s \<and>
     read_payload (rfc_tf (\<lambda>_. 0)) ''task_ack'' raw = Inr (PTaskAck \<lparr>ta_TaskID = ''B'', ta_Accepted = True, ta_Reason = []\<rparr>)"
proof -
  let ?e = "NewEnvelope 7 ''task_ack'' (PTaskAck \<lparr>ta_TaskID = ''B'', ta_Accepted = True, ta_Reason = []\<rparr>)"
  obtain s where s: "encode_envelope (rfc_tf (\<lambda>_. 0)) ?e = Some s"
    by (simp add: encode_envelope_def NewEnvelope_def demo_times is_int64_def)
  from agent_messages_are_readable [OF demo_zone s] show ?thesis
    using s by (auto simp: NewEnvelope_def utf8_valid_ascii)
qed

definition demo_text :: string where
  "demo_text = json_indent 0 (Envelope_json (rfc_tf (\<lambda>_. 0)) env_task (PrintTask_json (rfc_tf (\<lambda>_. 0)) [] task_N))"

lemma demo_text_length: "0 < length demo_text"
  using spaced_hd(1) [OF demo_spaced] unfolding demo_text_def by (auto simp: jws_def)

theorem task_message_arrives_complete_witness:
  "(\<exists>msg. Conn_Read conn_1 (receive_envelope (length demo_text) (rfc_tf (\<lambda>_. 0)) (demo_text @ [CHR 0x0A])) = Inr msg \<and>
     dw_queue (handle (ag_ops mem_bbolt AB_gob 5) (wire_un (rfc_tf (\<lambda>_. 0))) 5 None msg demo_w) = q_with [task_N]) \<and>
   (\<exists>x. Conn_Read conn_1 (receive_envelope (length demo_text - 1) (rfc_tf (\<lambda>_. 0)) (demo_text @ [CHR 0x0A])) = Inl x)"
proof -
  have ws: "all_ws [CHR 0x0A]" by (simp add: is_ws_def)
  note c = task_message_arrives_complete [OF demo_zone task_N_ok env_task_sel _ demo_spaced [folded demo_text_def] ws,
      of mem_bbolt AB_gob 5 demo_w None "q_with [task_N]" _ None]
  have "\<not> length demo_text \<le> length demo_text - 1" using demo_text_length by linarith
  then show ?thesis using c [of "length demo_text"] c [of "length demo_text - 1"] enqueue_N by auto
qed

theorem undecodable_task_is_refused_witness:
  "dw_out (handle (ag_ops mem_bbolt AB_gob 5) (wire_un (rfc_tf (\<lambda>_. 0))) 5 None (env_task\<lparr>e_Payload := PRaw (bytes_of ''nul'')\<rparr>) demo_w) =
     [NewEnvelope 5 ''task_ack'' (PTaskAck \<lparr>ta_TaskID = [], ta_Accepted = False, ta_Reason = ''bad payload''\<rparr>)]"
proof -
  have "json_parse ''nul'' = None"
    by (simp add: json_parse_def jws_def is_ws_def has_prefix_def jnumber_def is_digit_chars eval_nat_numeral)
  then have "undecodable (PrintTask_fields (rfc_tf (\<lambda>_. 0))) ''nul''" by (simp add: undecodable_def)
  from undecodable_task_is_refused [OF _ _ this, of "env_task\<lparr>e_Payload := PRaw (bytes_of ''nul'')\<rparr>" "ag_ops mem_bbolt AB_gob 5" 5 demo_w]
  show ?thesis by (simp add: env_task_sel)
qed

theorem task_message_stops_agent_witness:
  "fst (executeTaskLoop True [att NewManager] task_N) = Panicked"
proof -
  have "online_attempt (t_DeviceID task_N) (att NewManager)" by (rule online_none)
  moreover have "t_RetryCount task_N < 0" "\<not> TaskStatus_IsTerminal (t_Status task_N)" using task_B_sel by (simp_all add: task_N_def)
  moreover have "fst (executeTask True (att NewManager) task_N) \<noteq> None" by (simp add: executeTask_def get_none Let_def)
  ultimately show ?thesis
    using task_message_stops_agent [OF demo_zone task_N_ok env_task_sel _ demo_spaced [folded demo_text_def], of mem_bbolt AB_gob 5 demo_w
        "q_with [task_N]" "att NewManager" True "length demo_text" None "[]"] enqueue_N by auto
qed

theorem credentials_file_roundtrip_witness:
  "cred_Load demo_aead cred_json None ''f'' (replicate 32 5)
     (snd (cred_Save demo_aead cred_json \<lparr>si_mkdir = None, si_nonces = (Inr (replicate 12 7), Inr (replicate 12 8), Inr (replicate 12 9)),
        si_write = None\<rparr> ''f'' \<lparr>cr_DeviceToken = ''tok'', cr_MTLSCert = [], cr_MTLSKey = []\<rparr> (replicate 32 5) Map.empty)) =
   Inr \<lparr>cr_DeviceToken = ''tok'', cr_MTLSCert = [], cr_MTLSKey = []\<rparr>"
proof (rule credentials_file_roundtrip [OF demo_laws(1), where ?n1.0 = "replicate 12 7" and ?n2.0 = "replicate 12 8" and ?n3.0 = "replicate 12 9"])
  let ?r = "cred_Save demo_aead cred_json \<lparr>si_mkdir = None, si_nonces = (Inr (replicate 12 7), Inr (replicate 12 8), Inr (replicate 12 9)),
        si_write = None\<rparr> ''f'' \<lparr>cr_DeviceToken = ''tok'', cr_MTLSCert = [], cr_MTLSKey = []\<rparr> (replicate 32 5) Map.empty"
  show "?r = (None, snd ?r)"
    by (simp add: cred_Save_def encrypt_field_def Encrypt_def masterKeyLen_def demo_aead_def cred_json_def)
qed simp_all

theorem init_credential_file_opens_witness:
  "\<exists>m fs. NewCredManager demo_aead cred_json (\<lambda>_. b64_encode (replicate 32 5)) None ''K'' ''f'' fs = Inr m \<and> GetDeviceToken m = ''tok''"
proof -
  obtain fs where "init_main demo_aead cred_json \<lparr>ii_key = Inr (replicate 32 5), ii_nonce = Inr (replicate 12 7), ii_mkdir = None,
      ii_write = None\<rparr> ''tok'' ''f'' Map.empty = (Inr (b64_encode (replicate 32 5)), fs)"
    by (simp add: init_main_def init_encrypt_def demo_aead_def cred_json_def)
  from init_credential_file_opens [OF demo_laws(1) _ _ _ _ this, of "replicate 32 5" "replicate 12 7" "\<lambda>_. b64_encode (replicate 32 5)" "''K''"]
  show ?thesis by auto
qed

end
