(* ===== verification/Observability.thy ===== *)
theory Observability
  imports Errs NetAddr "HOL-Library.Char_ord"
begin

text \<open>
  \<^verbatim>\<open>src/internal/observability\<close>: the network metrics shared by the prober, the heartbeat and the
  operations API; the trace ids; the audit trail; the log level. Zap and lumberjack, which write the
  log files, are not part of the model: a log is the list of its entries.
\<close>

section \<open>Network metrics\<close>

record NetMetrics =
  m_dnsLatencyMs :: int
  m_resolvedIP :: string
  m_gatewayReach :: bool
  m_localNetReach :: bool
  m_netClass :: NetClass
  m_lastCheckAt :: gotime

definition NewNetMetrics :: NetMetrics where
  "NewNetMetrics = \<lparr>m_dnsLatencyMs = 0, m_resolvedIP = [], m_gatewayReach = False, m_localNetReach = False,
     m_netClass = NetClassOK, m_lastCheckAt = 0\<rparr>"

definition NetMetrics_Update ::
  "gotime \<Rightarrow> NetMetrics \<Rightarrow> int \<Rightarrow> string \<Rightarrow> bool \<Rightarrow> bool \<Rightarrow> NetClass \<Rightarrow> NetMetrics" where
  "NetMetrics_Update now m dnsLatencyMs resolvedIP gatewayReach localNetReach netClass =
     m\<lparr>m_dnsLatencyMs := dnsLatencyMs, m_resolvedIP := resolvedIP, m_gatewayReach := gatewayReach,
       m_localNetReach := localNetReach, m_netClass := netClass, m_lastCheckAt := now\<rparr>"

definition NetMetrics_UpdateNetClass :: "gotime \<Rightarrow> NetMetrics \<Rightarrow> NetClass \<Rightarrow> NetMetrics" where
  "NetMetrics_UpdateNetClass now m netClass = m\<lparr>m_netClass := netClass, m_lastCheckAt := now\<rparr>"

definition NetMetrics_UpdateDNS :: "gotime \<Rightarrow> NetMetrics \<Rightarrow> int \<Rightarrow> string \<Rightarrow> NetMetrics" where
  "NetMetrics_UpdateDNS now m dnsLatencyMs resolvedIP =
     m\<lparr>m_dnsLatencyMs := dnsLatencyMs, m_resolvedIP := resolvedIP, m_lastCheckAt := now\<rparr>"

definition NetMetrics_UpdateReach :: "gotime \<Rightarrow> NetMetrics \<Rightarrow> bool \<Rightarrow> bool \<Rightarrow> NetMetrics" where
  "NetMetrics_UpdateReach now m gatewayReach localNetReach =
     m\<lparr>m_gatewayReach := gatewayReach, m_localNetReach := localNetReach, m_lastCheckAt := now\<rparr>"

definition NetMetrics_Get :: "NetMetrics \<Rightarrow> int \<times> string \<times> bool \<times> bool \<times> NetClass \<times> gotime" where
  "NetMetrics_Get m = (m_dnsLatencyMs m, m_resolvedIP m, m_gatewayReach m, m_localNetReach m, m_netClass m,
     m_lastCheckAt m)"

definition NetMetrics_GetNetClass :: "NetMetrics \<Rightarrow> NetClass" where
  "NetMetrics_GetNetClass m = m_netClass m"

definition NetMetrics_ToNetTopology :: "NetMetrics \<Rightarrow> string \<Rightarrow> NetTopology" where
  "NetMetrics_ToNetTopology m endpoint =
     \<lparr>nt_Endpoint = endpoint, nt_ResolvedIP = m_resolvedIP m, nt_DNSLatencyMs = m_dnsLatencyMs m, nt_GatewayIP = [],
      nt_GatewayReach = m_gatewayReach m, nt_LocalNetReach = m_localNetReach m, nt_NetClass = m_netClass m,
      nt_LastCheckAt = m_lastCheckAt m\<rparr>"

text \<open>The struct \<open>NetMetricsSnapshot\<close> has the fields of the metrics without their lock.\<close>

definition NetMetrics_Snapshot :: "NetMetrics \<Rightarrow> NetMetrics" where
  "NetMetrics_Snapshot m =
     \<lparr>m_dnsLatencyMs = m_dnsLatencyMs m, m_resolvedIP = m_resolvedIP m, m_gatewayReach = m_gatewayReach m,
      m_localNetReach = m_localNetReach m, m_netClass = m_netClass m, m_lastCheckAt = m_lastCheckAt m\<rparr>"

section \<open>Trace ids\<close>

text \<open>\<open>byte(x >> n)\<close> of an integer: the arithmetic shift, reduced to eight bits.\<close>

definition byte_shr :: "int \<Rightarrow> nat \<Rightarrow> byte" where
  "byte_shr x n = word_of_int (x div 2 ^ n)"

text \<open>
  The sixteen bytes: from the random source, or \<open>None\<close> when it fails; \<open>nano\<close> and \<open>ms\<close> are the two
  readings of the clock.
\<close>

definition uuid_seed :: "bytes option \<Rightarrow> int \<Rightarrow> bytes" where
  "uuid_seed rnd nano = (case rnd of Some b \<Rightarrow> b | None \<Rightarrow> map (\<lambda>i. byte_shr nano (i mod 8)) [0..<16])"

definition uuid_bytes :: "bytes \<Rightarrow> int \<Rightarrow> bytes" where
  "uuid_bytes b ms =
     (let b = b[0 := byte_shr ms 8];
          b = b[1 := byte_shr ms 0];
          b = b[2 := byte_shr ms 24];
          b = b[3 := byte_shr ms 16];
          b = b[4 := byte_shr ms 40];
          b = b[5 := byte_shr ms 32];
          b = b[6 := or (and (b ! 6) 0x0F) 0x70]
      in b[8 := or (and (b ! 8) 0x3F) 0x80])"

definition EncodeToString :: "bytes \<Rightarrow> string" where
  "EncodeToString b = concat (map hex_byte b)"

definition generateUUIDv7 :: "bytes option \<Rightarrow> int \<Rightarrow> int \<Rightarrow> string" where
  "generateUUIDv7 rnd nano ms =
     (let b = uuid_bytes (uuid_seed rnd nano) ms
      in EncodeToString (take 4 b) @ ''-'' @
         EncodeToString (take 2 (drop 4 b)) @ ''-'' @
         EncodeToString (take 2 (drop 6 b)) @ ''-'' @
         EncodeToString (take 2 (drop 8 b)) @ ''-'' @
         EncodeToString (take 6 (drop 10 b)))"

text \<open>A context by the trace id it carries, if any; \<open>fresh\<close> is a newly generated id.\<close>

definition WithTraceID :: "string \<Rightarrow> string option \<Rightarrow> string \<Rightarrow> string option" where
  "WithTraceID fresh ctx traceID = Some (if traceID = [] then fresh else traceID)"

definition TraceIDFromCtx :: "string \<Rightarrow> string option option \<Rightarrow> string" where
  "TraceIDFromCtx fresh ctx =
     (case ctx of
        None \<Rightarrow> fresh
      | Some v \<Rightarrow> (case v of Some t \<Rightarrow> if t \<noteq> [] then t else fresh | None \<Rightarrow> fresh))"

section \<open>The log level\<close>

datatype Level = DebugLevel | InfoLevel | WarnLevel | ErrorLevel

definition parseLevel :: "string \<Rightarrow> goerror + Level" where
  "parseLevel level =
     (let l = to_lower level in
      if l = ''debug'' then Inr DebugLevel
      else if l = ''info'' then Inr InfoLevel
      else if l = ''warn'' then Inr WarnLevel
      else if l = ''error'' then Inr ErrorLevel
      else if l = [] then Inr InfoLevel
      else Inl (PlainError (''invalid log level: '' @ go_quote level)))"

text \<open>\<open>NewLogger\<close>: its error or the level of the logger; \<open>mkdir\<close> is the result of \<open>os.MkdirAll\<close>.\<close>

definition NewLogger :: "goerror option \<Rightarrow> string \<Rightarrow> string \<Rightarrow> goerror + Level" where
  "NewLogger mkdir logDir level =
     (if logDir = [] then Inl (New ErrConfigInvalid ''logDir is empty'')
      else case mkdir of
             Some err \<Rightarrow> Inl (Wrap ErrStorageIO ''mkdir log dir'' err)
           | None \<Rightarrow> parseLevel level)"

section \<open>The audit trail\<close>

type_synonym field = "string \<times> string"
type_synonym audit = "(string \<times> field list) list"

definition NewAuditLogger :: "goerror option \<Rightarrow> string \<Rightarrow> goerror + audit" where
  "NewAuditLogger mkdir logDir =
     (if logDir = [] then Inl (New ErrConfigInvalid ''logDir is empty'')
      else case mkdir of
             Some err \<Rightarrow> Inl (Wrap ErrStorageIO ''mkdir audit log dir'' err)
           | None \<Rightarrow> Inr [])"

definition AuditLogger_Log :: "audit \<Rightarrow> string \<Rightarrow> field list \<Rightarrow> audit" where
  "AuditLogger_Log a event fs = a @ [(event, fs)]"

definition AuditLogger_LogTaskReceived :: "audit \<Rightarrow> string \<Rightarrow> string \<Rightarrow> string \<Rightarrow> audit" where
  "AuditLogger_LogTaskReceived a taskID deviceID traceID =
     AuditLogger_Log a ''task_received''
       [(''event'', ''task_received''), (''task_id'', taskID), (''device_id'', deviceID), (''trace_id'', traceID)]"

definition AuditLogger_LogTaskExecuted :: "audit \<Rightarrow> string \<Rightarrow> string \<Rightarrow> string \<Rightarrow> int \<Rightarrow> audit" where
  "AuditLogger_LogTaskExecuted a taskID deviceID traceID retryCount =
     AuditLogger_Log a ''task_executed''
       [(''event'', ''task_executed''), (''task_id'', taskID), (''device_id'', deviceID), (''trace_id'', traceID), (''retry_count'', itoa retryCount)]"

definition AuditLogger_LogTaskRetry :: "audit \<Rightarrow> string \<Rightarrow> string \<Rightarrow> string \<Rightarrow> int \<Rightarrow> string \<Rightarrow> audit" where
  "AuditLogger_LogTaskRetry a taskID deviceID traceID retryCount errMsg =
     AuditLogger_Log a ''task_retry''
       [(''event'', ''task_retry''), (''task_id'', taskID), (''device_id'', deviceID), (''trace_id'', traceID), (''retry_count'', itoa retryCount), (''error'', errMsg)]"

definition AuditLogger_LogTaskCancelled :: "audit \<Rightarrow> string \<Rightarrow> string \<Rightarrow> audit" where
  "AuditLogger_LogTaskCancelled a taskID traceID =
     AuditLogger_Log a ''task_cancelled''
       [(''event'', ''task_cancelled''), (''task_id'', taskID), (''trace_id'', traceID)]"

definition AuditLogger_LogDeviceAdded :: "audit \<Rightarrow> string \<Rightarrow> string \<Rightarrow> audit" where
  "AuditLogger_LogDeviceAdded a deviceID name =
     AuditLogger_Log a ''device_added''
       [(''event'', ''device_added''), (''device_id'', deviceID), (''name'', name)]"

definition AuditLogger_LogDeviceRemoved :: "audit \<Rightarrow> string \<Rightarrow> audit" where
  "AuditLogger_LogDeviceRemoved a deviceID =
     AuditLogger_Log a ''device_removed''
       [(''event'', ''device_removed''), (''device_id'', deviceID)]"

definition AuditLogger_LogDeviceUpdated :: "audit \<Rightarrow> string \<Rightarrow> audit" where
  "AuditLogger_LogDeviceUpdated a deviceID =
     AuditLogger_Log a ''device_updated''
       [(''event'', ''device_updated''), (''device_id'', deviceID)]"

definition AuditLogger_LogUpgrade :: "audit \<Rightarrow> string \<Rightarrow> string \<Rightarrow> audit" where
  "AuditLogger_LogUpgrade a version traceID =
     AuditLogger_Log a ''upgrade''
       [(''event'', ''upgrade''), (''version'', version), (''trace_id'', traceID)]"

definition AuditLogger_LogRollback :: "audit \<Rightarrow> string \<Rightarrow> string \<Rightarrow> audit" where
  "AuditLogger_LogRollback a version traceID =
     AuditLogger_Log a ''rollback''
       [(''event'', ''rollback''), (''version'', version), (''trace_id'', traceID)]"

definition AuditLogger_LogAuthFailed :: "audit \<Rightarrow> string \<Rightarrow> string \<Rightarrow> audit" where
  "AuditLogger_LogAuthFailed a reason traceID =
     AuditLogger_Log a ''auth_failed''
       [(''event'', ''auth_failed''), (''error'', reason), (''trace_id'', traceID)]"

definition AuditLogger_LogDomainUpdate :: "audit \<Rightarrow> string \<Rightarrow> string \<Rightarrow> audit" where
  "AuditLogger_LogDomainUpdate a endpoint traceID =
     AuditLogger_Log a ''domain_update''
       [(''event'', ''domain_update''), (''cloud_endpoint'', endpoint), (''trace_id'', traceID)]"

definition AuditLogger_LogDomainRollback :: "audit \<Rightarrow> string \<Rightarrow> string \<Rightarrow> audit" where
  "AuditLogger_LogDomainRollback a endpoint traceID =
     AuditLogger_Log a ''domain_rollback''
       [(''event'', ''domain_rollback''), (''cloud_endpoint'', endpoint), (''trace_id'', traceID)]"

definition AuditLogger_LogOpsAccess :: "audit \<Rightarrow> string \<Rightarrow> string \<Rightarrow> string \<Rightarrow> audit" where
  "AuditLogger_LogOpsAccess a endpoint meth clientIP =
     AuditLogger_Log a ''ops_access''
       [(''event'', ''ops_access''), (''method'', meth), (''client_ip'', clientIP), (''path'', endpoint)]"

definition AuditLogger_LogNetClassChange :: "audit \<Rightarrow> string \<Rightarrow> string \<Rightarrow> string \<Rightarrow> audit" where
  "AuditLogger_LogNetClassChange a frm t traceID =
     AuditLogger_Log a ''net_class_change''
       [(''event'', ''net_class_change''), (''from'', frm), (''to'', t), (''trace_id'', traceID)]"

section \<open>Properties of trace ids\<close>

lemma length_uuid_bytes [simp]: "length (uuid_bytes b ms) = length b"
  by (simp add: uuid_bytes_def Let_def)

lemma uuid_bytes_nth:
  assumes "length b = 16"
  shows "uuid_bytes b ms ! 6 = or (and (b ! 6) 0x0F) 0x70" "uuid_bytes b ms ! 8 = or (and (b ! 8) 0x3F) 0x80"
    "map ((!) (uuid_bytes b ms)) [4, 5, 2, 3, 0, 1] = map (byte_shr ms) [40, 32, 24, 16, 8, 0]"
    "9 \<le> i \<Longrightarrow> i < 16 \<Longrightarrow> uuid_bytes b ms ! i = b ! i"
  using assms by (simp_all add: uuid_bytes_def Let_def)

lemma hex_byte_version: "hex_byte (or (and x 0x0F) 0x70) ! 0 = CHR ''7''"
proof -
  have "drop_bit 4 (or (and x 0x0F) 0x70) = (7 :: byte)" by (simp add: drop_bit_or drop_bit_and)
  then have "unat (or (and x 0x0F) 0x70 :: byte) div 16 = 7"
    using unat_drop_bit_eq [of 4 "or (and x 0x0F) 0x70 :: byte"] by (simp add: drop_bit_eq_div)
  then show ?thesis by (simp add: hex_byte_def)
qed

lemma hex_byte_variant: "hex_byte (or (and x 0x3F) 0x80) ! 0 \<in> set ''89ab''"
proof -
  let ?y = "or (and x 0x3F) 0x80 :: byte"
  have "drop_bit 6 ?y = 2" by (simp add: drop_bit_or drop_bit_and)
  then have "unat ?y div 64 = 2" using unat_drop_bit_eq [of 6 ?y] by (simp add: drop_bit_eq_div)
  then have "unat ?y div 16 \<in> {8, 9, 10, 11}" by auto
  then show ?thesis by (auto simp: hex_byte_def)
qed

lemma list16:
  assumes "length b = 16"
  shows "\<exists>b0 b1 b2 b3 b4 b5 b6 b7 b8 b9 bA bB bC bD bE bF.
    b = [b0, b1, b2, b3, b4, b5, b6, b7, b8, b9, bA, bB, bC, bD, bE, bF]"
  using assms by (auto simp: length_Suc_conv numeral_eq_Suc)

section \<open>Properties\<close>

text \<open>
  The shape of a trace id, whether the random source works or not: 36 characters, dashes after
  the 8th, 12th, 16th and 20th digit, the version digit 7 and the variant digit one of 8, 9, a, b.
\<close>

theorem uuid_shape:
  assumes "\<And>b. rnd = Some b \<Longrightarrow> length b = 16"
  shows "length (generateUUIDv7 rnd nano ms) = 36 \<and>
    map ((!) (generateUUIDv7 rnd nano ms)) [8, 13, 18, 23] = ''----'' \<and>
    generateUUIDv7 rnd nano ms ! 14 = CHR ''7'' \<and> generateUUIDv7 rnd nano ms ! 19 \<in> set ''89ab''"
proof -
  define u where "u = uuid_bytes (uuid_seed rnd nano) ms"
  have l: "length (uuid_seed rnd nano) = 16" using assms by (auto simp: uuid_seed_def split: option.splits)
  then have "length u = 16" by (simp add: u_def)
  from list16 [OF this] obtain b0 b1 b2 b3 b4 b5 b6 b7 b8 b9 bA bB bC bD bE bF where
    u: "u = [b0, b1, b2, b3, b4, b5, b6, b7, b8, b9, bA, bB, bC, bD, bE, bF]" by blast
  define hi lo where "hi = (\<lambda>b. hex_byte b ! 0)" and "lo = (\<lambda>b. hex_byte b ! 1)"
  have h: "hex_byte b = [hi b, lo b]" for b by (simp add: hi_def lo_def hex_byte_def)
  have six: "hi b6 = CHR ''7''" and eight: "hi b8 \<in> set ''89ab''"
    using uuid_bytes_nth(1,2) [OF l, of ms, folded u_def] hex_byte_version hex_byte_variant
    by (auto simp: u hi_def)
  have g: "generateUUIDv7 rnd nano ms = [hi b0, lo b0, hi b1, lo b1, hi b2, lo b2, hi b3, lo b3, CHR ''-'',
      hi b4, lo b4, hi b5, lo b5, CHR ''-'', hi b6, lo b6, hi b7, lo b7, CHR ''-'', hi b8, lo b8, hi b9, lo b9,
      CHR ''-'', hi bA, lo bA, hi bB, lo bB, hi bC, lo bC, hi bD, lo bD, hi bE, lo bE, hi bF, lo bF]"
    unfolding generateUUIDv7_def u_def [symmetric] Let_def u EncodeToString_def by (simp add: h)
  show ?thesis unfolding g using six eight by simp
qed

theorem uuid_shape_witness:
  "generateUUIDv7 None 1700000000000000000 1700000000000 ! 14 = CHR ''7''"
  using uuid_shape [of None 1700000000000000000 1700000000000] by simp

text \<open>
  Trace ids are not ordered by time, which is what a version 7 UUID is for: the pairs of timestamp
  bytes are written lowest first, so an id made one millisecond later can sort before an earlier one.
\<close>

theorem uuid_not_time_ordered:
  "generateUUIDv7 (Some (replicate 16 0)) n 65536 < generateUUIDv7 (Some (replicate 16 0)) n 65535"
  by code_simp

end
