(* ===== verification/Heartbeat.thy ===== *)
theory Heartbeat
  imports Reporter Observability TaskQueue DeviceMgr
begin

text \<open>
  \<^verbatim>\<open>src/internal/cloudlink/heartbeat.go\<close>: the periodic message that shows the agent is alive, and the
  count of missed ones that triggers a reconnect. The queue and the device manager are reached through
  their interfaces: the operations are arguments, their laws the locales of \<open>Interfaces\<close>.
\<close>

section \<open>State\<close>

definition defaultHeartbeatInterval :: duration where "defaultHeartbeatInterval = 30 * Second"
definition heartbeatMissThreshold :: int where "heartbeatMissThreshold = 3"

record HeartbeatConfig =
  hc_AgentID :: string
  hc_Version :: string
  hc_CloudEndpoint :: string
  hc_Interval :: duration

record Heartbeat =
  hb_cfg :: HeartbeatConfig
  hb_conn :: "nat option"
  hb_missCount :: int
  hb_handler :: bool
  hb_running :: bool

definition NewHeartbeat :: "HeartbeatConfig \<Rightarrow> nat option \<Rightarrow> Heartbeat" where
  "NewHeartbeat cfg conn =
     \<lparr>hb_cfg = (if hc_Interval cfg \<le> 0 then cfg\<lparr>hc_Interval := defaultHeartbeatInterval\<rparr> else cfg),
      hb_conn = conn, hb_missCount = 0, hb_handler = False, hb_running = False\<rparr>"

definition Heartbeat_OnConnLoss :: "Heartbeat \<Rightarrow> Heartbeat" where
  "Heartbeat_OnConnLoss h = h\<lparr>hb_handler := True\<rparr>"

definition Heartbeat_UpdateConn :: "Heartbeat \<Rightarrow> nat option \<Rightarrow> Heartbeat" where
  "Heartbeat_UpdateConn h conn = h\<lparr>hb_conn := conn, hb_missCount := 0\<rparr>"

definition Heartbeat_Start :: "Heartbeat \<Rightarrow> bool \<times> Heartbeat" where
  "Heartbeat_Start h = (if hb_running h then (False, h) else (True, h\<lparr>hb_running := True\<rparr>))"

definition Heartbeat_Stop :: "Heartbeat \<Rightarrow> bool \<times> Heartbeat" where
  "Heartbeat_Stop h = (if \<not> hb_running h then (False, h) else (True, h\<lparr>hb_running := False\<rparr>))"

section \<open>One heartbeat\<close>

text \<open>\<open>recordMiss\<close>: whether the handler is started in a goroutine of its own.\<close>

definition Heartbeat_recordMiss :: "Heartbeat \<Rightarrow> bool \<times> Heartbeat" where
  "Heartbeat_recordMiss h =
     (let miss = hb_missCount h + 1
      in (heartbeatMissThreshold \<le> miss \<and> hb_handler h, h\<lparr>hb_missCount := miss\<rparr>))"

text \<open>The loop of \<open>sendOnce\<close> over the devices; the queue may be nil.\<close>

fun count_devices :: "(string \<Rightarrow> int) option \<Rightarrow> Device list \<Rightarrow> int \<Rightarrow> int \<Rightarrow> int \<times> int" where
  "count_devices pc [] online pending = (online, pending)"
| "count_devices pc (d # devs) online pending =
     count_devices pc devs
       (if d_Status d = DeviceStatusOnline then online + 1 else online)
       (case pc of None \<Rightarrow> pending | Some f \<Rightarrow> pending + f (d_DeviceID d))"

definition heartbeat_payload ::
  "gotime \<Rightarrow> HeartbeatConfig \<Rightarrow> Device list option \<Rightarrow> (string \<Rightarrow> int) option \<Rightarrow> NetMetrics option \<Rightarrow> HeartbeatPayload" where
  "heartbeat_payload now cfg devs pc metrics =
     (let (online, pending) = (case devs of None \<Rightarrow> (0, 0) | Some ds \<Rightarrow> count_devices pc ds 0 0);
          netClass = (case metrics of None \<Rightarrow> NetClassOK | Some m \<Rightarrow> NetMetrics_GetNetClass m)
      in \<lparr>hp_AgentID = hc_AgentID cfg, hp_Version = hc_Version cfg, hp_OnlineDevices = online,
          hp_PendingTasks = pending, hp_CloudEndpoint = hc_CloudEndpoint cfg, hp_NetClass = netClass,
          hp_Timestamp = now\<rparr>)"

text \<open>The reports of the devices' states after a heartbeat; each takes one write result.\<close>

fun report_devices ::
  "gotime \<Rightarrow> goerror option list \<Rightarrow> Device list \<Rightarrow> Reporter \<Rightarrow> Envelope list \<times> Reporter" where
  "report_devices now wrs [] r = ([], r)"
| "report_devices now wrs (d # devs) r =
     (let wr = (case wrs of [] \<Rightarrow> None | w # _ \<Rightarrow> w);
          (_, out, r1) = Reporter_ReportDeviceStatus now wr r (d_DeviceID d) (d_Status d);
          (outs, r2) = report_devices now (tl wrs) devs r1
      in (out @ outs, r2))"

text \<open>
  What one heartbeat meets: the instant, the devices and the pending counts (\<open>None\<close> for a nil manager
  or queue), the list of devices after the write, the metrics, the result of the write and of the
  reports' writes.
\<close>

record beat =
  bt_now :: gotime
  bt_devs :: "Device list option"
  bt_count :: "(string \<Rightarrow> int) option"
  bt_devs_after :: "Device list"
  bt_metrics :: "NetMetrics option"
  bt_write :: "goerror option"
  bt_writes :: "goerror option list"

text \<open>\<open>sendOnce\<close>: whether the handler was started, what went out, and the two states; the reporter may be nil.\<close>

definition Heartbeat_sendOnce ::
  "beat \<Rightarrow> Heartbeat \<Rightarrow> Reporter option \<Rightarrow> bool \<times> Envelope list \<times> Heartbeat \<times> Reporter option" where
  "Heartbeat_sendOnce bt h rep =
     (case hb_conn h of
        None \<Rightarrow> (case Heartbeat_recordMiss h of (fired, h1) \<Rightarrow> (fired, [], h1, rep))
      | Some conn \<Rightarrow>
          let env = NewEnvelope (bt_now bt) ''heartbeat''
                (PHeartbeat (heartbeat_payload (bt_now bt) (hb_cfg h) (bt_devs bt) (bt_count bt) (bt_metrics bt)))
          in case bt_write bt of
               Some err \<Rightarrow> (case Heartbeat_recordMiss h of (fired, h1) \<Rightarrow> (fired, [], h1, rep))
             | None \<Rightarrow>
                 let (outs, rep1) =
                       (if bt_devs bt \<noteq> None then
                          (case rep of
                             None \<Rightarrow> ([], None)
                           | Some r \<Rightarrow> (case report_devices (bt_now bt) (bt_writes bt) (bt_devs_after bt) r of
                                          (outs, r1) \<Rightarrow> (outs, Some r1)))
                        else ([], rep))
                 in (False, env # outs, h\<lparr>hb_missCount := 0\<rparr>, rep1))"

text \<open>
  The goroutine: one heartbeat at once and one at each tick, until its context ends (the end of the
  list); the handler's starts are collected.
\<close>

fun Heartbeat_loop :: "beat list \<Rightarrow> Heartbeat \<Rightarrow> Reporter option \<Rightarrow> bool list \<times> Envelope list \<times> Heartbeat \<times> Reporter option" where
  "Heartbeat_loop [] h rep = ([], [], h, rep)"
| "Heartbeat_loop (bt # bts) h rep =
     (let (fired, out, h1, rep1) = Heartbeat_sendOnce bt h rep;
          (fs, outs, h2, rep2) = Heartbeat_loop bts h1 rep1
      in (fired # fs, out @ outs, h2, rep2))"

section \<open>What a heartbeat counts\<close>

lemma count_devices_acc:
  "count_devices pc devs online pending =
     (online + int (length (filter (\<lambda>d. d_Status d = DeviceStatusOnline) devs)),
      pending + (case pc of None \<Rightarrow> 0 | Some f \<Rightarrow> sum_list (map (\<lambda>d. f (d_DeviceID d)) devs)))"
  by (induction devs arbitrary: online pending) (auto split: option.splits)

text \<open>
  A manager with a queue, as the heartbeat needs them: the lister's and the counter's laws together say
  that a heartbeat counts every online device and every pending task of a known device exactly once.
\<close>

locale heartbeat_view = device_lister lister lookup inv + pending_counter count pending
  for lister :: "'m \<Rightarrow> Device list" and lookup inv
    and count :: "'q \<Rightarrow> string \<Rightarrow> int" and pending
begin

lemma lister_ids: "inv m \<Longrightarrow> d_DeviceID ` set (lister m) = {i. \<exists>d. lookup m i = Some d \<and> d_DeviceID d = i}"
  using list_mem by (auto simp: image_iff)

lemma online_count:
  assumes "inv m"
  shows "length (filter (\<lambda>d. d_Status d = DeviceStatusOnline) (lister m)) =
    card {i. \<exists>d. lookup m i = Some d \<and> d_DeviceID d = i \<and> d_Status d = DeviceStatusOnline}"
proof -
  let ?ds = "filter (\<lambda>d. d_Status d = DeviceStatusOnline) (lister m)"
  have "distinct (map d_DeviceID ?ds)" using list_ids [OF assms] by (simp add: distinct_map_filter)
  then have "card (d_DeviceID ` set ?ds) = length ?ds" using distinct_card [of "map d_DeviceID ?ds"] by simp
  moreover have "d_DeviceID ` set ?ds =
      {i. \<exists>d. lookup m i = Some d \<and> d_DeviceID d = i \<and> d_Status d = DeviceStatusOnline}"
    using list_mem [OF assms] by (auto simp: image_iff)
  ultimately show ?thesis by simp
qed

lemma pending_count:
  assumes "inv m"
  shows "sum_list (map (\<lambda>d. count q (d_DeviceID d)) (lister m)) =
    int (\<Sum>i \<in> {i. \<exists>d. lookup m i = Some d \<and> d_DeviceID d = i}. length (pending q i))"
proof -
  have "sum_list (map (\<lambda>d. count q (d_DeviceID d)) (lister m)) =
      (\<Sum>i \<in> set (map d_DeviceID (lister m)). int (length (pending q i)))"
    using sum_list_distinct_conv_sum_set [OF list_ids [OF assms], of "\<lambda>i. int (length (pending q i))"]
    by (simp add: count_length o_def)
  then show ?thesis using lister_ids [OF assms] by simp
qed

end

interpretation hbview: heartbeat_view Manager_List Manager_Get mgr_inv Queue_PendingCount Queue_ListPending
  by unfold_locales

section \<open>Counting the misses\<close>

text \<open>A beat misses when there is no connection or the write fails.\<close>

definition missed :: "nat option \<Rightarrow> beat \<Rightarrow> bool" where
  "missed conn bt \<longleftrightarrow> conn = None \<or> bt_write bt \<noteq> None"

lemma sendOnce_miss:
  "missed (hb_conn h) bt \<Longrightarrow> Heartbeat_sendOnce bt h rep =
     (3 \<le> hb_missCount h + 1 \<and> hb_handler h, [], h\<lparr>hb_missCount := hb_missCount h + 1\<rparr>, rep)"
  by (auto simp: missed_def Heartbeat_sendOnce_def Heartbeat_recordMiss_def heartbeatMissThreshold_def Let_def
      split: option.splits)

lemma sendOnce_hit:
  "\<not> missed (hb_conn h) bt \<Longrightarrow> \<exists>outs rep'. Heartbeat_sendOnce bt h rep =
     (False, NewEnvelope (bt_now bt) ''heartbeat''
        (PHeartbeat (heartbeat_payload (bt_now bt) (hb_cfg h) (bt_devs bt) (bt_count bt) (bt_metrics bt))) # outs,
      h\<lparr>hb_missCount := 0\<rparr>, rep')"
  by (auto simp: missed_def Heartbeat_sendOnce_def Let_def split: option.splits prod.splits)

text \<open>The misses in a row after some beats.\<close>

fun misses :: "nat option \<Rightarrow> beat list \<Rightarrow> nat \<Rightarrow> nat" where
  "misses conn [] n = n"
| "misses conn (bt # bts) n = misses conn bts (if missed conn bt then n + 1 else 0)"

lemma misses_append [simp]: "misses conn (xs @ ys) n = misses conn ys (misses conn xs n)"
  by (induction xs arbitrary: n) auto

lemma loop_misses:
  "hb_missCount h = int n \<Longrightarrow> Heartbeat_loop bts h rep = (fired, out, h', rep') \<Longrightarrow>
     hb_missCount h' = int (misses (hb_conn h) bts n) \<and>
     fired = map (\<lambda>i. hb_handler h \<and> 3 \<le> misses (hb_conn h) (take (Suc i) bts) n) [0..<length bts]"
proof (induction bts arbitrary: h rep n fired out)
  case Nil
  then show ?case by simp
next
  case (Cons bt bts)
  obtain f o1 h1 rep1 where s: "Heartbeat_sendOnce bt h rep = (f, o1, h1, rep1)" by (cases "Heartbeat_sendOnce bt h rep") auto
  obtain fs o2 where l: "Heartbeat_loop bts h1 rep1 = (fs, o2, h', rep')" and fired: "fired = f # fs"
    using Cons.prems(2) s by (auto split: prod.splits)
  let ?n = "if missed (hb_conn h) bt then n + 1 else 0"
  have h1: "hb_missCount h1 = int ?n" "hb_conn h1 = hb_conn h" "hb_handler h1 = hb_handler h"
    "f \<longleftrightarrow> hb_handler h \<and> 3 \<le> ?n"
    using s Cons.prems(1) sendOnce_miss [of h bt rep] sendOnce_hit [of h bt rep] by (cases "missed (hb_conn h) bt"; auto)+
  have u: "map F [0..<length (bt # bts)] = F 0 # map (\<lambda>i. F (Suc i)) [0..<length bts]" for F :: "nat \<Rightarrow> bool"
    by (simp add: upt_conv_Cons map_Suc_upt [symmetric] del: upt_Suc)
  show ?case unfolding u fired using Cons.IH [OF h1(1) l] h1 by simp
qed

lemma misses_three:
  "3 \<le> misses conn xs 0 \<longleftrightarrow> (\<exists>us a b c. xs = us @ [a, b, c] \<and> missed conn a \<and> missed conn b \<and> missed conn c)"
proof (cases "length xs < 3")
  case True
  have "misses conn ys n \<le> length ys + n" for ys n
  proof (induction ys arbitrary: n)
    case (Cons y ys)
    then show ?case using Cons.IH [of "Suc n"] Cons.IH [of 0] by auto
  qed simp
  from this [of xs 0] True show ?thesis by auto
next
  case False
  define us where "us = take (length xs - 3) xs"
  define ys where "ys = drop (length xs - 3) xs"
  have "length ys = 3" using False by (simp add: ys_def)
  then obtain a b c where "ys = [a, b, c]" by (auto simp: numeral_3_eq_3 length_Suc_conv)
  then have abc: "drop (length xs - 3) xs = [a, b, c]" by (simp add: ys_def)
  have xs: "xs = us @ [a, b, c]" unfolding us_def using abc by (metis append_take_drop_id)
  show ?thesis unfolding xs by auto
qed

section \<open>Properties\<close>

text \<open>
  What a heartbeat says. With a live connection the first message that goes out is a heartbeat
  whose counts are right: the number of registered devices that are online, and the number of tasks
  pending over all registered devices, each counted once.
\<close>

theorem heartbeat_counts:
  assumes "mgr_inv m" "hb_conn h = Some conn" "bt_write bt = None"
    "bt_devs bt = Some (Manager_List m)" "bt_count bt = Some (Queue_PendingCount q)"
  shows "\<exists>p outs h' rep'. Heartbeat_sendOnce bt h rep =
      (False, NewEnvelope (bt_now bt) ''heartbeat'' (PHeartbeat p) # outs, h', rep') \<and> hb_missCount h' = 0 \<and>
    hp_OnlineDevices p = int (card {i. \<exists>d. Manager_Get m i = Some d \<and> d_Status d = DeviceStatusOnline}) \<and>
    hp_PendingTasks p = int (\<Sum>i \<in> dom (Manager_Get m). length (Queue_ListPending q i))"
proof -
  have id: "Manager_Get m i = Some d \<and> d_DeviceID d = i \<longleftrightarrow> Manager_Get m i = Some d" for i d
    using mgr_inv_get(1) [OF assms(1)] by (auto simp: Manager_Get_def)
  have on: "{i. \<exists>d. Manager_Get m i = Some d \<and> d_DeviceID d = i \<and> d_Status d = DeviceStatusOnline} =
      {i. \<exists>d. Manager_Get m i = Some d \<and> d_Status d = DeviceStatusOnline}"
    and all: "{i. \<exists>d. Manager_Get m i = Some d \<and> d_DeviceID d = i} = dom (Manager_Get m)"
    using id by blast+
  have "\<not> missed (hb_conn h) bt" using assms by (simp add: missed_def)
  from sendOnce_hit [OF this, of rep] obtain outs rep' where
    s: "Heartbeat_sendOnce bt h rep = (False, NewEnvelope (bt_now bt) ''heartbeat''
        (PHeartbeat (heartbeat_payload (bt_now bt) (hb_cfg h) (bt_devs bt) (bt_count bt) (bt_metrics bt))) # outs,
      h\<lparr>hb_missCount := 0\<rparr>, rep')" by blast
  show ?thesis
    unfolding s using hbview.online_count [OF assms(1)] hbview.pending_count [OF assms(1), of q] assms(4,5) on all
    by (auto simp: heartbeat_payload_def count_devices_acc)
qed

text \<open>
  (C32) The reconnect trigger. Over a run of heartbeats on one connection state, starting with no miss,
  the handler is started at a beat exactly when that beat and the two before it all missed.
\<close>

theorem heartbeat_miss_threshold:
  assumes "hb_missCount h = 0" "hb_handler h" "Heartbeat_loop bts h rep = (fired, out, h', rep')"
  shows "length fired = length bts \<and> (\<forall>i < length bts. fired ! i \<longleftrightarrow>
    (\<exists>us a b c. take (Suc i) bts = us @ [a, b, c] \<and> missed (hb_conn h) a \<and> missed (hb_conn h) b \<and> missed (hb_conn h) c))"
  using loop_misses [of h 0 bts rep] assms by (simp add: misses_three)

definition demo_beat :: "goerror option \<Rightarrow> beat" where
  "demo_beat wr = \<lparr>bt_now = 1, bt_devs = Some [], bt_count = None, bt_devs_after = [], bt_metrics = None,
     bt_write = wr, bt_writes = []\<rparr>"

definition demo_hb :: Heartbeat where
  "demo_hb = Heartbeat_OnConnLoss (NewHeartbeat \<lparr>hc_AgentID = ''a'', hc_Version = ''0.1.0'', hc_CloudEndpoint = ''c'',
     hc_Interval = 0\<rparr> (Some 0))"

definition demo_online :: Device where
  "demo_online = zero_Device\<lparr>d_DeviceID := ''PRN001'', d_Name := ''front desk'', d_IP := ''10.0.0.9'',
     d_Status := DeviceStatusOnline\<rparr>"

definition demo_registry :: Manager where
  "demo_registry = snd (Manager_Add 5 NewManager demo_online)"

theorem heartbeat_counts_witness:
  "\<exists>p outs h' rep'. Heartbeat_sendOnce ((demo_beat None)\<lparr>bt_devs := Some (Manager_List demo_registry),
       bt_count := Some (Queue_PendingCount (NewQueue 10 None))\<rparr>) demo_hb None =
      (False, NewEnvelope 1 ''heartbeat'' (PHeartbeat p) # outs, h', rep') \<and> hp_PendingTasks p = 0"
proof -
  have "mgr_inv demo_registry"
    unfolding demo_registry_def by (rule Add_inv) (simp add: mgr_inv_def NewManager_def)
  from heartbeat_counts [OF this, of demo_hb 0 "(demo_beat None)\<lparr>bt_devs := Some (Manager_List demo_registry),
       bt_count := Some (Queue_PendingCount (NewQueue 10 None))\<rparr>" "NewQueue 10 None" None]
  show ?thesis
    by (auto simp: demo_hb_def demo_beat_def Heartbeat_OnConnLoss_def NewHeartbeat_def Queue_ListPending_def
        Queue_get_def NewQueue_def)
qed

theorem heartbeat_miss_threshold_witness:
  "fst (Heartbeat_loop (demo_beat None # replicate 3 (demo_beat (Some (PlainError ''eof'')))) demo_hb None) = [False, False, False, True]"
proof -
  let ?bts = "demo_beat None # replicate 3 (demo_beat (Some (PlainError ''eof'')))"
  obtain fired out h' rep' where r: "Heartbeat_loop ?bts demo_hb None = (fired, out, h', rep')" by (rule prod_cases4)
  have n: "missed (hb_conn demo_hb) (demo_beat wr) \<longleftrightarrow> wr \<noteq> None" for wr
    by (simp add: missed_def demo_hb_def demo_beat_def Heartbeat_OnConnLoss_def NewHeartbeat_def)
  have t: "length fired = 4" "\<And>i. i < 4 \<Longrightarrow> fired ! i \<longleftrightarrow> (\<exists>us a b c. take (Suc i) ?bts = us @ [a, b, c] \<and>
      missed (hb_conn demo_hb) a \<and> missed (hb_conn demo_hb) b \<and> missed (hb_conn demo_hb) c)"
    using heartbeat_miss_threshold [OF _ _ r] by (simp_all add: demo_hb_def Heartbeat_OnConnLoss_def NewHeartbeat_def)
  have "\<not> fired ! 0" "\<not> fired ! 1" "\<not> fired ! 2" "fired ! 3"
    using t(2) [of 0] t(2) [of 1] t(2) [of 2] t(2) [of 3] n by (auto simp: eval_nat_numeral append_eq_Cons_conv)
  then have "fired = [False, False, False, True]"
    using t(1) by (auto intro!: nth_equalityI simp: eval_nat_numeral less_Suc_eq)
  then show ?thesis unfolding r by simp
qed

end
