(* ===== verification/Config.thy ===== *)
theory Config
  imports Observability CloudConn
begin

text \<open>
  \<^verbatim>\<open>src/internal/config\<close>: loading, overriding from the environment, validating, migrating and saving
  the agent's configuration. The YAML library is a parameter (\<open>unmarshal\<close>, \<open>marshal\<close>), as are the
  results of the system calls; the file system is a map from path to content.
\<close>

section \<open>Overrides from the environment\<close>

definition envPrefix :: string where "envPrefix = ''CPA_''"

text \<open>An override by text, and one by a number that is ignored when it does not parse.\<close>

definition env_text :: "(string \<Rightarrow> string) \<Rightarrow> string \<Rightarrow> (string \<Rightarrow> AgentConfig \<Rightarrow> AgentConfig) \<Rightarrow> AgentConfig \<Rightarrow> AgentConfig" where
  "env_text getenv name upd cfg =
     (let v = getenv (envPrefix @ name) in if v \<noteq> [] then upd v cfg else cfg)"

definition env_int :: "(string \<Rightarrow> string) \<Rightarrow> string \<Rightarrow> (int \<Rightarrow> AgentConfig \<Rightarrow> AgentConfig) \<Rightarrow> AgentConfig \<Rightarrow> AgentConfig" where
  "env_int getenv name upd cfg =
     (let v = getenv (envPrefix @ name)
      in if v \<noteq> [] then (case atoi v of Some n \<Rightarrow> upd n cfg | None \<Rightarrow> cfg) else cfg)"

definition set_derived :: "AgentConfig \<Rightarrow> AgentConfig" where
  "set_derived cfg = cfg\<lparr>c_Cloud := (c_Cloud cfg)\<lparr>cc_DerivedURL := DeriveCloudURL cfg\<rparr>\<rparr>"

definition ApplyEnvOverrides :: "(string \<Rightarrow> string) \<Rightarrow> AgentConfig \<Rightarrow> AgentConfig" where
  "ApplyEnvOverrides getenv cfg0 =
     (let cfg1 = env_text getenv ''CLOUD_ENDPOINT'' (\<lambda>v c. c\<lparr>c_Cloud := (c_Cloud c)\<lparr>cc_Endpoint := v\<rparr>\<rparr>) cfg0;
          cfg2 = env_text getenv ''CLOUD_PROTOCOL'' (\<lambda>v c. c\<lparr>c_Cloud := (c_Cloud c)\<lparr>cc_Protocol := v\<rparr>\<rparr>) cfg1;
          cfg3 = env_text getenv ''CLOUD_AGENT_ID'' (\<lambda>v c. c\<lparr>c_Cloud := (c_Cloud c)\<lparr>cc_AgentID := v\<rparr>\<rparr>) cfg2;
          cfg4 = env_int getenv ''OPS_PORT'' (\<lambda>p c. c\<lparr>c_Ops := (c_Ops c)\<lparr>oc_Port := p\<rparr>\<rparr>) cfg3;
          cfg5 = env_text getenv ''DATA_DIR'' (\<lambda>v c. c\<lparr>c_Storage := (c_Storage c)\<lparr>sc_DataDir := v\<rparr>\<rparr>) cfg4;
          cfg6 = env_text getenv ''LOG_DIR'' (\<lambda>v c. c\<lparr>c_Storage := (c_Storage c)\<lparr>sc_LogDir := v\<rparr>\<rparr>) cfg5;
          cfg7 = env_text getenv ''LOG_LEVEL'' (\<lambda>v c. c\<lparr>c_Log := (c_Log c)\<lparr>lc_Level := to_lower v\<rparr>\<rparr>) cfg6;
          cfg8 = env_int getenv ''LOG_RETENTION_DAYS'' (\<lambda>d c. c\<lparr>c_Log := (c_Log c)\<lparr>lc_RetentionDays := d\<rparr>\<rparr>) cfg7;
          cfg9 = env_int getenv ''LOG_MAX_SIZE_MB'' (\<lambda>n c. c\<lparr>c_Log := (c_Log c)\<lparr>lc_MaxSizeMB := n\<rparr>\<rparr>) cfg8;
          cfg10 = env_int getenv ''CONFIG_VERSION'' (\<lambda>n c. c\<lparr>c_ConfigVersion := n\<rparr>) cfg9
      in set_derived cfg10)"

section \<open>Validation and loading\<close>

definition validLogLevels :: "string set" where
  "validLogLevels = {''debug'', ''info'', ''warn'', ''error''}"

definition Validate :: "AgentConfig \<Rightarrow> goerror option" where
  "Validate cfg =
     (if cc_Endpoint (c_Cloud cfg) = [] then Some (New ErrConfigInvalid ''cloud.endpoint is empty'')
      else if ParseIP (cc_Endpoint (c_Cloud cfg)) \<noteq> None then
        Some (New ErrConfigInvalid (''cloud.endpoint must be a domain, not IP: '' @ cc_Endpoint (c_Cloud cfg)))
      else if \<not> contains_str (cc_Endpoint (c_Cloud cfg)) ''.'' then
        Some (New ErrConfigInvalid (''cloud.endpoint must contain at least one dot: '' @ cc_Endpoint (c_Cloud cfg)))
      else if oc_Port (c_Ops cfg) < 1024 \<or> oc_Port (c_Ops cfg) > 65535 then
        Some (New ErrConfigInvalid (''ops.port must be in [1024, 65535], got '' @ itoa (oc_Port (c_Ops cfg))))
      else if sc_DataDir (c_Storage cfg) = [] then Some (New ErrConfigInvalid ''storage.data_dir is empty'')
      else if sc_LogDir (c_Storage cfg) = [] then Some (New ErrConfigInvalid ''storage.log_dir is empty'')
      else if lc_RetentionDays (c_Log cfg) < 7 \<or> lc_RetentionDays (c_Log cfg) > 90 then
        Some (New ErrConfigInvalid (''log.retention_days must be in [7, 90], got '' @ itoa (lc_RetentionDays (c_Log cfg))))
      else if to_lower (lc_Level (c_Log cfg)) \<notin> validLogLevels then
        Some (New ErrConfigInvalid (''log.level must be one of debug/info/warn/error, got '' @ go_quote (lc_Level (c_Log cfg))))
      else None)"

definition Load ::
  "(string \<Rightarrow> goerror + bytes) \<Rightarrow> (bytes \<Rightarrow> goerror + AgentConfig) \<Rightarrow> (string \<Rightarrow> string) \<Rightarrow> string \<Rightarrow> goerror + AgentConfig" where
  "Load readFile unmarshal getenv path =
     (case readFile path of
        Inl err \<Rightarrow> Inl (Wrap ErrConfigMissing ''read config file'' err)
      | Inr raw \<Rightarrow>
          (case unmarshal raw of
             Inl err \<Rightarrow> Inl (Wrap ErrConfigInvalid ''parse config yaml'' err)
           | Inr cfg \<Rightarrow>
               let cfg1 = set_derived (ApplyEnvOverrides getenv (ApplyFixedDefaults cfg))
               in case Validate cfg1 of Some err \<Rightarrow> Inl err | None \<Rightarrow> Inr cfg1))"

section \<open>Saving\<close>

type_synonym files = "string \<rightharpoonup> bytes"

text \<open>
  The results of the calls \<open>SaveAtomic\<close> makes: \<open>sv_temp\<close> is the name of the fresh file, \<open>sv_write\<close> an
  error after some bytes were written.
\<close>

record save_env =
  sv_mkdir :: "goerror option"
  sv_marshal :: "AgentConfig \<Rightarrow> goerror + bytes"
  sv_temp :: "goerror + string"
  sv_chmod :: "goerror option"
  sv_write :: "(nat \<times> goerror) option"
  sv_sync :: "goerror option"
  sv_close :: "goerror option"
  sv_rename :: "goerror option"
  sv_remove :: "goerror option"

definition remove_file :: "save_env \<Rightarrow> string \<Rightarrow> files \<Rightarrow> files" where
  "remove_file env name fs = (if sv_remove env = None then fs(name := None) else fs)"

text \<open>
  \<open>SaveAtomic\<close>: its error and every state the file system goes through, the last one final. A write
  passes through all its prefixes; a rename is one step.
\<close>

definition SaveAtomic :: "save_env \<Rightarrow> string \<Rightarrow> AgentConfig \<Rightarrow> files \<Rightarrow> goerror option \<times> files list" where
  "SaveAtomic env path cfg fs =
     (case sv_mkdir env of
        Some err \<Rightarrow> (Some (Wrap ErrStorageIO ''mkdir for config'' err), [fs])
      | None \<Rightarrow>
     (case sv_marshal env cfg of
        Inl err \<Rightarrow> (Some (Wrap ErrConfigInvalid ''marshal config yaml'' err), [fs])
      | Inr data \<Rightarrow>
     (case sv_temp env of
        Inl err \<Rightarrow> (Some (Wrap ErrStorageIO ''create temp file'' err), [fs])
      | Inr tmp \<Rightarrow>
        let created = fs(tmp \<mapsto> []) in
        (case sv_chmod env of
           Some err \<Rightarrow> (Some (Wrap ErrStorageIO ''chmod temp file'' err), [fs, created, remove_file env tmp created])
         | None \<Rightarrow>
        (case sv_write env of
           Some (n, err) \<Rightarrow>
             (Some (Wrap ErrStorageIO ''write temp file'' err),
              [fs] @ map (\<lambda>k. fs(tmp \<mapsto> take k data)) [0..<Suc n] @ [remove_file env tmp (fs(tmp \<mapsto> take n data))])
         | None \<Rightarrow>
        let writing = [fs] @ map (\<lambda>k. fs(tmp \<mapsto> take k data)) [0..<Suc (length data)];
            written = fs(tmp \<mapsto> data) in
        (case sv_sync env of
           Some err \<Rightarrow> (Some (Wrap ErrStorageIO ''sync temp file'' err), writing @ [remove_file env tmp written])
         | None \<Rightarrow>
        (case sv_close env of
           Some err \<Rightarrow> (Some (Wrap ErrStorageIO ''close temp file'' err), writing @ [remove_file env tmp written])
         | None \<Rightarrow>
        (case sv_rename env of
           Some err \<Rightarrow> (Some (Wrap ErrStorageIO ''rename temp file'' err), writing @ [remove_file env tmp written])
         | None \<Rightarrow> (None, writing @ [written(path \<mapsto> data, tmp := None)])))))))))"

section \<open>Migration\<close>

type_synonym MigrateFunc = "AgentConfig \<Rightarrow> goerror option \<times> AgentConfig"
type_synonym Migrator = "int \<times> int \<rightharpoonup> MigrateFunc"

definition NewMigrator :: Migrator where "NewMigrator = Map.empty"

definition Migrator_Register :: "Migrator \<Rightarrow> int \<Rightarrow> int \<Rightarrow> MigrateFunc \<Rightarrow> Migrator" where
  "Migrator_Register m from to fn = m((from, to) \<mapsto> fn)"

function migrate_loop :: "Migrator \<Rightarrow> AgentConfig \<Rightarrow> int \<Rightarrow> goerror option \<times> AgentConfig" where
  "migrate_loop m cfg target =
     (if c_ConfigVersion cfg < target then
        (let frm = c_ConfigVersion cfg; to = frm + 1
         in case m (frm, to) of
              None \<Rightarrow> (Some (New ErrConfigVersion (''no migrator registered for '' @ itoa frm @ '' -> '' @ itoa to)), cfg)
            | Some fn \<Rightarrow>
                (case fn cfg of
                   (Some err, cfg1) \<Rightarrow>
                     (Some (Wrap ErrConfigVersion (''migrate '' @ itoa frm @ '' -> '' @ itoa to) err), cfg1)
                 | (None, cfg1) \<Rightarrow> migrate_loop m (cfg1\<lparr>c_ConfigVersion := to\<rparr>) target))
      else (None, cfg))"
  by pat_completeness auto
termination by (relation "measure (\<lambda>(m, cfg, target). nat (target - c_ConfigVersion cfg))") auto

declare migrate_loop.simps [simp del]

definition Migrator_Migrate :: "Migrator \<Rightarrow> AgentConfig \<Rightarrow> int \<Rightarrow> goerror option \<times> AgentConfig" where
  "Migrator_Migrate m cfg targetVersion =
     (if c_ConfigVersion cfg > targetVersion then
        (Some (New ErrConfigVersion (''config version '' @ itoa (c_ConfigVersion cfg) @ '' is newer than supported '' @
           itoa targetVersion)), cfg)
      else migrate_loop m cfg targetVersion)"

definition DefaultMigrator :: Migrator where
  "DefaultMigrator = Migrator_Register NewMigrator 0 1
     (\<lambda>cfg. (None, if c_ConfigVersion cfg = 0 then cfg\<lparr>c_ConfigVersion := 1\<rparr> else cfg))"

section \<open>Lemmas\<close>

lemma env_keep:
  "(\<And>v c. f (upd v c) = f c) \<Longrightarrow> f (env_text getenv name upd cfg) = f cfg"
  "(\<And>n c. f (updi n c) = f c) \<Longrightarrow> f (env_int getenv name updi cfg) = f cfg"
  by (simp_all add: env_text_def env_int_def Let_def split: option.splits)

text \<open>The environment reaches five parts of the configuration only.\<close>

lemma ApplyEnvOverrides_keep:
  assumes "\<And>g c. F (c_Cloud_update g c) = F c" "\<And>g c. F (c_Ops_update g c) = F c"
    "\<And>g c. F (c_Storage_update g c) = F c" "\<And>g c. F (c_Log_update g c) = F c"
    "\<And>g c. F (c_ConfigVersion_update g c) = F c"
  shows "F (ApplyEnvOverrides getenv cfg) = F cfg"
  by (simp add: ApplyEnvOverrides_def Let_def set_derived_def env_keep [where f = F] assms)

lemma ApplyEnvOverrides_fixed:
  "c_HeartbeatInterval (ApplyEnvOverrides getenv cfg) = c_HeartbeatInterval cfg"
  "c_MaxRetry (ApplyEnvOverrides getenv cfg) = c_MaxRetry cfg"
  "c_RetryInitDelay (ApplyEnvOverrides getenv cfg) = c_RetryInitDelay cfg"
  "c_QueueCapacity (ApplyEnvOverrides getenv cfg) = c_QueueCapacity cfg"
  "c_RetryMaxBackoff (ApplyEnvOverrides getenv cfg) = c_RetryMaxBackoff cfg"
  "c_PrintSendTimeout (ApplyEnvOverrides getenv cfg) = c_PrintSendTimeout cfg"
  "c_CloudOutboundPort (ApplyEnvOverrides getenv cfg) = c_CloudOutboundPort cfg"
  by (rule ApplyEnvOverrides_keep; simp)+

lemma ApplyEnvOverrides_endpoint:
  assumes "getenv ''CPA_CLOUD_ENDPOINT'' = []"
  shows "cc_Endpoint (c_Cloud (ApplyEnvOverrides getenv cfg)) = cc_Endpoint (c_Cloud cfg)"
proof -
  define F :: "AgentConfig \<Rightarrow> string" where "F = (\<lambda>c. cc_Endpoint (c_Cloud c))"
  have "env_text getenv ''CLOUD_ENDPOINT'' upd cfg = cfg" for upd
    using assms by (simp add: env_text_def envPrefix_def)
  moreover have "F (c\<lparr>c_Cloud := (c_Cloud c)\<lparr>cc_Protocol := v\<rparr>\<rparr>) = F c" "F (c\<lparr>c_Cloud := (c_Cloud c)\<lparr>cc_AgentID := v\<rparr>\<rparr>) = F c"
    "F (c\<lparr>c_Cloud := (c_Cloud c)\<lparr>cc_DerivedURL := v\<rparr>\<rparr>) = F c" "F (c_Ops_update g c) = F c" "F (c_Storage_update h c) = F c"
    "F (c_Log_update i c) = F c" "F (c_ConfigVersion_update j c) = F c" for c v g h i j
    by (simp_all add: F_def)
  ultimately have "F (ApplyEnvOverrides getenv cfg) = F cfg"
    by (simp add: ApplyEnvOverrides_def Let_def set_derived_def env_keep [where f = F])
  then show ?thesis by (simp add: F_def)
qed

lemma set_derived_fixed:
  "c_HeartbeatInterval (set_derived cfg) = c_HeartbeatInterval cfg"
  "c_MaxRetry (set_derived cfg) = c_MaxRetry cfg"
  "c_RetryInitDelay (set_derived cfg) = c_RetryInitDelay cfg"
  "c_QueueCapacity (set_derived cfg) = c_QueueCapacity cfg"
  "c_RetryMaxBackoff (set_derived cfg) = c_RetryMaxBackoff cfg"
  "c_PrintSendTimeout (set_derived cfg) = c_PrintSendTimeout cfg"
  "c_CloudOutboundPort (set_derived cfg) = c_CloudOutboundPort cfg"
  "DeriveCloudURL (set_derived cfg) = DeriveCloudURL cfg"
  "cc_DerivedURL (c_Cloud (set_derived cfg)) = DeriveCloudURL cfg"
  by (simp_all add: set_derived_def DeriveCloudURL_def)

text \<open>What \<open>Validate\<close> lets through.\<close>

definition valid_config :: "AgentConfig \<Rightarrow> bool" where
  "valid_config cfg \<longleftrightarrow>
     ParseIP (cc_Endpoint (c_Cloud cfg)) = None \<and> CHR ''.'' \<in> set (cc_Endpoint (c_Cloud cfg)) \<and>
     1024 \<le> oc_Port (c_Ops cfg) \<and> oc_Port (c_Ops cfg) \<le> 65535 \<and>
     sc_DataDir (c_Storage cfg) \<noteq> [] \<and> sc_LogDir (c_Storage cfg) \<noteq> [] \<and>
     7 \<le> lc_RetentionDays (c_Log cfg) \<and> lc_RetentionDays (c_Log cfg) \<le> 90 \<and>
     to_lower (lc_Level (c_Log cfg)) \<in> {''debug'', ''info'', ''warn'', ''error''}"

lemma contains_dot: "contains_str s ''.'' \<longleftrightarrow> CHR ''.'' \<in> set s"
  by (auto simp: contains_str_iff in_set_conv_decomp)

lemma Validate_iff: "Validate cfg = None \<longleftrightarrow> valid_config cfg"
  by (auto simp: Validate_def valid_config_def validLogLevels_def contains_dot)

lemma Validate_code: "Validate cfg = Some err \<Longrightarrow> CodeFromErr err = Some ErrConfigInvalid"
  by (auto simp: Validate_def split: if_splits)

lemma migrate_loop_outcome:
  "c_ConfigVersion cfg \<le> target \<Longrightarrow>
     (case migrate_loop m cfg target of
        (None, cfg') \<Rightarrow> c_ConfigVersion cfg' = target
      | (Some err, cfg') \<Rightarrow> CodeFromErr err = Some ErrConfigVersion)"
proof (induction m cfg target rule: migrate_loop.induct)
  case (1 m cfg target)
  show ?case
  proof (cases "c_ConfigVersion cfg < target")
    case True
    let ?f = "c_ConfigVersion cfg"
    show ?thesis
    proof (cases "m (?f, ?f + 1)")
      case None
      with True show ?thesis by (subst migrate_loop.simps) (simp add: Let_def)
    next
      case (Some fn)
      obtain e cfg1 where fn: "fn cfg = (e, cfg1)" by fastforce
      show ?thesis
      proof (cases e)
        case None
        note 1(1) [OF True refl refl Some fn [symmetric, unfolded None]]
        then have "case migrate_loop m (cfg1\<lparr>c_ConfigVersion := ?f + 1\<rparr>) target of
            (None, cfg') \<Rightarrow> c_ConfigVersion cfg' = target
          | (Some err, cfg') \<Rightarrow> CodeFromErr err = Some ErrConfigVersion" using fn None True by simp
        with True Some fn None show ?thesis by (subst migrate_loop.simps) (simp add: Let_def)
      next
        case (Some err)
        with True \<open>m (?f, ?f + 1) = Some fn\<close> fn show ?thesis by (subst migrate_loop.simps) (simp add: Let_def)
      qed
    qed
  next
    case False
    with 1(2) show ?thesis by (subst migrate_loop.simps) simp
  qed
qed

section \<open>Properties\<close>

text \<open>
  A loaded configuration is sound, whatever the file and the environment hold: it satisfies every
  rule of the validation, its timing and capacity values are the fixed ones (the file cannot change
  them), its derived URL belongs to its endpoint, and its log level is one the logger accepts. A failure
  has a configuration code.
\<close>

theorem config_load_outcome:
  "(case Load readFile unmarshal getenv path of
      Inl err \<Rightarrow> CodeFromErr err = Some ErrConfigMissing \<or> CodeFromErr err = Some ErrConfigInvalid
    | Inr cfg \<Rightarrow> valid_config cfg \<and>
        c_HeartbeatInterval cfg = 30 * Second \<and> c_MaxRetry cfg = 3 \<and> c_RetryInitDelay cfg = 5 * Second \<and>
        c_QueueCapacity cfg = 100 \<and> c_RetryMaxBackoff cfg = 300 * Second \<and> c_PrintSendTimeout cfg = 60 * Second \<and>
        c_CloudOutboundPort cfg = 443 \<and>
        cc_DerivedURL (c_Cloud cfg) = cc_Protocol (c_Cloud cfg) @ ''://'' @ cc_Endpoint (c_Cloud cfg) \<and>
        (\<exists>lvl. parseLevel (lc_Level (c_Log cfg)) = Inr lvl))"
proof (cases "Load readFile unmarshal getenv path")
  case (Inl err)
  then show ?thesis
    by (auto simp: Load_def Let_def dest: Validate_code split: sum.splits option.splits)
next
  case (Inr cfg)
  then obtain raw cfg0 where cfg: "cfg = set_derived (ApplyEnvOverrides getenv (ApplyFixedDefaults cfg0))"
    and v: "valid_config cfg"
    by (auto simp: Load_def Let_def Validate_iff split: sum.splits option.splits)
  have "\<exists>lvl. parseLevel (lc_Level (c_Log cfg)) = Inr lvl"
    using v by (auto simp: valid_config_def parseLevel_def)
  moreover have "cc_DerivedURL (c_Cloud cfg) = DeriveCloudURL cfg" unfolding cfg by (simp add: set_derived_fixed)
  ultimately show ?thesis using v
    by (simp add: Inr DeriveCloudURL_def) (simp add: cfg set_derived_fixed ApplyEnvOverrides_fixed ApplyFixedDefaults_def)
qed

text \<open>
  (C22) Saving is atomic. With a temporary file of a fresh name, at every moment of \<open>SaveAtomic\<close> (so
  also when the process is killed there) the configuration file has its old content or the complete new one, and
  every other file is untouched; after a success it has the new content and the temporary file is gone;
  after a failure it has the old content, and the temporary file is gone if it could be removed.
\<close>

theorem save_is_atomic:
  assumes "SaveAtomic env path cfg fs = (err, states)" "sv_marshal env cfg = Inr data"
    "sv_temp env = Inr tmp" "tmp \<noteq> path" "fs tmp = None"
  shows "(\<forall>s \<in> set states. (s path = fs path \<or> s path = Some data) \<and> (\<forall>p. p \<noteq> path \<and> p \<noteq> tmp \<longrightarrow> s p = fs p)) \<and>
    (if err = None then last states = fs(path \<mapsto> data)
     else last states path = fs path \<and> (sv_remove env = None \<longrightarrow> last states = fs))"
  using assms
  by (auto simp: SaveAtomic_def remove_file_def Let_def fun_upd_idem fun_upd_twist split: option.splits)

definition demo_cfg :: AgentConfig where
  "demo_cfg = ApplyFixedDefaults
     \<lparr>c_ConfigVersion = 1,
      c_Cloud = \<lparr>cc_Endpoint = ''cloud.example.com'', cc_Protocol = ''wss'', cc_DerivedURL = [], cc_AgentID = ''agent''\<rparr>,
      c_Ops = \<lparr>oc_Port = 8080\<rparr>, c_Storage = \<lparr>sc_DataDir = ''/d'', sc_LogDir = ''/l''\<rparr>,
      c_Log = \<lparr>lc_Level = ''info'', lc_RetentionDays = 30, lc_MaxSizeMB = 100\<rparr>, c_Devices = [],
      c_HeartbeatInterval = 0, c_MaxRetry = 0, c_RetryInitDelay = 0, c_QueueCapacity = 0, c_RetryMaxBackoff = 0,
      c_PrintSendTimeout = 0, c_CloudOutboundPort = 0\<rparr>"

definition demo_save_env :: "goerror option \<Rightarrow> save_env" where
  "demo_save_env rename = \<lparr>sv_mkdir = None, sv_marshal = (\<lambda>_. Inr [1, 2]), sv_temp = Inr ''.c-1'', sv_chmod = None,
     sv_write = None, sv_sync = None, sv_close = None, sv_rename = rename, sv_remove = None\<rparr>"

theorem save_is_atomic_witness:
  "last (snd (SaveAtomic (demo_save_env (Some (PlainError ''denied''))) ''c'' demo_cfg [''c'' \<mapsto> [9]])) ''c'' = Some [9]"
proof -
  obtain err states where
    s: "SaveAtomic (demo_save_env (Some (PlainError ''denied''))) ''c'' demo_cfg [''c'' \<mapsto> [9]] = (err, states)" by fastforce
  have "err \<noteq> None" using s by (auto simp: SaveAtomic_def demo_save_env_def Let_def)
  with save_is_atomic [OF s, of "[1, 2]" "''.c-1''"] s show ?thesis by (simp add: demo_save_env_def)
qed

text \<open>
  Migration always ends, and either brings the configuration to exactly the target version or
  fails with the version code; the built-in migrator takes exactly the versions 0 and 1 to the current
  version 1.
\<close>

theorem migrate_outcome:
  "(case Migrator_Migrate m cfg target of
      (None, cfg') \<Rightarrow> c_ConfigVersion cfg' = target
    | (Some err, cfg') \<Rightarrow> CodeFromErr err = Some ErrConfigVersion) \<and>
   (fst (Migrator_Migrate DefaultMigrator cfg 1) = None \<longleftrightarrow> c_ConfigVersion cfg = 0 \<or> c_ConfigVersion cfg = 1)"
proof -
  have "fst (Migrator_Migrate DefaultMigrator cfg 1) = None \<longleftrightarrow> c_ConfigVersion cfg = 0 \<or> c_ConfigVersion cfg = 1"
    by (cases "c_ConfigVersion cfg = 0")
      (auto simp: Migrator_Migrate_def DefaultMigrator_def Migrator_Register_def NewMigrator_def migrate_loop.simps Let_def)
  then show ?thesis using migrate_loop_outcome [of cfg target m]
    by (auto simp: Migrator_Migrate_def split: prod.splits option.splits)
qed

end
