(* ===== verification/OpsApi.thy ===== *)
theory OpsApi
  imports Heartbeat Config
begin

text \<open>
  \<^verbatim>\<open>src/internal/opsapi\<close>: the local operations API. A request is answered from the registry, the queue,
  the metrics, the configuration and the log file; a response is its status with the value that is
  written as JSON. The router chooses a handler by path: which one is the argument \<open>rt\<close> (\<open>None\<close> where
  no route matches). The JSON and time parsers used on log lines are parameters.
\<close>

section \<open>Local addresses\<close>

text \<open>\<open>net.SplitHostPort\<close>: \<open>None\<close> is its error.\<close>

definition last_colon :: "string \<Rightarrow> nat option" where
  "last_colon s =
     (if CHR '':'' \<in> set s then Some (length s - 1 - length (takeWhile (\<lambda>c. c \<noteq> CHR '':'') (rev s))) else None)"

definition SplitHostPort :: "string \<Rightarrow> (string \<times> string) option" where
  "SplitHostPort hp =
     (case last_colon hp of
        None \<Rightarrow> None
      | Some i \<Rightarrow>
          if hd hp = CHR ''['' then
            if CHR '']'' \<notin> set hp then None
            else
              let e = length (takeWhile (\<lambda>c. c \<noteq> CHR '']'') hp)
              in if e + 1 \<noteq> i then None
                 else if CHR ''['' \<in> set (drop 1 hp) \<or> CHR '']'' \<in> set (drop (e + 1) hp) then None
                 else Some (drop 1 (take e hp), drop (i + 1) hp)
          else
            let host = take i hp
            in if CHR '':'' \<in> set host then None
               else if CHR ''['' \<in> set hp \<or> CHR '']'' \<in> set hp then None
               else Some (host, drop (i + 1) hp))"

text \<open>\<open>strings.TrimSpace\<close> on ASCII.\<close>

definition is_space :: "char \<Rightarrow> bool" where
  "is_space c \<longleftrightarrow> of_char c \<in> {32, 9, 10, 11, 12, 13 :: nat}"

definition TrimSpace :: "string \<Rightarrow> string" where
  "TrimSpace s = rev (dropWhile is_space (rev (dropWhile is_space s)))"

definition isLocalAddr :: "string \<Rightarrow> bool" where
  "isLocalAddr remoteAddr =
     (let host = TrimSpace (case SplitHostPort remoteAddr of Some (h, _) \<Rightarrow> h | None \<Rightarrow> remoteAddr)
      in if host \<in> {''127.0.0.1'', ''::1'', ''localhost'', []} then True
         else case ParseIP host of Some ip \<Rightarrow> IsLoopback ip | None \<Rightarrow> False)"

section \<open>The log file\<close>

record LogEntry =
  le_TS :: gotime
  le_Level :: string
  le_Msg :: string

text \<open>
  A JSON line by its three string members, where they are strings; \<open>None\<close> when the line is not JSON.
  Go tries the layouts \<open>RFC3339Nano\<close> and \<open>RFC3339\<close> on the time.
\<close>

record json_line =
  jl_level :: "string option"
  jl_msg :: "string option"
  jl_ts :: "string option"

record log_parsers =
  pa_json :: "string \<Rightarrow> json_line option"
  pa_nano :: "string \<Rightarrow> gotime option"
  pa_rfc :: "string \<Rightarrow> gotime option"

definition maxLogScanLines :: nat where "maxLogScanLines = 10000"

definition parseLogLine :: "log_parsers \<Rightarrow> gotime \<Rightarrow> string \<Rightarrow> LogEntry" where
  "parseLogLine pa now line =
     (if length line < 2 \<or> hd line \<noteq> CHR ''{'' then \<lparr>le_TS = now, le_Level = ''info'', le_Msg = line\<rparr>
      else case pa_json pa line of
        None \<Rightarrow> \<lparr>le_TS = 0, le_Level = [], le_Msg = line\<rparr>
      | Some m \<Rightarrow>
          let level = (case jl_level m of Some v \<Rightarrow> v | None \<Rightarrow> []);
              msg = (case jl_msg m of Some v \<Rightarrow> v | None \<Rightarrow> []);
              ts = (case jl_ts m of
                      None \<Rightarrow> 0
                    | Some v \<Rightarrow> (case pa_nano pa v of Some t \<Rightarrow> t | None \<Rightarrow> (case pa_rfc pa v of Some t \<Rightarrow> t | None \<Rightarrow> 0)))
          in \<lparr>le_TS = (if IsZero ts then now else ts), le_Level = (if level = [] then ''info'' else level), le_Msg = msg\<rparr>)"

text \<open>\<open>strings.EqualFold\<close> on ASCII.\<close>

definition EqualFold :: "string \<Rightarrow> string \<Rightarrow> bool" where
  "EqualFold a b \<longleftrightarrow> to_lower a = to_lower b"

text \<open>The scanning loop: each line comes with the instant it is parsed at.\<close>

fun scan_lines :: "log_parsers \<Rightarrow> string \<Rightarrow> nat \<Rightarrow> (gotime \<times> string) list \<Rightarrow> LogEntry list" where
  "scan_lines pa level cnt [] = []"
| "scan_lines pa level cnt ((now, line) # ls) =
     (if cnt + 1 > maxLogScanLines then []
      else if line = [] then scan_lines pa level (cnt + 1) ls
      else
        let entry = parseLogLine pa now line
        in if level \<noteq> [] \<and> \<not> EqualFold (le_Level entry) level then scan_lines pa level (cnt + 1) ls
           else entry # scan_lines pa level (cnt + 1) ls)"

text \<open>
  The file as the scanner sees it: it does not open, or it yields lines and then ends, with an error
  or without. The error is seen only if the scan got to it.
\<close>

type_synonym logfile = "goerror + (gotime \<times> string) list \<times> goerror option"

definition scanLogFile :: "log_parsers \<Rightarrow> logfile \<Rightarrow> string \<Rightarrow> LogEntry list \<times> goerror option" where
  "scanLogFile pa f level =
     (case f of
        Inl err \<Rightarrow> ([], Some err)
      | Inr (lines, serr) \<Rightarrow>
          (scan_lines pa level 0 lines, if length lines > maxLogScanLines then None else serr))"

text \<open>
  \<open>sort.Slice\<close> is not stable: the parameter \<open>sorter\<close> is any function that sorts, latest first.
\<close>

definition sorter_ok :: "(LogEntry list \<Rightarrow> LogEntry list) \<Rightarrow> bool" where
  "sorter_ok sorter \<longleftrightarrow> (\<forall>xs. mset (sorter xs) = mset xs \<and> sorted_wrt (\<lambda>a b. le_TS b \<le> le_TS a) (sorter xs))"

definition readRecentLogs ::
  "log_parsers \<Rightarrow> (LogEntry list \<Rightarrow> LogEntry list) \<Rightarrow> logfile \<Rightarrow> string \<Rightarrow> int \<Rightarrow> string \<Rightarrow> LogEntry list" where
  "readRecentLogs pa sorter f logDir limit level =
     (if logDir = [] then []
      else case scanLogFile pa f level of
             (_, Some err) \<Rightarrow> []
           | (ents, None) \<Rightarrow>
               let es = sorter ents
               in if int (length es) > limit then take (nat limit) es else es)"

section \<open>The handlers\<close>

record StatusSummary =
  ss_Status :: string
  ss_Version :: string
  ss_ProcessUptime :: duration
  ss_CloudEndpoint :: string
  ss_DerivedURL :: string
  ss_NetClass :: NetClass
  ss_DeviceCount :: int
  ss_OnlineDevices :: int
  ss_QueueCount :: int
  ss_PendingTasks :: int
  ss_NetMetrics :: "NetMetrics option"
  ss_GeneratedAt :: gotime

record DeviceView =
  dv_DeviceID :: string
  dv_Name :: string
  dv_IP :: string
  dv_Protocol :: Protocol
  dv_Status :: DeviceStatus
  dv_LastProbeAt :: gotime

record CloudConfigView =
  cv_Endpoint :: string
  cv_Protocol :: CloudProtocol
  cv_DerivedURL :: string
  cv_AgentID :: string
  cv_DeviceToken :: string
  cv_MTLSCert :: string
  cv_MTLSKey :: string

record ConfigView =
  gv_ConfigVersion :: int
  gv_Cloud :: CloudConfigView
  gv_Ops :: OpsConfig
  gv_Storage :: StorageConfig
  gv_Log :: LogConfig
  gv_Devices :: "Device list"

datatype body =
    BStatus string
  | BError string string
  | BSummary StatusSummary
  | BTopology NetTopology
  | BDevices "DeviceView list" int
  | BQueues "(string \<times> int) list" int
  | BQueue string int "PrintTask list"
  | BLogs "LogEntry list" int
  | BConfig ConfigView
  | BNotFound

type_synonym response = "int \<times> body"

record 'db OpsServer =
  os_cfg :: AgentConfig
  os_mgr :: Manager
  os_queue :: "'db Queue"
  os_metrics :: "NetMetrics option"
  os_audit :: "audit option"

definition isHealthy :: "'db OpsServer \<Rightarrow> bool" where
  "isHealthy s =
     (case os_metrics s of None \<Rightarrow> True | Some m \<Rightarrow> NetMetrics_GetNetClass m \<noteq> NetClassLocalNetFail)"

definition handleHealthz :: "'db OpsServer \<Rightarrow> response" where
  "handleHealthz s = (if \<not> isHealthy s then (503, BStatus ''unhealthy'') else (200, BStatus ''ok''))"

fun status_loop :: "'db Queue \<Rightarrow> Device list \<Rightarrow> int \<Rightarrow> int \<Rightarrow> int \<times> int" where
  "status_loop q [] online pending = (online, pending)"
| "status_loop q (d # devs) online pending =
     status_loop q devs (if d_Status d = DeviceStatusOnline then online + 1 else online)
       (pending + Queue_PendingCount q (d_DeviceID d))"

definition handleStatus :: "gotime \<Rightarrow> duration \<Rightarrow> 'db OpsServer \<Rightarrow> response" where
  "handleStatus now uptime s =
     (let devices = Manager_List (os_mgr s);
          (online, pending) = status_loop (os_queue s) devices 0 0
      in (200, BSummary
           \<lparr>ss_Status = ''running'', ss_Version = Version, ss_ProcessUptime = uptime,
            ss_CloudEndpoint = cc_Endpoint (c_Cloud (os_cfg s)), ss_DerivedURL = cc_DerivedURL (c_Cloud (os_cfg s)),
            ss_NetClass = (case os_metrics s of None \<Rightarrow> [] | Some m \<Rightarrow> NetMetrics_GetNetClass m),
            ss_DeviceCount = int (length devices), ss_OnlineDevices = online, ss_QueueCount = int (length devices),
            ss_PendingTasks = pending, ss_NetMetrics = map_option NetMetrics_Snapshot (os_metrics s),
            ss_GeneratedAt = now\<rparr>))"

definition handleNetwork :: "'db OpsServer \<Rightarrow> response" where
  "handleNetwork s =
     (case os_metrics s of
        None \<Rightarrow> (200, BStatus ''no_metrics'')
      | Some m \<Rightarrow> (200, BTopology (NetMetrics_ToNetTopology m (cc_Endpoint (c_Cloud (os_cfg s))))))"

definition device_view :: "Device \<Rightarrow> DeviceView" where
  "device_view d = \<lparr>dv_DeviceID = d_DeviceID d, dv_Name = d_Name d, dv_IP = d_IP d, dv_Protocol = d_Protocol d,
     dv_Status = d_Status d, dv_LastProbeAt = d_LastProbeAt d\<rparr>"

definition handleDevices :: "'db OpsServer \<Rightarrow> response" where
  "handleDevices s =
     (let views = map device_view (Manager_List (os_mgr s)) in (200, BDevices views (int (length views))))"

fun queues_loop :: "'db Queue \<Rightarrow> Device list \<Rightarrow> (string \<times> int) list \<Rightarrow> int \<Rightarrow> (string \<times> int) list \<times> int" where
  "queues_loop q [] views tot = (views, tot)"
| "queues_loop q (d # devs) views tot =
     (let c = Queue_PendingCount q (d_DeviceID d)
      in queues_loop q devs (views @ [(d_DeviceID d, c)]) (tot + c))"

definition handleQueues :: "'db OpsServer \<Rightarrow> response" where
  "handleQueues s =
     (case queues_loop (os_queue s) (Manager_List (os_mgr s)) [] 0 of (views, tot) \<Rightarrow> (200, BQueues views tot))"

definition handleQueueDetail :: "string \<Rightarrow> 'db OpsServer \<Rightarrow> response" where
  "handleQueueDetail deviceID s =
     (if deviceID = [] then (400, BError ''device_id is required'' ''DEVICE_NOT_FOUND'')
      else if Manager_Get (os_mgr s) deviceID = None then (404, BError ''device not found'' ''DEVICE_NOT_FOUND'')
      else
        let pending = Queue_ListPending (os_queue s) deviceID
        in (200, BQueue deviceID (int (length pending)) pending))"

definition logs_limit :: "string \<Rightarrow> int" where
  "logs_limit limitStr =
     (let limit = (if limitStr \<noteq> [] then (case atoi limitStr of Some n \<Rightarrow> if n > 0 then n else 100 | None \<Rightarrow> 100) else 100)
      in if limit > 1000 then 1000 else limit)"

definition handleLogs ::
  "log_parsers \<Rightarrow> (LogEntry list \<Rightarrow> LogEntry list) \<Rightarrow> logfile \<Rightarrow> string \<Rightarrow> string \<Rightarrow> 'db OpsServer \<Rightarrow> response" where
  "handleLogs pa sorter f limitStr level s =
     (let ents = readRecentLogs pa sorter f (sc_LogDir (c_Storage (os_cfg s))) (logs_limit limitStr) level
      in (200, BLogs ents (int (length ents))))"

definition maskedValue :: string where "maskedValue = ''***''"

definition handleConfig :: "'db OpsServer \<Rightarrow> response" where
  "handleConfig s =
     (let cfg = os_cfg s
      in (200, BConfig
           \<lparr>gv_ConfigVersion = c_ConfigVersion cfg,
            gv_Cloud = \<lparr>cv_Endpoint = cc_Endpoint (c_Cloud cfg), cv_Protocol = cc_Protocol (c_Cloud cfg),
              cv_DerivedURL = cc_DerivedURL (c_Cloud cfg), cv_AgentID = cc_AgentID (c_Cloud cfg),
              cv_DeviceToken = maskedValue, cv_MTLSCert = maskedValue, cv_MTLSKey = maskedValue\<rparr>,
            gv_Ops = c_Ops cfg, gv_Storage = c_Storage cfg, gv_Log = c_Log cfg, gv_Devices = c_Devices cfg\<rparr>))"

section \<open>Routing and access\<close>

datatype route =
    RHealthz | RStatus | RNetwork | RDevices | RQueues | RQueueDetail string | RLogs string string | RConfig

text \<open>
  What the router makes of a request: a route, no route for the path, or a path whose routes have another method
  (\<open>buildRouter\<close> registers every route for GET only). Which one it is, is chi's matching of patterns.
\<close>

datatype matched = Matched route | NoSuchPath | OtherMethod

record request =
  rq_RemoteAddr :: string
  rq_Method :: string
  rq_Path :: string

record ops_env =
  oe_now :: gotime
  oe_uptime :: duration
  oe_parsers :: log_parsers
  oe_sorter :: "LogEntry list \<Rightarrow> LogEntry list"
  oe_log :: logfile

definition serve_route :: "ops_env \<Rightarrow> matched \<Rightarrow> 'db OpsServer \<Rightarrow> response" where
  "serve_route oe rt s =
     (case rt of
        NoSuchPath \<Rightarrow> (404, BNotFound)
      | OtherMethod \<Rightarrow> (405, BNotFound)
      | Matched RHealthz \<Rightarrow> handleHealthz s
      | Matched RStatus \<Rightarrow> handleStatus (oe_now oe) (oe_uptime oe) s
      | Matched RNetwork \<Rightarrow> handleNetwork s
      | Matched RDevices \<Rightarrow> handleDevices s
      | Matched RQueues \<Rightarrow> handleQueues s
      | Matched (RQueueDetail d) \<Rightarrow> handleQueueDetail d s
      | Matched (RLogs limit level) \<Rightarrow> handleLogs (oe_parsers oe) (oe_sorter oe) (oe_log oe) limit level s
      | Matched RConfig \<Rightarrow> handleConfig s)"

text \<open>The middleware \<open>LocalOnly\<close>, which \<open>buildRouter\<close> puts before every route.\<close>

definition LocalOnly :: "ops_env \<Rightarrow> request \<Rightarrow> matched \<Rightarrow> 'db OpsServer \<Rightarrow> response \<times> 'db OpsServer" where
  "LocalOnly oe r rt s =
     (if \<not> isLocalAddr (rq_RemoteAddr r) then
        ((403, BError ''access denied'' ''OPS_ACCESS_DENIED''),
         s\<lparr>os_audit := map_option (\<lambda>a. AuditLogger_LogOpsAccess a (rq_Path r) (rq_Method r) (rq_RemoteAddr r)) (os_audit s)\<rparr>)
      else (serve_route oe rt s, s))"

definition ops_addr :: "AgentConfig \<Rightarrow> string" where
  "ops_addr cfg =
     (let port = oc_Port (c_Ops cfg); port' = (if port \<le> 0 then 9100 else port)
      in ''127.0.0.1:'' @ itoa port')"

section \<open>Lemmas on addresses\<close>

lemma last_colon_append: "CHR '':'' \<notin> set p \<Longrightarrow> last_colon (h @ CHR '':'' # p) = Some (length h)"
proof -
  assume "CHR '':'' \<notin> set p"
  then have "takeWhile (\<lambda>c. c \<noteq> CHR '':'') (rev p @ CHR '':'' # rev h) = rev p"
    by (subst takeWhile_append2) auto
  then show ?thesis by (simp add: last_colon_def)
qed

lemma SplitHostPort_plain:
  assumes "h \<noteq> []" "CHR '':'' \<notin> set h" "CHR ''['' \<notin> set h" "CHR '']'' \<notin> set h"
    "CHR '':'' \<notin> set p" "CHR ''['' \<notin> set p" "CHR '']'' \<notin> set p"
  shows "SplitHostPort (h @ CHR '':'' # p) = Some (h, p)"
proof -
  have "hd (h @ CHR '':'' # p) \<noteq> CHR ''[''" using assms(1,3) by (cases h) auto
  then show ?thesis using assms by (simp add: SplitHostPort_def last_colon_append)
qed

lemma digit_chars:
  "c \<in> set (itoa_nat n) \<Longrightarrow> c \<noteq> CHR '':'' \<and> c \<noteq> CHR ''['' \<and> c \<noteq> CHR '']'' \<and> \<not> is_space c"
  using itoa_nat_digits [of c n] by (auto simp: digit_val_def is_space_def)

lemma dotted_chars:
  "c \<in> set (dotted a b x d) \<Longrightarrow> c \<noteq> CHR '':'' \<and> c \<noteq> CHR ''['' \<and> c \<noteq> CHR '']'' \<and> \<not> is_space c"
  unfolding dotted_def using digit_chars by (auto simp: is_space_def)

lemma TrimSpace_id: "(\<And>c. c \<in> set s \<Longrightarrow> \<not> is_space c) \<Longrightarrow> TrimSpace s = s"
proof -
  assume n: "\<And>c. c \<in> set s \<Longrightarrow> \<not> is_space c"
  have d: "(\<And>c. c \<in> set xs \<Longrightarrow> \<not> is_space c) \<Longrightarrow> dropWhile is_space xs = xs" for xs
    by (cases xs) auto
  have "dropWhile is_space (rev s) = rev s" by (rule d) (use n in simp)
  moreover have "dropWhile is_space s = s" by (rule d [OF n])
  ultimately show ?thesis by (simp add: TrimSpace_def)
qed

lemma dotted_localhost: "dotted a b c d \<noteq> ''localhost''" "dotted a b c d \<noteq> ''::1''" "dotted a b c d \<noteq> []"
proof -
  have "CHR ''.'' \<in> set (dotted a b c d)" by (simp add: dotted_def)
  then show "dotted a b c d \<noteq> ''localhost''" "dotted a b c d \<noteq> ''::1''" "dotted a b c d \<noteq> []" by auto
qed

lemma dotted_inj_127: "a \<le> 255 \<Longrightarrow> b \<le> 255 \<Longrightarrow> c \<le> 255 \<Longrightarrow> d \<le> 255 \<Longrightarrow> dotted a b c d = ''127.0.0.1'' \<Longrightarrow> a = 127"
proof -
  assume le: "a \<le> 255" "b \<le> 255" "c \<le> 255" "d \<le> 255" and "dotted a b c d = ''127.0.0.1''"
  then have "ParseIP ''127.0.0.1'' = Some (v4InV6Prefix @ [of_nat a, of_nat b, of_nat c, of_nat d])"
    using ParseIP_dotted [OF le] by simp
  moreover have "ParseIP ''127.0.0.1'' = Some (v4InV6Prefix @ [127, 0, 0, 1])" by code_simp
  ultimately have "(of_nat a :: byte) = 127" by simp
  then have "unat (of_nat a :: byte) = 127" by simp
  then show "a = 127" using le(1) by (simp add: unat_of_nat)
qed

lemma isLocalAddr_v4:
  assumes "a \<le> 255" "b \<le> 255" "c \<le> 255" "d \<le> 255"
  shows "isLocalAddr (dotted a b c d @ '':'' @ itoa_nat port) \<longleftrightarrow> a = 127"
proof -
  have s: "SplitHostPort (dotted a b c d @ CHR '':'' # itoa_nat port) = Some (dotted a b c d, itoa_nat port)"
    using dotted_chars [of _ a b c d] digit_chars [of _ port] dotted_localhost(3)
    by (intro SplitHostPort_plain) blast+
  have t: "TrimSpace (dotted a b c d) = dotted a b c d" using dotted_chars by (intro TrimSpace_id) blast
  have "IsLoopback (v4InV6Prefix @ [of_nat a, of_nat b, of_nat c, of_nat d]) \<longleftrightarrow> (of_nat a :: byte) = 127"
    by (simp add: IsLoopback_def To4_def v4InV6Prefix_def)
  also have "\<dots> \<longleftrightarrow> a = 127"
  proof
    assume "(of_nat a :: byte) = 127"
    then have "unat (of_nat a :: byte) = 127" by simp
    then show "a = 127" using assms(1) by (simp add: unat_of_nat)
  qed simp
  finally show ?thesis
    using dotted_localhost [of a b c d] dotted_inj_127 [OF assms]
    by (auto simp: isLocalAddr_def s t ParseIP_dotted [OF assms] Let_def)
qed

lemma serve_route_status: "fst (serve_route oe rt s) \<noteq> 403"
  by (simp add: serve_route_def handleHealthz_def handleStatus_def handleNetwork_def handleDevices_def handleQueues_def
      handleQueueDetail_def handleLogs_def handleConfig_def Let_def split: option.splits matched.splits route.splits prod.splits)

section \<open>Lemmas on counts and logs\<close>

lemma status_loop_count: "status_loop q devs on p = count_devices (Some (Queue_PendingCount q)) devs on p"
  by (induction devs arbitrary: on p) simp_all

lemma queues_loop_sum:
  "queues_loop q devs views tot =
     (views @ map (\<lambda>d. (d_DeviceID d, Queue_PendingCount q (d_DeviceID d))) devs,
      tot + sum_list (map (\<lambda>d. Queue_PendingCount q (d_DeviceID d)) devs))"
  by (induction devs arbitrary: views tot) (simp_all add: Let_def)

text \<open>The entries of the first lines of the file that match the level.\<close>

definition log_matches :: "log_parsers \<Rightarrow> string \<Rightarrow> (gotime \<times> string) list \<Rightarrow> LogEntry list" where
  "log_matches pa level ls =
     filter (\<lambda>e. level = [] \<or> EqualFold (le_Level e) level)
       (map (\<lambda>(now, line). parseLogLine pa now line) (filter (\<lambda>l. snd l \<noteq> []) ls))"

lemma scan_lines_eq:
  "n \<le> maxLogScanLines \<Longrightarrow> scan_lines pa level n ls = log_matches pa level (take (maxLogScanLines - n) ls)"
proof (induction ls arbitrary: n)
  case (Cons l ls)
  obtain now line where l: "l = (now, line)" by (cases l)
  show ?case
  proof (cases "n = maxLogScanLines")
    case False
    with Cons.prems have "take (maxLogScanLines - n) (l # ls) = l # take (maxLogScanLines - (n + 1)) ls"
      by (simp add: take_Cons' Suc_diff_Suc)
    moreover have "scan_lines pa level (Suc n) ls = log_matches pa level (take (maxLogScanLines - (n + 1)) ls)"
      using Cons.IH [of "Suc n"] Cons.prems False by simp
    ultimately show ?thesis using False Cons.prems by (auto simp: l log_matches_def Let_def)
  qed (simp add: l log_matches_def)
qed (simp add: log_matches_def)

lemma logs_limit_range: "1 \<le> logs_limit s \<and> logs_limit s \<le> 1000"
  by (simp add: logs_limit_def Let_def split: option.splits)

section \<open>Properties\<close>

text \<open>
  (C37) The operations API serves the host only: for a client with an IPv4 address the answer is 403, with
  an audit entry, exactly when the address is outside 127.0.0.0/8; whatever the route, no handler runs
  then, and a local client never gets a 403.
\<close>

theorem ops_serves_local_only:
  assumes "a \<le> 255" "b \<le> 255" "c \<le> 255" "d \<le> 255" "rq_RemoteAddr r = dotted a b c d @ '':'' @ itoa_nat port"
  shows "(fst (fst (LocalOnly oe r rt s)) = 403 \<longleftrightarrow> a \<noteq> 127) \<and>
    LocalOnly oe r rt s =
      (if a = 127 then (serve_route oe rt s, s)
       else ((403, BError ''access denied'' ''OPS_ACCESS_DENIED''),
             s\<lparr>os_audit := map_option (\<lambda>au. AuditLogger_LogOpsAccess au (rq_Path r) (rq_Method r) (rq_RemoteAddr r)) (os_audit s)\<rparr>))"
  using isLocalAddr_v4 [OF assms(1-4), of port] serve_route_status [of oe rt s] assms(5) by (simp add: LocalOnly_def)

text \<open>
  (C33) The three views of the agent's load agree: the status page, the queue overview and the heartbeat show
  the same number of pending tasks, and the status page and the heartbeat the same number of online
  devices; the queue overview lists the registered devices in their order, each with the number of tasks pending at
  that device, and its total is the sum of these numbers.
\<close>

theorem ops_views_agree:
  "\<exists>sum views tot. handleStatus now uptime s = (200, BSummary sum) \<and> handleQueues s = (200, BQueues views tot) \<and>
     ss_PendingTasks sum = tot \<and> tot = sum_list (map snd views) \<and>
     views = map (\<lambda>d. (d_DeviceID d, int (length (Queue_ListPending (os_queue s) (d_DeviceID d))))) (Manager_List (os_mgr s)) \<and>
     (let hp = heartbeat_payload now' cfg (Some (Manager_List (os_mgr s))) (Some (Queue_PendingCount (os_queue s))) metrics
      in hp_PendingTasks hp = tot \<and> hp_OnlineDevices hp = ss_OnlineDevices sum)"
  using PendingCount_length [of "os_queue s"]
  by (simp add: handleStatus_def handleQueues_def Let_def status_loop_count count_devices_acc queues_loop_sum
      heartbeat_payload_def o_def)

text \<open>
  What the log view shows, for any sorting of the entries that sorts: at most the limit, which is
  between 1 and 1000, latest first, each an entry of the file that matches the level; and no matching
  entry of the scanned part that is left out is later than one that is shown.
\<close>

theorem recent_logs_exact:
  assumes "sorter_ok sorter" "logDir \<noteq> []" "length lines \<le> 10000"
    "readRecentLogs pa sorter (Inr (lines, None)) logDir (logs_limit lim) level = es"
  shows "length es \<le> 1000 \<and> sorted_wrt (\<lambda>a b. le_TS b \<le> le_TS a) es \<and>
    (\<exists>rest. mset es + mset rest = mset (log_matches pa level lines) \<and>
       (\<forall>x \<in> set rest. \<forall>e \<in> set es. le_TS x \<le> le_TS e) \<and>
       (rest \<noteq> [] \<longrightarrow> int (length es) = logs_limit lim))"
proof -
  define all where "all = sorter (log_matches pa level lines)"
  have all: "mset all = mset (log_matches pa level lines)" "sorted_wrt (\<lambda>a b. le_TS b \<le> le_TS a) all"
    using assms(1) by (simp_all add: all_def sorter_ok_def)
  have "scan_lines pa level 0 lines = log_matches pa level lines"
    using scan_lines_eq [of 0 pa level lines] assms(3) by (simp add: maxLogScanLines_def)
  then have es: "es = (if int (length all) > logs_limit lim then take (nat (logs_limit lim)) all else all)"
    unfolding assms(4) [symmetric] using assms(2,3)
    by (simp add: readRecentLogs_def scanLogFile_def maxLogScanLines_def Let_def all_def)
  define n where "n = nat (logs_limit lim)"
  have n: "int n = logs_limit lim" "n \<le> 1000" using logs_limit_range [of lim] unfolding n_def by linarith+
  have t: "es = take n all" using es n by (auto simp: n_def)
  have split: "all = es @ drop n all" by (simp add: t)
  have "sorted_wrt (\<lambda>a b. le_TS b \<le> le_TS a) (es @ drop n all)" using all(2) split by simp
  then have s: "sorted_wrt (\<lambda>a b. le_TS b \<le> le_TS a) es" "\<forall>x \<in> set (drop n all). \<forall>e \<in> set es. le_TS x \<le> le_TS e"
    by (auto simp: sorted_wrt_append)
  have "mset es + mset (drop n all) = mset (log_matches pa level lines)"
    using all(1) split by (metis mset_append)
  moreover have "drop n all \<noteq> [] \<longrightarrow> int (length es) = logs_limit lim" using n by (simp add: t)
  moreover have "length es \<le> 1000" using n by (simp add: t)
  ultimately show ?thesis using s by blast
qed

text \<open>
  The log view is blind past line 10000: of a longer file only the first 10000 lines are read, which are
  the oldest, so that whatever was logged after them is not shown as recent.
\<close>

theorem recent_logs_ignore_the_tail:
  assumes "length lines = 10000" "tail \<noteq> []"
  shows "readRecentLogs pa sorter (Inr (lines @ tail, serr)) logDir limit level =
    readRecentLogs pa sorter (Inr (lines, None)) logDir limit level"
proof -
  have "scan_lines pa level 0 (lines @ tail) = scan_lines pa level 0 lines"
    using assms(1) by (simp add: scan_lines_eq maxLogScanLines_def)
  moreover have "length (lines @ tail) > maxLogScanLines" "\<not> length lines > maxLogScanLines"
    using assms by (simp_all add: maxLogScanLines_def)
  ultimately show ?thesis by (simp add: readRecentLogs_def scanLogFile_def)
qed

section \<open>Witnesses\<close>

definition demo_parsers :: log_parsers where
  "demo_parsers = \<lparr>pa_json = (\<lambda>_. None), pa_nano = (\<lambda>_. None), pa_rfc = (\<lambda>_. None)\<rparr>"

definition demo_sorter :: "LogEntry list \<Rightarrow> LogEntry list" where
  "demo_sorter xs = sort_key (\<lambda>e. - le_TS e) xs"

lemma demo_sorter_ok: "sorter_ok demo_sorter"
proof -
  have "sorted_wrt (\<lambda>a b. le_TS b \<le> le_TS a) (sort_key (\<lambda>e. - le_TS e) xs)" for xs :: "LogEntry list"
    using sorted_sort_key [of "\<lambda>e. - le_TS e" xs] by (simp add: sorted_map)
  then show ?thesis by (simp add: sorter_ok_def demo_sorter_def)
qed

definition demo_ops_env :: ops_env where
  "demo_ops_env = \<lparr>oe_now = 1, oe_uptime = 2, oe_parsers = demo_parsers, oe_sorter = demo_sorter, oe_log = Inr ([], None)\<rparr>"

definition demo_server :: "mem_db OpsServer" where
  "demo_server = \<lparr>os_cfg = demo_cfg, os_mgr = NewManager, os_queue = NewQueue 2 None, os_metrics = None, os_audit = Some []\<rparr>"

theorem ops_serves_local_only_witness:
  "fst (fst (LocalOnly demo_ops_env \<lparr>rq_RemoteAddr = dotted 10 0 0 9 @ '':'' @ itoa_nat 4711, rq_Method = ''GET'', rq_Path = ''/''\<rparr>
     (Matched RHealthz) demo_server)) = 403"
  using ops_serves_local_only [of 10 0 0 9 "\<lparr>rq_RemoteAddr = dotted 10 0 0 9 @ '':'' @ itoa_nat 4711, rq_Method = ''GET'', rq_Path = ''/''\<rparr>"
      4711 demo_ops_env "Matched RHealthz" demo_server]
  by simp

theorem recent_logs_exact_witness:
  "sorted_wrt (\<lambda>a b. le_TS b \<le> le_TS a)
     (readRecentLogs demo_parsers demo_sorter (Inr ([(3, ''one''), (5, ''two'')], None)) ''/l'' (logs_limit ''7'') [])"
  using recent_logs_exact [OF demo_sorter_ok, of "''/l''" "[(3, ''one''), (5, ''two'')]" demo_parsers "''7''" "[]"] by simp

theorem recent_logs_ignore_the_tail_witness:
  "readRecentLogs demo_parsers demo_sorter (Inr (replicate 10000 (3, ''old'') @ [(9, ''new'')], None)) ''/l'' 100 [] =
   readRecentLogs demo_parsers demo_sorter (Inr (replicate 10000 (3, ''old''), None)) ''/l'' 100 []"
  by (rule recent_logs_ignore_the_tail) (simp_all only: length_replicate list.distinct not_False_eq_True)

end
