(* ===== verification/OpsWire.thy ===== *)
theory OpsWire
  imports Wire OpsApi
begin

text \<open>
  The operations API as a client sees it: the JSON of every response of \<^verbatim>\<open>src/internal/opsapi/handlers.go\<close>,
  indented as \<open>writeJSON\<close> writes it, the reading of the agent's own log lines, and the starting and stopping
  of the server.
\<close>

section \<open>The JSON of the responses\<close>

text \<open>The encoder writes the entries of a map in the order of their keys.\<close>

definition extra_entries :: "(string \<rightharpoonup> string) \<Rightarrow> (string \<times> string) list" where
  "extra_entries m = map (\<lambda>k. (k, the (m k))) (sorted_list_of_set (dom m))"

definition NetMetricsSnapshot_json :: "timefmt \<Rightarrow> NetMetrics \<Rightarrow> json" where
  "NetMetricsSnapshot_json tf m = JObj (
     member ''dns_latency_ms'' False (enc_int (m_dnsLatencyMs m)) @
     member ''resolved_ip'' False (enc_string (m_resolvedIP m)) @
     member ''gateway_reach'' False (JBool (m_gatewayReach m)) @
     member ''local_net_reach'' False (JBool (m_localNetReach m)) @
     member ''net_class'' False (NetClass_MarshalJSON (m_netClass m)) @
     member ''last_check_at'' False (enc_time tf (m_lastCheckAt m)) @ [])"

definition StatusSummary_json :: "timefmt \<Rightarrow> StatusSummary \<Rightarrow> json" where
  "StatusSummary_json tf s = JObj (
     member ''status'' False (enc_string (ss_Status s)) @
     member ''version'' False (enc_string (ss_Version s)) @
     member ''process_uptime'' False (enc_string (duration_string (ss_ProcessUptime s))) @
     member ''cloud_endpoint'' False (enc_string (ss_CloudEndpoint s)) @
     member ''derived_url'' False (enc_string (ss_DerivedURL s)) @
     member ''net_class'' False (NetClass_MarshalJSON (ss_NetClass s)) @
     member ''device_count'' False (enc_int (ss_DeviceCount s)) @
     member ''online_devices'' False (enc_int (ss_OnlineDevices s)) @
     member ''queue_count'' False (enc_int (ss_QueueCount s)) @
     member ''pending_tasks'' False (enc_int (ss_PendingTasks s)) @
     member ''net_metrics'' False (case ss_NetMetrics s of None \<Rightarrow> JNull | Some m \<Rightarrow> NetMetricsSnapshot_json tf m) @
     member ''generated_at'' False (enc_time tf (ss_GeneratedAt s)) @ [])"

definition NetTopology_json :: "timefmt \<Rightarrow> NetTopology \<Rightarrow> json" where
  "NetTopology_json tf n = JObj (
     member ''endpoint'' False (enc_string (nt_Endpoint n)) @
     member ''resolved_ip'' (nt_ResolvedIP n = []) (enc_string (nt_ResolvedIP n)) @
     member ''dns_latency_ms'' (nt_DNSLatencyMs n = 0) (enc_int (nt_DNSLatencyMs n)) @
     member ''gateway_ip'' (nt_GatewayIP n = []) (enc_string (nt_GatewayIP n)) @
     member ''gateway_reach'' False (JBool (nt_GatewayReach n)) @
     member ''local_net_reach'' False (JBool (nt_LocalNetReach n)) @
     member ''net_class'' False (NetClass_MarshalJSON (nt_NetClass n)) @
     member ''last_check_at'' False (enc_time tf (nt_LastCheckAt n)) @ [])"

definition DeviceView_json :: "timefmt \<Rightarrow> DeviceView \<Rightarrow> json" where
  "DeviceView_json tf d = JObj (
     member ''device_id'' False (enc_string (dv_DeviceID d)) @
     member ''name'' False (enc_string (dv_Name d)) @
     member ''ip'' False (enc_string (dv_IP d)) @
     member ''protocol'' False (Protocol_MarshalJSON (dv_Protocol d)) @
     member ''status'' False (DeviceStatus_MarshalJSON (dv_Status d)) @
     member ''last_probe_at'' False (enc_time tf (dv_LastProbeAt d)) @ [])"

definition QueueOverview_json :: "string \<times> int \<Rightarrow> json" where
  "QueueOverview_json v = JObj (
     member ''device_id'' False (enc_string (fst v)) @
     member ''pending_count'' False (enc_int (snd v)) @ [])"

definition LogEntry_json :: "timefmt \<Rightarrow> LogEntry \<Rightarrow> json" where
  "LogEntry_json tf e = JObj (
     member ''ts'' False (enc_time tf (le_TS e)) @
     member ''level'' False (enc_string (le_Level e)) @
     member ''msg'' False (enc_string (le_Msg e)) @ [])"

definition CloudConfigView_json :: "CloudConfigView \<Rightarrow> json" where
  "CloudConfigView_json v = JObj (
     member ''endpoint'' False (enc_string (cv_Endpoint v)) @
     member ''protocol'' False (enc_string (cv_Protocol v)) @
     member ''derived_url'' False (enc_string (cv_DerivedURL v)) @
     member ''agent_id'' (cv_AgentID v = []) (enc_string (cv_AgentID v)) @
     member ''device_token'' False (enc_string (cv_DeviceToken v)) @
     member ''mtls_cert'' (cv_MTLSCert v = []) (enc_string (cv_MTLSCert v)) @
     member ''mtls_key'' (cv_MTLSKey v = []) (enc_string (cv_MTLSKey v)) @ [])"

definition OpsConfig_json :: "OpsConfig \<Rightarrow> json" where
  "OpsConfig_json c = JObj (member ''port'' False (enc_int (oc_Port c)) @ [])"

definition StorageConfig_json :: "StorageConfig \<Rightarrow> json" where
  "StorageConfig_json c = JObj (
     member ''data_dir'' False (enc_string (sc_DataDir c)) @
     member ''log_dir'' False (enc_string (sc_LogDir c)) @ [])"

definition LogConfig_json :: "LogConfig \<Rightarrow> json" where
  "LogConfig_json c = JObj (
     member ''level'' False (enc_string (lc_Level c)) @
     member ''retention_days'' False (enc_int (lc_RetentionDays c)) @
     member ''max_size_mb'' (lc_MaxSizeMB c = 0) (enc_int (lc_MaxSizeMB c)) @ [])"

definition ConfigView_json :: "timefmt \<Rightarrow> ConfigView \<Rightarrow> json" where
  "ConfigView_json tf v = JObj (
     member ''config_version'' False (enc_int (gv_ConfigVersion v)) @
     member ''cloud'' False (CloudConfigView_json (gv_Cloud v)) @
     member ''ops'' False (OpsConfig_json (gv_Ops v)) @
     member ''storage'' False (StorageConfig_json (gv_Storage v)) @
     member ''log'' False (LogConfig_json (gv_Log v)) @
     member ''devices'' (gv_Devices v = []) (JArr (map (Device_json tf) (gv_Devices v))) @ [])"

text \<open>
  The value a handler hands to \<open>writeJSON\<close>; the maps have their keys in order. Where a device has no queue
  yet \<open>ListPending\<close> returns a nil slice, which is written as \<open>null\<close>. \<open>None\<close> is the router's own answer.
\<close>

definition task_json :: "timefmt \<Rightarrow> PrintTask \<Rightarrow> json" where
  "task_json tf t = PrintTask_json tf (extra_entries (pp_Extra (t_Params t))) t"

fun body_json :: "timefmt \<Rightarrow> 'db OpsServer \<Rightarrow> body \<Rightarrow> json option" where
  "body_json tf s (BStatus st) = Some (JObj [(''status'', enc_string st)])"
| "body_json tf s (BError msg code) = Some (JObj [(''code'', enc_string code), (''error'', enc_string msg)])"
| "body_json tf s (BSummary x) = Some (StatusSummary_json tf x)"
| "body_json tf s (BTopology n) = Some (NetTopology_json tf n)"
| "body_json tf s (BDevices vs n) = Some (JObj [(''count'', enc_int n), (''devices'', JArr (map (DeviceView_json tf) vs))])"
| "body_json tf s (BQueues vs n) = Some (JObj [(''queues'', JArr (map QueueOverview_json vs)), (''total_pending'', enc_int n)])"
| "body_json tf s (BQueue d n ts) = Some (JObj [(''device_id'', enc_string d), (''pending_count'', enc_int n),
     (''tasks'', if Queue_get (os_queue s) d = None then JNull else JArr (map (task_json tf) ts))])"
| "body_json tf s (BLogs es n) = Some (JObj [(''count'', enc_int n), (''logs'', JArr (map (LogEntry_json tf) es))])"
| "body_json tf s (BConfig v) = Some (ConfigView_json tf v)"
| "body_json tf s BNotFound = None"

fun body_times :: "body \<Rightarrow> gotime list" where
  "body_times (BSummary x) = ss_GeneratedAt x # (case ss_NetMetrics x of None \<Rightarrow> [] | Some m \<Rightarrow> [m_lastCheckAt m])"
| "body_times (BTopology n) = [nt_LastCheckAt n]"
| "body_times (BDevices vs n) = map dv_LastProbeAt vs"
| "body_times (BQueue d n ts) = concat (map (\<lambda>t. [t_ReceivedAt t, t_StartedAt t, t_FinishedAt t, t_NextRetryAt t]) ts)"
| "body_times (BLogs es n) = map le_TS es"
| "body_times (BConfig v) = concat (map (\<lambda>d. [d_LastProbeAt d, d_CreatedAt d, d_UpdatedAt d]) (gv_Devices v))"
| "body_times _ = []"

text \<open>
  \<open>writeJSON\<close>: the status, the type of the content and the indented text with a newline. An instant that
  has no text makes the encoder fail, which is ignored, after the status was sent: the body is empty.
\<close>

definition contentTypeJSON :: string where
  "contentTypeJSON = ''application/json; charset=utf-8''"

definition writeJSON :: "timefmt \<Rightarrow> 'db OpsServer \<Rightarrow> response \<Rightarrow> (int \<times> string \<times> string) option" where
  "writeJSON tf s r =
     map_option (\<lambda>j. (fst r, contentTypeJSON, if list_all (time_ok tf) (body_times (snd r)) then json_indent 0 j @ [CHR 0x0A] else []))
       (body_json tf s (snd r))"

section \<open>Reading a log line\<close>

text \<open>
  \<open>json.Unmarshal\<close> into a map of interfaces: of members with the same name the last counts; a number that
  is beyond the range of a \<open>float64\<close> is an error. The bound is half a unit in the last place above the
  largest one.
\<close>

definition float_fits :: "string \<Rightarrow> bool" where
  "float_fits l =
     (let s = (if hd l = CHR ''-'' then tl l else l);
          m = takeWhile (\<lambda>c. c \<noteq> CHR ''e'' \<and> c \<noteq> CHR ''E'') s;
          e = drop (length m + 1) s;
          ip = takeWhile is_digit m;
          fp = drop (length ip + 1) m;
          ex = (case e of [] \<Rightarrow> 0
                | c # r \<Rightarrow> if c = CHR ''-'' then - int (digits_num r) else if c = CHR ''+'' then int (digits_num r) else int (digits_num e))
               - int (length fp);
          D = digits_num (ip @ fp); B = 2 ^ 1024 - 2 ^ 970
      in if D = 0 then True else if 0 \<le> ex then D * 10 ^ nat ex < B else D < B * 10 ^ nat (- ex))"

fun floats_fit :: "json \<Rightarrow> bool" where
  "floats_fit (JNum l) \<longleftrightarrow> float_fits l"
| "floats_fit (JArr js) \<longleftrightarrow> list_all floats_fit js"
| "floats_fit (JObj ms) \<longleftrightarrow> list_all (\<lambda>(k, v). floats_fit v) ms"
| "floats_fit _ \<longleftrightarrow> True"

definition string_member :: "(string \<times> json) list \<Rightarrow> string \<Rightarrow> string option" where
  "string_member ms k =
     (case map_of (rev (map (\<lambda>(k, v). (json_unquote k, v)) ms)) k of Some (JStr r) \<Rightarrow> Some (json_unquote r) | _ \<Rightarrow> None)"

definition log_line_json :: "string \<Rightarrow> json_line option" where
  "log_line_json line =
     (case json_parse line of
        Some (JObj ms) \<Rightarrow>
          if floats_fit (JObj ms) then
            Some \<lparr>jl_level = string_member ms ''level'', jl_msg = string_member ms ''msg'', jl_ts = string_member ms ''ts''\<rparr>
          else None
      | Some JNull \<Rightarrow> Some \<lparr>jl_level = None, jl_msg = None, jl_ts = None\<rparr>
      | _ \<Rightarrow> None)"

definition go_parsers :: log_parsers where
  "go_parsers = \<lparr>pa_json = log_line_json, pa_nano = rfc3339_parse, pa_rfc = rfc3339_parse\<rparr>"

section \<open>Starting and stopping\<close>

text \<open>
  The server with its listener: \<open>or_http\<close> is whether \<open>httpServer\<close> is set, \<open>or_serving\<close> whether its listener
  is open, \<open>or_stopped\<close> whether \<open>stopOnce\<close> has run. The argument of \<open>Start\<close> is the error of \<open>net.Listen\<close>.
\<close>

record 'db OpsRun =
  or_server :: "'db OpsServer"
  or_listener :: "string option"
  or_http :: bool
  or_serving :: bool
  or_stopped :: bool

definition NewServer :: "AgentConfig \<Rightarrow> Manager \<Rightarrow> 'db Queue \<Rightarrow> NetMetrics option \<Rightarrow> audit option \<Rightarrow> 'db OpsRun" where
  "NewServer cfg mgr q metrics audit =
     \<lparr>or_server = \<lparr>os_cfg = cfg, os_mgr = mgr, os_queue = q, os_metrics = metrics, os_audit = audit\<rparr>,
      or_listener = None, or_http = False, or_serving = False, or_stopped = False\<rparr>"

definition Server_Start :: "goerror option \<Rightarrow> 'db OpsRun \<Rightarrow> goerror option \<times> 'db OpsRun" where
  "Server_Start listen r =
     (case listen of
        Some err \<Rightarrow> (Some err, r)
      | None \<Rightarrow> (None, r\<lparr>or_listener := Some (ops_addr (os_cfg (or_server r))), or_http := True, or_serving := True\<rparr>))"

definition Server_Stop :: "'db OpsRun \<Rightarrow> 'db OpsRun" where
  "Server_Stop r =
     (if or_stopped r then r
      else let r' = (if or_http r then r\<lparr>or_serving := False\<rparr> else r) in r'\<lparr>or_stopped := True\<rparr>)"

text \<open>A request: refused by the network when nothing listens, by the middleware when it is not local.\<close>

definition deniedText :: string where
  "deniedText = ''{'' @ quoted ''error'' @ '':'' @ quoted ''access denied'' @ '','' @ quoted ''code'' @ '':'' @ quoted ''OPS_ACCESS_DENIED'' @ ''}''"

definition serve_http :: "timefmt \<Rightarrow> ops_env \<Rightarrow> request \<Rightarrow> matched \<Rightarrow> 'db OpsRun \<Rightarrow> (int \<times> string \<times> string) option \<times> 'db OpsRun" where
  "serve_http tf oe req rt r =
     (if \<not> or_serving r then (None, r)
      else case LocalOnly oe req rt (or_server r) of
             (resp, s) \<Rightarrow>
               ((if isLocalAddr (rq_RemoteAddr req) then writeJSON tf s resp else Some (403, ''application/json'', deniedText)),
                r\<lparr>or_server := s\<rparr>))"

section \<open>Every response is JSON\<close>

lemma leaf_wf [simp]:
  "wf_json d (enc_string s)" "wf_json d (enc_int i)" "wf_json d (Protocol_MarshalJSON p)" "wf_json d (DeviceStatus_MarshalJSON ds)"
  "wf_json d (TaskStatus_MarshalJSON ts)" "wf_json d (NetClass_MarshalJSON c)" "wf_json d (enc_bytes b)"
  by (simp_all add: enc_string_def json_escape_wf enc_int_def wf_num_itoa Protocol_MarshalJSON_def DeviceStatus_MarshalJSON_def
      TaskStatus_MarshalJSON_def NetClass_MarshalJSON_def enc_bytes_def)

lemma time_wf: "timefmt_ok tf \<Longrightarrow> wf_json d (enc_time tf t)"
  by (simp add: enc_time_def timefmt_ok_def split: option.splits)

lemma wf_obj_Suc: "wf_json (Suc d) (JObj ms) \<longleftrightarrow> (\<forall>m \<in> set ms. wf_raw (fst m) \<and> wf_json d (snd m))"
  by (auto simp: case_prod_unfold)

lemma wf_arr_Suc: "wf_json (Suc d) (JArr js) \<longleftrightarrow> (\<forall>j \<in> set js. wf_json d j)"
  by simp

lemmas wf_struct = wf_obj_Suc wf_arr_Suc ball_member ball_Un

lemma views_wf:
  assumes "timefmt_ok tf"
  shows "wf_json (Suc d) (NetMetricsSnapshot_json tf m)" "wf_json (Suc d) (NetTopology_json tf n)" "wf_json (Suc d) (DeviceView_json tf dv)"
    "wf_json (Suc d) (QueueOverview_json v)" "wf_json (Suc d) (LogEntry_json tf e)" "wf_json (Suc d) (CloudConfigView_json c)"
    "wf_json (Suc d) (OpsConfig_json oc)" "wf_json (Suc d) (StorageConfig_json sc)" "wf_json (Suc d) (LogConfig_json lc)"
    "wf_json (Suc d) (Device_json tf dev)"
  using time_wf [OF assms]
  by (simp_all add: NetMetricsSnapshot_json_def NetTopology_json_def DeviceView_json_def QueueOverview_json_def LogEntry_json_def
      CloudConfigView_json_def OpsConfig_json_def StorageConfig_json_def LogConfig_json_def Device_json_def wf_struct del: wf_json.simps(5,6))

lemma summary_wf: "timefmt_ok tf \<Longrightarrow> wf_json (Suc (Suc d)) (StatusSummary_json tf x)"
  using time_wf views_wf(1)
  by (cases "ss_NetMetrics x") (simp_all add: StatusSummary_json_def wf_struct del: wf_json.simps(5,6))

lemma config_view_wf: "timefmt_ok tf \<Longrightarrow> wf_json (Suc (Suc (Suc d))) (ConfigView_json tf v)"
  using views_wf by (simp add: ConfigView_json_def wf_struct del: wf_json.simps(5,6))

lemma task_json_wf: "timefmt_ok tf \<Longrightarrow> wf_json (Suc (Suc (Suc d))) (task_json tf t)"
proof -
  assume "timefmt_ok tf"
  moreover have "wf_json (Suc (Suc d)) (PrintParams_json ex p)" for ex p
    by (auto simp: PrintParams_json_def wf_struct enc_string_map_def json_escape_wf simp del: wf_json.simps(5,6))
  ultimately show ?thesis using time_wf by (simp add: task_json_def PrintTask_json_def wf_struct del: wf_json.simps(5,6))
qed

lemma body_json_wf:
  assumes "timefmt_ok tf" "body_json tf s b = Some j"
  shows "wf_json maxNestingDepth j"
proof -
  have "wf_json (Suc (Suc (Suc (Suc (Suc 0))))) j"
    using assms(2) views_wf [OF assms(1)] summary_wf [OF assms(1)] config_view_wf [OF assms(1)] task_json_wf [OF assms(1)]
    by (cases b) (auto simp: wf_struct simp del: wf_json.simps(5,6))
  then show ?thesis by (rule wf_json_mono) (simp add: maxNestingDepth_def)
qed

lemma writeJSON_read:
  assumes "timefmt_ok tf" "body_json tf s b = Some j" "list_all (time_ok tf) (body_times b)"
  shows "\<exists>text. writeJSON tf s (st, b) = Some (st, contentTypeJSON, text) \<and> json_parse text = Some j"
proof -
  have "json_parse (json_indent 0 j @ [CHR 0x0A]) = Some j"
    using body_json_wf [OF assms(1,2)] by (intro json_parse_spaced json_indent_spaced) (auto simp: is_ws_def)
  then show ?thesis using assms(2,3) by (simp add: writeJSON_def)
qed

section \<open>The entries of a map\<close>

lemma extra_entries_ok:
  assumes "finite (dom m)"
  shows "distinct (map fst (extra_entries m))" "map_of (extra_entries m) = m" "(k, x) \<in> set (extra_entries m) \<Longrightarrow> m k = Some x"
proof -
  show "distinct (map fst (extra_entries m))" by (simp add: extra_entries_def o_def)
  show "map_of (extra_entries m) = m"
    using assms by (auto simp: extra_entries_def map_of_map_restrict restrict_map_def fun_eq_iff domIff)
  show "(k, x) \<in> set (extra_entries m) \<Longrightarrow> m k = Some x" using assms by (auto simp: extra_entries_def)
qed

text \<open>A task whose texts are Utf-8 and whose numbers have 64 bits.\<close>

definition task_plain :: "timefmt \<Rightarrow> PrintTask \<Rightarrow> bool" where
  "task_plain tf t \<longleftrightarrow> finite (dom (pp_Extra (t_Params t))) \<and> task_ok tf (extra_entries (pp_Extra (t_Params t))) t"

lemma task_json_decode:
  "task_plain tf t \<Longrightarrow> timefmt_ok tf \<Longrightarrow> dec_struct (PrintTask_fields tf) (task_json tf t) zero_PrintTask = (Fine, t)"
  by (simp add: task_plain_def task_json_def task_decode)

text \<open>An entry of the device view, read with the structure of a device.\<close>

lemma device_view_decode:
  assumes "device_ok tf d" "timefmt_ok tf"
  shows "dec_struct (Device_fields tf) (DeviceView_json tf (device_view d)) zero_Device = (Fine, zero_Device
    \<lparr>d_DeviceID := d_DeviceID d, d_Name := d_Name d, d_IP := d_IP d, d_Protocol := d_Protocol d, d_Status := d_Status d,
     d_LastProbeAt := d_LastProbeAt d\<rparr>)"
proof -
  note time = leaf_codec.member_step [OF time_codec [OF assms(2)]]
  note steps = str.member_step [OF device_find(1)] str.member_step [OF device_find(2)] str.member_step [OF device_find(3)]
    protocol.member_step [OF device_find(6)] dstatus.member_step [OF device_find(7)] time [OF device_find(10)]
  show ?thesis unfolding DeviceView_json_def dec_struct.simps
    by (intro steps) (use assms in \<open>simp_all add: unquote_plain device_ok_def zero_Device_def device_view_def\<close>)
qed

section \<open>Log lines\<close>

text \<open>A line of the agent's log, with the time the logger writes in a zone.\<close>

definition log_line :: "int \<Rightarrow> gotime \<Rightarrow> string \<Rightarrow> bool" where
  "log_line off t line \<longleftrightarrow>
     (\<exists>ms rest. line = CHR ''{'' # rest \<and> json_parse line = Some (JObj ms) \<and> floats_fit (JObj ms) \<and>
        string_member ms ''ts'' = Some (iso8601_format off t))"

lemma json_parse_short: "json_parse ''{'' = None"
  by (simp add: json_parse_def numeral_3_eq_3)

lemma parseLogLine_time:
  assumes "log_line off t line"
  shows "le_TS (parseLogLine go_parsers now line) =
    (case rfc3339_parse (iso8601_format off t) of None \<Rightarrow> now | Some t \<Rightarrow> if t = 0 then now else t)"
proof -
  obtain ms rest where l: "line = CHR ''{'' # rest" "json_parse line = Some (JObj ms)" "floats_fit (JObj ms)"
    "string_member ms ''ts'' = Some (iso8601_format off t)" using assms by (auto simp: log_line_def)
  then have "rest \<noteq> []" using json_parse_short by auto
  then have "\<not> length line < 2" using l(1) by (cases rest) auto
  moreover have "log_line_json line = Some \<lparr>jl_level = string_member ms ''level'', jl_msg = string_member ms ''msg'', jl_ts = string_member ms ''ts''\<rparr>"
    using l(2,3) by (simp add: log_line_json_def)
  ultimately show ?thesis using l(1,4)
    by (simp add: parseLogLine_def go_parsers_def Let_def IsZero_def split: option.splits)
qed

section \<open>Properties\<close>

text \<open>
  (C35) The device view and the queue overview are complete. Let the texts of the registered devices be UTF-8 and their
  times in the years the format admits. The text for \<open>/devices\<close> gives the number of the registered devices and one
  entry for each, in order; read with the structure of a device, an entry gives back the id, name, address,
  protocol, status and last probe of that device. The text for \<open>/queues\<close> gives for each registered device, in order, its id
  and the number of tasks pending there, and the sum of these numbers.
\<close>

theorem ops_devices_view_complete:
  assumes "\<forall>x. \<bar>off x\<bar> < 1440" "devs = Manager_List (os_mgr s)" "\<forall>d \<in> set devs. device_ok (rfc_tf off) d"
  shows "(\<exists>text js. writeJSON (rfc_tf off) s (handleDevices s) = Some (200, contentTypeJSON, text) \<and>
      json_parse text = Some (JObj [(''count'', enc_int (int (length devs))), (''devices'', JArr js)]) \<and>
      map (\<lambda>j. dec_struct (Device_fields (rfc_tf off)) j zero_Device) js = map (\<lambda>d. (Fine, zero_Device
        \<lparr>d_DeviceID := d_DeviceID d, d_Name := d_Name d, d_IP := d_IP d, d_Protocol := d_Protocol d, d_Status := d_Status d,
         d_LastProbeAt := d_LastProbeAt d\<rparr>)) devs) \<and>
    (\<exists>text. writeJSON (rfc_tf off) s (handleQueues s) = Some (200, contentTypeJSON, text) \<and>
      json_parse text = Some (JObj
        [(''queues'', JArr (map (\<lambda>d. JObj [(''device_id'', enc_string (d_DeviceID d)),
            (''pending_count'', enc_int (int (length (Queue_ListPending (os_queue s) (d_DeviceID d)))))]) devs)),
         (''total_pending'', enc_int (\<Sum>d \<leftarrow> devs. int (length (Queue_ListPending (os_queue s) (d_DeviceID d)))))]))"
proof -
  let ?tf = "rfc_tf off"
  note ok = rfc_tf_ok [OF assms(1)]
  have t: "list_all (time_ok ?tf) (body_times (BDevices (map device_view devs) (int (length devs))))"
    using assms(3) by (auto simp: list_all_iff device_view_def device_ok_def)
  have d: "handleDevices s = (200, BDevices (map device_view devs) (int (length devs)))"
    by (simp add: handleDevices_def Let_def assms(2))
  let ?js = "map (DeviceView_json ?tf) (map device_view devs)"
  have "map (\<lambda>j. dec_struct (Device_fields ?tf) j zero_Device) ?js = map (\<lambda>d. (Fine, zero_Device
        \<lparr>d_DeviceID := d_DeviceID d, d_Name := d_Name d, d_IP := d_IP d, d_Protocol := d_Protocol d, d_Status := d_Status d,
         d_LastProbeAt := d_LastProbeAt d\<rparr>)) devs"
    using assms(3) device_view_decode [OF _ ok] by simp
  moreover obtain out where "writeJSON ?tf s (handleDevices s) = Some (200, contentTypeJSON, out)"
    "json_parse out = Some (JObj [(''count'', enc_int (int (length devs))), (''devices'', JArr ?js)])"
    using writeJSON_read [OF ok _ t, of s _ 200] unfolding d by auto
  moreover have "\<exists>text. writeJSON ?tf s (handleQueues s) = Some (200, contentTypeJSON, text) \<and>
      json_parse text = Some (JObj
        [(''queues'', JArr (map (\<lambda>d. JObj [(''device_id'', enc_string (d_DeviceID d)),
            (''pending_count'', enc_int (int (length (Queue_ListPending (os_queue s) (d_DeviceID d)))))]) devs)),
         (''total_pending'', enc_int (\<Sum>d \<leftarrow> devs. int (length (Queue_ListPending (os_queue s) (d_DeviceID d)))))])"
    using writeJSON_read [OF ok, of s "BQueues (fst (queues_loop (os_queue s) devs [] 0)) (snd (queues_loop (os_queue s) devs [] 0))" _ 200]
    by (simp add: handleQueues_def queues_loop_sum assms(2) PendingCount_length QueueOverview_json_def member_def o_def)
  ultimately show ?thesis by blast
qed

text \<open>
  (C34) The queue view is complete: the text for a registered device that has a queue gives back its id, the
  number of its pending tasks, and every pending task in order, each decoding to the task in the queue (tasks whose strings are UTF-8, whose
  numbers have 64 bits and whose instants lie in the years that RFC 3339 can write).
\<close>

theorem ops_queue_view_complete:
  assumes "\<forall>x. \<bar>off x\<bar> < 1440" "Manager_Get (os_mgr s) d \<noteq> None" "d \<noteq> []" "Queue_get (os_queue s) d \<noteq> None"
    "\<forall>t \<in> set (Queue_ListPending (os_queue s) d). task_plain (rfc_tf off) t"
  shows "\<exists>text js. writeJSON (rfc_tf off) s (handleQueueDetail d s) = Some (200, contentTypeJSON, text) \<and>
    json_parse text = Some (JObj [(''device_id'', enc_string d), (''pending_count'', enc_int (Queue_PendingCount (os_queue s) d)),
      (''tasks'', JArr js)]) \<and>
    map (\<lambda>j. dec_struct (PrintTask_fields (rfc_tf off)) j zero_PrintTask) js = map (Pair Fine) (Queue_ListPending (os_queue s) d)"
proof -
  let ?ts = "Queue_ListPending (os_queue s) d" let ?tf = "rfc_tf off"
  have h: "handleQueueDetail d s = (200, BQueue d (int (length ?ts)) ?ts)" using assms(2,3) by (simp add: handleQueueDetail_def Let_def)
  have c: "int (length ?ts) = Queue_PendingCount (os_queue s) d"
    by (simp add: Queue_ListPending_def Queue_PendingCount_def split: option.splits)
  have "list_all (time_ok ?tf) (body_times (BQueue d (int (length ?ts)) ?ts))"
    using assms(5) by (auto simp: list_all_iff task_plain_def task_ok_def)
  from writeJSON_read [OF rfc_tf_ok [OF assms(1)] _ this, of s] assms(4)
  obtain out where t: "writeJSON ?tf s (handleQueueDetail d s) = Some (200, contentTypeJSON, out)"
    "json_parse out = Some (JObj [(''device_id'', enc_string d), (''pending_count'', enc_int (Queue_PendingCount (os_queue s) d)),
      (''tasks'', JArr (map (task_json ?tf) ?ts))])" unfolding h by (fastforce simp: c)
  have "map (\<lambda>j. dec_struct (PrintTask_fields ?tf) j zero_PrintTask) (map (task_json ?tf) ?ts) = map (Pair Fine) ?ts"
    using task_json_decode rfc_tf_ok [OF assms(1)] assms(5) by simp
  with t show ?thesis by blast
qed

text \<open>
  (C36) The log view loses the time of the agent's own entries. The logger writes a zone without a colon, which
  the reader does not accept: where the clock of the host is not on UTC, every entry is shown with the time
  of the request instead of its own; on UTC it keeps its time to the millisecond.
\<close>

theorem log_view_loses_times:
  assumes "log_line off t line" "\<bar>off\<bar> < 1440"
    "civil ((t + off * 60 * ns_per_second) div ns_per_second div 86400) = (y, m, k)" "0 \<le> y" "y \<le> 9999" "1000000 \<le> t"
  shows "le_TS (parseLogLine go_parsers now line) = (if off = 0 then t div 1000000 * 1000000 else now)"
proof -
  have "0 < t div 1000000" using assms(6) by (simp add: pos_imp_zdiv_pos_iff)
  then show ?thesis using parseLogLine_time [OF assms(1)] iso8601_read [OF assms(3-5,2)] by simp
qed

text \<open>
  The server serves between its start and its stop, on the local address only. A stop before the start
  uses up the only one: a server that is started afterwards cannot be stopped.
\<close>

theorem ops_server_lifecycle:
  "Server_Start None (NewServer cfg mgr q ms au) = (None, r) \<Longrightarrow>
     or_listener r = Some (ops_addr cfg) \<and> or_serving r \<and> \<not> or_serving (Server_Stop r) \<and>
     fst (serve_http tf oe req rt (Server_Stop r)) = None"
  "or_stopped r' \<Longrightarrow> or_serving (Server_Stop (snd (Server_Start None r')))"
  by (auto simp: Server_Start_def NewServer_def Server_Stop_def serve_http_def Let_def)

section \<open>Witnesses\<close>

definition shown_server :: "mem_db OpsServer" where
  "shown_server = demo_server\<lparr>os_mgr := m_dev DeviceStatusOnline, os_queue := q_with [task_N]\<rparr>"

lemma shown_server_sel: "Manager_Get (os_mgr shown_server) ''D01'' \<noteq> None" "Queue_get (os_queue shown_server) ''D01'' \<noteq> None"
  "Queue_ListPending (os_queue shown_server) ''D01'' = [task_N]"
  by (simp_all add: shown_server_def m_dev_def Manager_Get_def q_with_def queue_defs)

lemma task_N_plain: "task_plain (rfc_tf (\<lambda>_. 0)) task_N"
proof -
  have "pp_Extra (t_Params task_N) = Map.empty" by (simp add: task_N_def task_B_def zero_PrintTask_def)
  then show ?thesis using task_N_ok by (simp add: task_plain_def extra_entries_def)
qed

lemma demo_iso: "iso8601_format 480 1000000 = ''0001-01-01T08:00:00.001+0800''" "civil 0 = (1, 1, 1)"
  by code_simp+

definition line_1 :: string where
  "line_1 = json_text (JObj [(''ts'', JStr ''0001-01-01T08:00:00.001+0800'')])"

lemma line_1_log: "log_line 480 1000000 line_1"
proof -
  have "json_parse line_1 = Some (JObj [(''ts'', JStr ''0001-01-01T08:00:00.001+0800'')])"
    unfolding line_1_def by (rule json_parse_text) (simp add: maxNestingDepth_def)
  moreover have "\<exists>rest. line_1 = CHR ''{'' # rest" by (simp add: line_1_def)
  ultimately show ?thesis unfolding log_line_def demo_iso by (fastforce simp: string_member_def unquote_plain)
qed

lemma dev_A_ok: "device_ok (rfc_tf (\<lambda>_. 0)) (dev_A\<lparr>d_Status := DeviceStatusOnline\<rparr>)"
  by (simp add: device_ok_def dev_A_def zero_Device_def go_consts demo_times is_int64_def utf8_valid_ascii)

theorem ops_devices_view_complete_witness:
  "\<exists>text js. writeJSON (rfc_tf (\<lambda>_. 0)) shown_server (handleDevices shown_server) = Some (200, contentTypeJSON, text) \<and>
     json_parse text = Some (JObj [(''count'', enc_int 1), (''devices'', JArr js)]) \<and>
     map (\<lambda>j. d_Name (snd (dec_struct (Device_fields (rfc_tf (\<lambda>_. 0))) j zero_Device))) js = [''front'']"
proof -
  have l: "Manager_List (os_mgr shown_server) = [dev_A\<lparr>d_Status := DeviceStatusOnline\<rparr>]"
    by (simp add: shown_server_def m_dev_def Manager_List_def)
  have "\<forall>d \<in> set [dev_A\<lparr>d_Status := DeviceStatusOnline\<rparr>]. device_ok (rfc_tf (\<lambda>_. 0)) d" using dev_A_ok by simp
  from ops_devices_view_complete [OF demo_zone l [symmetric] this] obtain out js where
    t: "writeJSON (rfc_tf (\<lambda>_. 0)) shown_server (handleDevices shown_server) = Some (200, contentTypeJSON, out)"
      "json_parse out = Some (JObj [(''count'', enc_int 1), (''devices'', JArr js)])"
    and m: "map (\<lambda>j. dec_struct (Device_fields (rfc_tf (\<lambda>_. 0))) j zero_Device) js = [(Fine, zero_Device
      \<lparr>d_DeviceID := ''D01'', d_Name := ''front'', d_IP := ''10.0.0.9'', d_Protocol := d_Protocol dev_A, d_Status := DeviceStatusOnline,
       d_LastProbeAt := d_LastProbeAt dev_A\<rparr>)]" by (auto simp: dev_A_def)
  from arg_cong [OF m, of "map (d_Name \<circ> snd)"] have "map (\<lambda>j. d_Name (snd (dec_struct (Device_fields (rfc_tf (\<lambda>_. 0))) j zero_Device))) js = [''front'']"
    by (simp add: o_def)
  with t show ?thesis by (intro exI conjI)
qed

theorem ops_queue_view_complete_witness:
  "\<exists>out js. writeJSON (rfc_tf (\<lambda>_. 0)) shown_server (handleQueueDetail ''D01'' shown_server) = Some (200, contentTypeJSON, out) \<and>
     map (\<lambda>j. dec_struct (PrintTask_fields (rfc_tf (\<lambda>_. 0))) j zero_PrintTask) js = [(Fine, task_N)]"
proof -
  have "\<forall>t \<in> set (Queue_ListPending (os_queue shown_server) ''D01''). task_plain (rfc_tf (\<lambda>_. 0)) t" "''D01'' \<noteq> []"
    using task_N_plain by (simp_all add: shown_server_sel)
  from ops_queue_view_complete [OF demo_zone shown_server_sel(1) this(2) shown_server_sel(2) this(1)]
  show ?thesis unfolding shown_server_sel(3) list.map by (elim exE conjE) (intro exI conjI; assumption)
qed

theorem log_view_loses_times_witness: "le_TS (parseLogLine go_parsers 77 line_1) = 77"
  using log_view_loses_times [OF line_1_log, of 1 1 1 77] demo_iso(2) by (simp add: ns_per_second_def)

end
