(* ===== verification/Reconnect.thy ===== *)
theory Reconnect
  imports CloudConn
begin

text \<open>
  \<^verbatim>\<open>src/internal/cloudlink/reconnect.go\<close>: what happens after a lost connection. The prober and the
  reconnect function are given by their results, call by call; a goroutine is the list of what
  happens to it (its ticker or timer fires, its context ends). The last part is a step relation on
  the reconnector with its one worker goroutine.
\<close>

section \<open>State and the delay\<close>

definition reconnectInitDelay :: duration where "reconnectInitDelay = 5 * Second"
definition reconnectMaxDelay :: duration where "reconnectMaxDelay = 300 * Second"
definition reconnectLocalWait :: duration where "reconnectLocalWait = 10 * Second"

record Reconnect =
  rc_hasProber :: bool
  rc_hasReconnect :: bool
  rc_attempt :: int
  rc_running :: bool

definition NewReconnect :: "bool \<Rightarrow> bool \<Rightarrow> Reconnect" where
  "NewReconnect prober reconnectFn =
     \<lparr>rc_hasProber = prober, rc_hasReconnect = reconnectFn, rc_attempt = 0, rc_running = False\<rparr>"

text \<open>
  \<open>int64(math.Pow(2, k))\<close>: exact below \<open>2\<^sup>6\<^sup>3\<close>, 0 for a negative exponent; out of range the
  language leaves the result to the platform, here the parameter \<open>ovf\<close>.
\<close>

definition pow2_int64 :: "(int \<Rightarrow> int) \<Rightarrow> int \<Rightarrow> int" where
  "pow2_int64 ovf k = (if k < 0 then 0 else if k < 63 then 2 ^ nat k else ovf k)"

definition Reconnect_nextDelay :: "(int \<Rightarrow> int) \<Rightarrow> Reconnect \<Rightarrow> duration \<times> Reconnect" where
  "Reconnect_nextDelay ovf r =
     (let attempt = wrap64 (rc_attempt r + 1);
          delay = wrap64 (reconnectInitDelay * pow2_int64 ovf (attempt - 1));
          delay' = (if delay > reconnectMaxDelay then reconnectMaxDelay else delay)
      in (delay', r\<lparr>rc_attempt := attempt\<rparr>))"

section \<open>Trying\<close>

text \<open>\<open>tryReconnect\<close>, given the result of the reconnect function.\<close>

definition Reconnect_tryReconnect :: "goerror option \<Rightarrow> Reconnect \<Rightarrow> bool \<times> Reconnect" where
  "Reconnect_tryReconnect rec r =
     (if \<not> rc_hasReconnect r then (True, r)
      else case rec of
             Some err \<Rightarrow> (False, r)
           | None \<Rightarrow> (True, r\<lparr>rc_attempt := 0, rc_running := False\<rparr>))"

section \<open>The two goroutines\<close>

datatype wait_event = WaitDone | WaitTick NetClass "goerror option" "goerror option"
datatype backoff_event = HeadDone | DelayDone | DelayOver "goerror option"
datatype loop_state = Blocked | Exited

text \<open>One turn of the loop of \<open>waitForLocalRecovery\<close>; the tick carries what the probe and the reconnect return.\<close>

definition wait_turn :: "wait_event \<Rightarrow> Reconnect \<Rightarrow> loop_state \<times> Reconnect" where
  "wait_turn ev r =
     (case ev of
        WaitDone \<Rightarrow> (Exited, r)
      | WaitTick c perr rec \<Rightarrow>
          if \<not> rc_hasProber r then (Exited, snd (Reconnect_tryReconnect rec r))
          else if perr \<noteq> None then (Blocked, r)
          else if c = NetClassLocalNetFail then (Blocked, r)
          else (Exited, snd (Reconnect_tryReconnect rec r)))"

fun wait_loop :: "wait_event list \<Rightarrow> Reconnect \<Rightarrow> loop_state \<times> Reconnect" where
  "wait_loop [] r = (Blocked, r)"
| "wait_loop (ev # evs) r =
     (case wait_turn ev r of (Blocked, r') \<Rightarrow> wait_loop evs r' | (Exited, r') \<Rightarrow> (Exited, r'))"

text \<open>One turn of the loop of \<open>backoffReconnect\<close>: the delay it chose, if it got that far.\<close>

definition backoff_turn :: "(int \<Rightarrow> int) \<Rightarrow> backoff_event \<Rightarrow> Reconnect \<Rightarrow> loop_state \<times> duration list \<times> Reconnect" where
  "backoff_turn ovf ev r =
     (if ev = HeadDone then (Exited, [], r)
      else
        let (delay, r1) = Reconnect_nextDelay ovf r
        in case ev of
             DelayOver rec \<Rightarrow>
               (case Reconnect_tryReconnect rec r1 of
                  (True, r2) \<Rightarrow> (Exited, [delay], r2)
                | (False, r2) \<Rightarrow> (Blocked, [delay], r2))
           | _ \<Rightarrow> (Exited, [delay], r1))"

fun backoff_loop :: "(int \<Rightarrow> int) \<Rightarrow> backoff_event list \<Rightarrow> Reconnect \<Rightarrow> loop_state \<times> duration list \<times> Reconnect" where
  "backoff_loop ovf [] r = (Blocked, [], r)"
| "backoff_loop ovf (ev # evs) r =
     (case backoff_turn ovf ev r of
        (Exited, ds, r') \<Rightarrow> (Exited, ds, r')
      | (Blocked, ds, r') \<Rightarrow> (case backoff_loop ovf evs r' of (st, ds', r'') \<Rightarrow> (st, ds @ ds', r'')))"

section \<open>A disconnect\<close>

datatype worker = WaitWorker | BackoffWorker

definition classifyDisconnect :: "(NetClass \<times> goerror option) option \<Rightarrow> goerror \<Rightarrow> NetClass" where
  "classifyDisconnect prober err =
     (if NetClassFromErr err \<noteq> NetClassOK then NetClassFromErr err
      else case prober of
             Some (class, None) \<Rightarrow> class
           | _ \<Rightarrow> NetClassCloudGatewayUnreachable)"

text \<open>Both entry points start a goroutine unless one is taken to be running.\<close>

definition Reconnect_waitForLocalRecovery :: "Reconnect \<Rightarrow> worker option \<times> Reconnect" where
  "Reconnect_waitForLocalRecovery r =
     (if rc_running r then (None, r) else (Some WaitWorker, r\<lparr>rc_running := True\<rparr>))"

definition Reconnect_backoffReconnect :: "Reconnect \<Rightarrow> worker option \<times> Reconnect" where
  "Reconnect_backoffReconnect r =
     (if rc_running r then (None, r) else (Some BackoffWorker, r\<lparr>rc_running := True\<rparr>))"

definition Reconnect_HandleDisconnect ::
  "NetClass \<times> goerror option \<Rightarrow> goerror \<Rightarrow> Reconnect \<Rightarrow> worker option \<times> Reconnect" where
  "Reconnect_HandleDisconnect probe err r =
     (let class = classifyDisconnect (if rc_hasProber r then Some probe else None) err
      in if class = NetClassLocalNetFail then Reconnect_waitForLocalRecovery r
         else Reconnect_backoffReconnect r)"

definition Reconnect_Stop :: "Reconnect \<Rightarrow> bool \<times> Reconnect" where
  "Reconnect_Stop r = (if \<not> rc_running r then (False, r) else (True, r\<lparr>rc_running := False\<rparr>))"

section \<open>The reconnector and its worker\<close>

text \<open>
  The system: the reconnector and the goroutine that is in its loop, if any. \<open>Stop\<close> cancels the
  goroutine and waits for its end, so it is one step.
\<close>

inductive rc_step :: "(int \<Rightarrow> int) \<Rightarrow> Reconnect \<times> worker option \<Rightarrow> Reconnect \<times> worker option \<Rightarrow> bool"
  for ovf where
  disconnect: "Reconnect_HandleDisconnect probe err r = (st, r') \<Longrightarrow>
     rc_step ovf (r, w) (r', if st = None then w else st)"
| wait_again: "wait_turn ev r = (Blocked, r') \<Longrightarrow> rc_step ovf (r, Some WaitWorker) (r', Some WaitWorker)"
| wait_end: "wait_turn ev r = (Exited, r') \<Longrightarrow> rc_step ovf (r, Some WaitWorker) (r', None)"
| backoff_again: "backoff_turn ovf ev r = (Blocked, ds, r') \<Longrightarrow>
     rc_step ovf (r, Some BackoffWorker) (r', Some BackoffWorker)"
| backoff_end: "backoff_turn ovf ev r = (Exited, ds, r') \<Longrightarrow> rc_step ovf (r, Some BackoffWorker) (r', None)"

inductive_cases rc_step_None: "rc_step ovf (r, None) s"
inductive_cases rc_step_Some: "rc_step ovf (r, Some w) s"

section \<open>Lemmas\<close>

text \<open>The schedule the source means: doubling from 5 seconds, at most 300.\<close>

definition backoff_delay :: "nat \<Rightarrow> duration" where
  "backoff_delay k = min (5 * 2 ^ k) 300 * Second"

lemma delay_wrap: "n \<le> 30 \<Longrightarrow> wrap64 (5000000000 * 2 ^ n) = 5000000000 * 2 ^ n"
proof -
  assume "n \<le> 30"
  then have "(2::int) ^ n \<le> 2 ^ 30" by (intro power_increasing) simp_all
  then have "5000000000 * (2::int) ^ n < 2 ^ 63" by simp
  moreover have "- (2 ^ 63) \<le> 5000000000 * (2::int) ^ n" by (rule order_trans [of _ 0]) simp_all
  ultimately show ?thesis by (intro wrap64_id) (simp add: is_int64_def)
qed

lemma nextDelay_eq:
  assumes "rc_attempt r = int n" "n \<le> 62"
  shows "Reconnect_nextDelay ovf r =
    (min (wrap64 (5000000000 * 2 ^ n)) 300000000000, r\<lparr>rc_attempt := int (Suc n)\<rparr>)"
proof -
  have "wrap64 (rc_attempt r + 1) = int n + 1" using assms by (simp add: wrap64_id is_int64_def)
  then show ?thesis using assms
    by (simp add: Reconnect_nextDelay_def Let_def pow2_int64_def reconnectInitDelay_def reconnectMaxDelay_def
        Second_def min_def add.commute)
qed

lemma nextDelay_backoff:
  "rc_attempt r = int n \<Longrightarrow> n \<le> 30 \<Longrightarrow>
     Reconnect_nextDelay ovf r = (backoff_delay n, r\<lparr>rc_attempt := int (Suc n)\<rparr>)"
  by (simp add: nextDelay_eq delay_wrap backoff_delay_def Second_def min_def)

lemma backoff_turn_fail:
  "rc_hasReconnect r \<Longrightarrow> rc_attempt r = int n \<Longrightarrow> n \<le> 30 \<Longrightarrow>
     backoff_turn ovf (DelayOver (Some e)) r = (Blocked, [backoff_delay n], r\<lparr>rc_attempt := int (Suc n)\<rparr>)"
  by (simp add: backoff_turn_def nextDelay_backoff Reconnect_tryReconnect_def)

lemma backoff_turn_success:
  "rc_hasReconnect r \<Longrightarrow> rc_attempt r = int n \<Longrightarrow> n \<le> 30 \<Longrightarrow>
     backoff_turn ovf (DelayOver None) r =
       (Exited, [backoff_delay n], r\<lparr>rc_attempt := 0, rc_running := False\<rparr>)"
  by (simp add: backoff_turn_def nextDelay_backoff Reconnect_tryReconnect_def)

lemma backoff_failures:
  "rc_hasReconnect r \<Longrightarrow> rc_attempt r = int n \<Longrightarrow> n + length fails \<le> 30 \<Longrightarrow>
   backoff_loop ovf (map (\<lambda>e. DelayOver (Some e)) fails @ [DelayOver None]) r =
     (Exited, map backoff_delay [n..<Suc (n + length fails)], r\<lparr>rc_attempt := 0, rc_running := False\<rparr>)"
proof (induction fails arbitrary: r n)
  case Nil
  then show ?case by (simp add: backoff_turn_success)
next
  case (Cons e fails)
  have "[n..<Suc (n + length (e # fails))] = n # [Suc n..<Suc (Suc n + length fails)]"
    by (subst upt_conv_Cons) simp_all
  with Cons.prems Cons.IH [of "r\<lparr>rc_attempt := int (Suc n)\<rparr>" "Suc n"] show ?case
    by (simp add: backoff_turn_fail del: upt_Suc)
qed

lemma wait_turn_running: "wait_turn ev r = (Blocked, r') \<Longrightarrow> r' = r"
  by (auto simp: wait_turn_def split: wait_event.splits if_splits)

lemma backoff_turn_running: "backoff_turn ovf ev r = (Blocked, ds, r') \<Longrightarrow> rc_running r' = rc_running r"
  by (auto simp: backoff_turn_def Reconnect_nextDelay_def Reconnect_tryReconnect_def Let_def
      split: backoff_event.splits if_splits option.splits prod.splits)

lemma HandleDisconnect_cases:
  "Reconnect_HandleDisconnect probe err r = (None, r) \<and> rc_running r \<or>
   (\<exists>k. Reconnect_HandleDisconnect probe err r = (Some k, r\<lparr>rc_running := True\<rparr>) \<and> \<not> rc_running r)"
  by (auto simp: Reconnect_HandleDisconnect_def Reconnect_waitForLocalRecovery_def
      Reconnect_backoffReconnect_def Let_def)

lemma rc_step_running:
  assumes "rc_step ovf s s'" "snd s \<noteq> None \<longrightarrow> rc_running (fst s)"
  shows "snd s' \<noteq> None \<longrightarrow> rc_running (fst s')"
  using assms
proof cases
  case (disconnect probe err r st r' w)
  then show ?thesis using HandleDisconnect_cases [of probe err r] by auto
next
  case (backoff_again ev r ds r')
  then show ?thesis using assms(2) backoff_turn_running by auto
qed (use assms(2) wait_turn_running in auto)

lemma rc_steps_running:
  "(rc_step ovf)\<^sup>*\<^sup>* s s' \<Longrightarrow> snd s \<noteq> None \<longrightarrow> rc_running (fst s) \<Longrightarrow>
     snd s' \<noteq> None \<longrightarrow> rc_running (fst s')"
  by (induction rule: rtranclp_induct) (use rc_step_running in blast)+

lemma stuck_steps:
  "(rc_step ovf)\<^sup>*\<^sup>* s s' \<Longrightarrow> rc_running (fst s) \<and> snd s = None \<Longrightarrow> s' = s"
proof (induction rule: rtranclp_induct)
  case (step s1 s2)
  then have "rc_step ovf (fst s, None) s2" "rc_running (fst s)" by (metis prod.collapse)+
  then have "s2 = (fst s, None)"
  proof (elim rc_step_None)
    fix probe err st r'
    assume "rc_running (fst s)" "s2 = (r', st)"
      "Reconnect_HandleDisconnect probe err (fst s) = (st, r')"
    then show "s2 = (fst s, None)" using HandleDisconnect_cases [of probe err "fst s"] by auto
  qed
  with step show ?case by (metis prod.collapse)
qed simp

section \<open>Properties\<close>

text \<open>
  (C38) The backoff works through an outage of up to thirty failed attempts: from a fresh state, after
  any at most thirty failures and then a success, the goroutine has ended, the reconnector is ready for
  the next disconnect with its attempts reset, and the delays were 5, 10, 20, ... seconds, from the
  seventh on 300.
\<close>

theorem backoff_until_success:
  assumes "rc_hasReconnect r" "rc_attempt r = 0" "length fails \<le> 30"
  shows "backoff_loop ovf (map (\<lambda>e. DelayOver (Some e)) fails @ [DelayOver None]) r =
    (Exited, map (\<lambda>k. min (5 * 2 ^ k) 300 * Second) [0..<Suc (length fails)],
     r\<lparr>rc_attempt := 0, rc_running := False\<rparr>)"
  using backoff_failures [of r 0 fails ovf] assms by (simp add: backoff_delay_def)

theorem backoff_until_success_witness:
  "backoff_loop (\<lambda>_. 0) [DelayOver (Some (PlainError ''refused'')), DelayOver None]
     \<lparr>rc_hasProber = True, rc_hasReconnect = True, rc_attempt = 0, rc_running = True\<rparr> =
   (Exited, [5 * Second, 10 * Second], NewReconnect True True)"
  using backoff_until_success [of "\<lparr>rc_hasProber = True, rc_hasReconnect = True, rc_attempt = 0, rc_running = True\<rparr>"
      "[PlainError ''refused'']" "\<lambda>_. 0"]
  by (simp add: NewReconnect_def)

lemma delay_zero: "rc_attempt r = int n \<Longrightarrow> 55 \<le> n \<Longrightarrow> n \<le> 62 \<Longrightarrow> fst (Reconnect_nextDelay ovf r) = 0"
proof -
  assume n: "rc_attempt r = int n" "55 \<le> n" "n \<le> 62"
  then have "(2::int) ^ n = 2 ^ (n - 55) * 2 ^ 55" by (metis le_add_diff_inverse2 power_add)
  then have "5000000000 * (2::int) ^ n = 9765625 * 2 ^ (n - 55) * 2 ^ 64" by simp
  then have "wrap64 (5000000000 * 2 ^ n) = 0" unfolding wrap64_def by (simp only: mod_mult_self2 mod_mult_self3) simp
  then show ?thesis using n by (simp add: nextDelay_eq)
qed

lemma delay_ovf:
  assumes "63 \<le> rc_attempt r" "rc_attempt r < 2 ^ 62" "ovf (rc_attempt r) = - (2 ^ 63)"
  shows "fst (Reconnect_nextDelay ovf r) = 0"
proof -
  have "wrap64 (rc_attempt r + 1) = rc_attempt r + 1" using assms by (simp add: wrap64_id is_int64_def)
  then show ?thesis using assms
    by (simp add: Reconnect_nextDelay_def Let_def pow2_int64_def reconnectInitDelay_def reconnectMaxDelay_def
        Second_def wrap64_def)
qed

text \<open>
  (C39) The delay leaves the schedule in a long outage. The 32nd attempt in a row computes a negative
  delay, which the timer takes as none; from the 56th to the 63rd the product has wrapped to zero; and
  after that, where an out-of-range conversion yields \<open>-2\<^sup>6\<^sup>3\<close>, it stays zero: the goroutine reconnects
  in a busy loop.
\<close>

theorem backoff_overflows:
  assumes "rc_attempt a = 31" "55 \<le> rc_attempt b" "rc_attempt b \<le> 62"
    "63 \<le> rc_attempt c" "rc_attempt c < 2 ^ 62" "ovf (rc_attempt c) = - (2 ^ 63)"
  shows "fst (Reconnect_nextDelay ovf a) < 0 \<and> fst (Reconnect_nextDelay ovf b) = 0 \<and>
    fst (Reconnect_nextDelay ovf c) = 0"
  using nextDelay_eq [of a 31 ovf] delay_zero [of b "nat (rc_attempt b)" ovf] delay_ovf [of c ovf] assms
  by (simp add: wrap64_def)

theorem backoff_overflows_witness:
  "fst (Reconnect_nextDelay (\<lambda>_. - (2 ^ 63)) ((NewReconnect True True)\<lparr>rc_attempt := 31\<rparr>)) < 0 \<and>
   fst (Reconnect_nextDelay (\<lambda>_. - (2 ^ 63)) ((NewReconnect True True)\<lparr>rc_attempt := 60\<rparr>)) = 0 \<and>
   fst (Reconnect_nextDelay (\<lambda>_. - (2 ^ 63)) ((NewReconnect True True)\<lparr>rc_attempt := 1000\<rparr>)) = 0"
  by (rule backoff_overflows) simp_all

text \<open>
  One worker at a time: in every state reachable from a fresh reconnector a goroutine in its loop
  keeps \<open>running\<close> set, so that a further disconnect, whatever its cause, starts no second one.
\<close>

theorem one_reconnect_worker:
  assumes "(rc_step ovf)\<^sup>*\<^sup>* (NewReconnect p f, None) (r, w)" "w \<noteq> None"
  shows "rc_running r \<and> Reconnect_HandleDisconnect probe err r = (None, r)"
  using rc_steps_running [OF assms(1)] assms(2) HandleDisconnect_cases [of probe err r]
  by auto

theorem one_reconnect_worker_witness:
  "Reconnect_HandleDisconnect (NetClassOK, None) (PlainError ''eof'') ((NewReconnect True True)\<lparr>rc_running := True\<rparr>) =
     (None, (NewReconnect True True)\<lparr>rc_running := True\<rparr>)"
proof -
  have "Reconnect_HandleDisconnect (NetClassOK, None) (PlainError ''eof'') (NewReconnect True True) =
      (Some BackoffWorker, (NewReconnect True True)\<lparr>rc_running := True\<rparr>)"
    by code_simp
  from rc_step.disconnect [OF this, of "\<lambda>_. 0" None]
  have "(rc_step (\<lambda>_. 0))\<^sup>*\<^sup>* (NewReconnect True True, None)
      ((NewReconnect True True)\<lparr>rc_running := True\<rparr>, Some BackoffWorker)" by simp
  from one_reconnect_worker [OF this] show ?thesis by simp
qed

text \<open>
  Waiting for the local network ends for good at the first failed attempt: once the local network
  is back and the reconnect fails, the goroutine is gone with \<open>running\<close> still set, and from there no
  sequence of disconnects changes anything or starts a worker again.
\<close>

theorem local_recovery_gives_up:
  assumes "rc_hasReconnect r" "rc_running r" "class \<noteq> NetClassLocalNetFail"
  shows "rc_step ovf (r, Some WaitWorker) (r, None) \<and>
    wait_loop (WaitTick class None (Some err) # evs) r = (Exited, r) \<and>
    ((rc_step ovf)\<^sup>*\<^sup>* (r, None) s \<longrightarrow> s = (r, None))"
proof -
  have t: "wait_turn (WaitTick class None (Some err)) r = (Exited, r)"
    using assms by (simp add: wait_turn_def Reconnect_tryReconnect_def)
  show ?thesis using rc_step.wait_end [OF t] t stuck_steps [of ovf "(r, None)" s] assms by auto
qed

theorem local_recovery_gives_up_witness:
  "wait_loop [WaitTick NetClassOK None (Some (PlainError ''refused''))] ((NewReconnect True True)\<lparr>rc_running := True\<rparr>) =
     (Exited, (NewReconnect True True)\<lparr>rc_running := True\<rparr>)"
  using local_recovery_gives_up [of "(NewReconnect True True)\<lparr>rc_running := True\<rparr>" NetClassOK "\<lambda>_. 0"
      "PlainError ''refused''" "[]"]
  by (simp add: NewReconnect_def go_consts)

end
