(* ===== verification/NetProbe.thy ===== *)
theory NetProbe
  imports Observability Reconnect
begin

text \<open>
  \<^verbatim>\<open>src/internal/netprobe\<close>: the classification of the network's state and the loop that publishes it.
  What the operating system answers (interfaces, resolver, sockets) is in the record \<open>netenv\<close>, one
  for every round of the probe.
\<close>

section \<open>The three probes\<close>

text \<open>An interface: its flags, and its addresses or the error of asking for them; \<open>None\<close> is a nil IP.\<close>

record Interface =
  if_Up :: bool
  if_Loopback :: bool
  if_Addrs :: "goerror + bytes option list"

record netenv =
  ne_interfaces :: "goerror + Interface list"
  ne_dial_udp :: "string \<Rightarrow> goerror option"
  ne_dial_tcp :: "string \<Rightarrow> goerror option"
  ne_lookup_ip4 :: "string \<Rightarrow> goerror + string list"
  ne_latency :: int
  ne_done_local :: "goerror option"
  ne_done_dns :: "goerror option"
  ne_done_gw :: "goerror option"

definition localProbeTarget :: string where "localProbeTarget = ''8.8.8.8:80''"

fun has_v4 :: "bytes option list \<Rightarrow> bool" where
  "has_v4 [] = False"
| "has_v4 (a # as) =
     (case a of
        None \<Rightarrow> has_v4 as
      | Some ip \<Rightarrow>
          if IsLoopback ip then has_v4 as
          else if To4 ip \<noteq> None then True
          else has_v4 as)"

fun hasUpIPv4Interface :: "Interface list \<Rightarrow> bool" where
  "hasUpIPv4Interface [] = False"
| "hasUpIPv4Interface (i # is) =
     (if \<not> if_Up i \<or> if_Loopback i then hasUpIPv4Interface is
      else case if_Addrs i of
             Inl err \<Rightarrow> hasUpIPv4Interface is
           | Inr addrs \<Rightarrow> if has_v4 addrs then True else hasUpIPv4Interface is)"

definition probeLocalNet :: "netenv \<Rightarrow> bool \<times> goerror option" where
  "probeLocalNet env =
     (case ne_interfaces env of
        Inl err \<Rightarrow> (False, Some (Wrap ErrLocalNetFail ''list interfaces'' err))
      | Inr ifaces \<Rightarrow>
          if \<not> hasUpIPv4Interface ifaces then
            (False, Some (New ErrLocalNetFail ''no up non-loopback IPv4 interface''))
          else case ne_dial_udp env localProbeTarget of
                 Some err \<Rightarrow> (False, Some (Wrap ErrLocalNetFail ''local route probe'' err))
               | None \<Rightarrow> (True, None))"

text \<open>Each probe runs in a goroutine; the caller returns early when its context ends first (\<open>ne_done_...\<close>).\<close>

definition ProbeLocalNet :: "netenv \<Rightarrow> bool \<times> goerror option" where
  "ProbeLocalNet env = (case ne_done_local env of Some err \<Rightarrow> (False, Some err) | None \<Rightarrow> probeLocalNet env)"

definition ProbeDNS :: "netenv \<Rightarrow> string \<Rightarrow> string \<times> int \<times> goerror option" where
  "ProbeDNS env endpoint =
     (case ne_done_dns env of
        Some err \<Rightarrow> ([], ne_latency env, Some (Wrap ErrDNSResolveFail ''dns resolve cancelled'' err))
      | None \<Rightarrow>
          (case ne_lookup_ip4 env endpoint of
             Inl err \<Rightarrow> ([], ne_latency env, Some (Wrap ErrDNSResolveFail (''resolve '' @ endpoint) err))
           | Inr ips \<Rightarrow>
               (case ips of
                  [] \<Rightarrow> ([], ne_latency env, Some (New ErrDNSResolveFail (''no IP for '' @ endpoint)))
                | ip # _ \<Rightarrow> (ip, ne_latency env, None))))"

definition ProbeGateway :: "netenv \<Rightarrow> string \<Rightarrow> int \<Rightarrow> bool \<times> goerror option" where
  "ProbeGateway env ip port =
     (let port' = (if port \<le> 0 then 443 else port);
          addr = ip @ '':'' @ itoa port'
      in case ne_done_gw env of
           Some err \<Rightarrow> (False, Some err)
         | None \<Rightarrow> (case ne_dial_tcp env addr of Some err \<Rightarrow> (False, Some err) | None \<Rightarrow> (True, None)))"

definition Classify :: "bool \<Rightarrow> bool \<Rightarrow> bool \<Rightarrow> NetClass" where
  "Classify localNetOK dnsOK gatewayOK =
     (if \<not> localNetOK then NetClassLocalNetFail
      else if \<not> dnsOK then NetClassDNSResolveFail
      else if \<not> gatewayOK then NetClassCloudGatewayUnreachable
      else NetClassOK)"

section \<open>The probing loop\<close>

text \<open>\<open>lp_callbacks\<close> names the registered callbacks; a call of one is recorded with its arguments.\<close>

record LoopProber =
  lp_endpoint :: string
  lp_gatewayIP :: string
  lp_gatewayPort :: int
  lp_interval :: duration
  lp_metrics :: NetMetrics
  lp_audit :: "audit option"
  lp_current :: NetClass
  lp_callbacks :: "nat list"
  lp_running :: bool

definition NewLoopProber :: "string \<Rightarrow> string \<Rightarrow> int \<Rightarrow> NetMetrics \<Rightarrow> audit option \<Rightarrow> LoopProber" where
  "NewLoopProber endpoint gatewayIP gatewayPort metrics audit =
     \<lparr>lp_endpoint = endpoint, lp_gatewayIP = gatewayIP, lp_gatewayPort = gatewayPort, lp_interval = 10 * Second,
      lp_metrics = metrics, lp_audit = audit, lp_current = NetClassOK, lp_callbacks = [], lp_running = False\<rparr>"

definition LoopProber_WithInterval :: "LoopProber \<Rightarrow> duration \<Rightarrow> LoopProber" where
  "LoopProber_WithInterval p d = (if 0 < d then p\<lparr>lp_interval := d\<rparr> else p)"

definition LoopProber_OnClassChange :: "LoopProber \<Rightarrow> nat \<Rightarrow> LoopProber" where
  "LoopProber_OnClassChange p callback = p\<lparr>lp_callbacks := lp_callbacks p @ [callback]\<rparr>"

text \<open>\<open>Start\<close> and \<open>Stop\<close>: whether a goroutine was started, or one was cancelled and awaited.\<close>

definition LoopProber_Start :: "LoopProber \<Rightarrow> bool \<times> LoopProber" where
  "LoopProber_Start p = (if lp_running p then (False, p) else (True, p\<lparr>lp_running := True\<rparr>))"

definition LoopProber_Stop :: "LoopProber \<Rightarrow> bool \<times> LoopProber" where
  "LoopProber_Stop p = (if \<not> lp_running p then (False, p) else (True, p\<lparr>lp_running := False\<rparr>))"

definition LoopProber_Probe :: "gotime \<Rightarrow> netenv \<Rightarrow> LoopProber \<Rightarrow> NetClass \<times> NetTopology \<times> goerror option" where
  "LoopProber_Probe now env p =
     (let localOK = fst (ProbeLocalNet env);
          (resolvedIP, dnsLat, dnsErr) = ProbeDNS env (lp_endpoint p);
          dnsOK = (dnsErr = None);
          gwOK = fst (ProbeGateway env (lp_gatewayIP p) (lp_gatewayPort p));
          class = Classify localOK dnsOK gwOK
      in (class,
          \<lparr>nt_Endpoint = lp_endpoint p, nt_ResolvedIP = resolvedIP, nt_DNSLatencyMs = dnsLat,
           nt_GatewayIP = lp_gatewayIP p, nt_GatewayReach = gwOK, nt_LocalNetReach = localOK,
           nt_NetClass = class, nt_LastCheckAt = now\<rparr>,
          dnsErr))"

type_synonym calls = "(nat \<times> NetClass \<times> NetClass) list"

definition LoopProber_probeOnce :: "gotime \<Rightarrow> netenv \<Rightarrow> LoopProber \<Rightarrow> calls \<times> LoopProber" where
  "LoopProber_probeOnce now env p =
     (let (class, topo, _) = LoopProber_Probe now env p;
          p1 = p\<lparr>lp_metrics := NetMetrics_Update now (lp_metrics p) (nt_DNSLatencyMs topo) (nt_ResolvedIP topo)
                   (nt_GatewayReach topo) (nt_LocalNetReach topo) class\<rparr>;
          old = lp_current p1
      in if old = class then ([], p1)
         else
           let p2 = p1\<lparr>lp_current := class,
                 lp_audit := map_option (\<lambda>a. AuditLogger_LogNetClassChange a old class []) (lp_audit p1)\<rparr>
           in (map (\<lambda>cb. (cb, old, class)) (lp_callbacks p2), p2))"

text \<open>The goroutine: a first probe, then one at each tick, until its context ends (the end of the list).\<close>

fun LoopProber_loop :: "(gotime \<times> netenv) list \<Rightarrow> LoopProber \<Rightarrow> calls \<times> LoopProber" where
  "LoopProber_loop [] p = ([], p)"
| "LoopProber_loop ((now, env) # ticks) p =
     (let (cs, p1) = LoopProber_probeOnce now env p;
          (cs', p2) = LoopProber_loop ticks p1
      in (cs @ cs', p2))"

section \<open>Lemmas\<close>

lemma has_v4_iff: "has_v4 as \<longleftrightarrow> (\<exists>ip. Some ip \<in> set as \<and> \<not> IsLoopback ip \<and> To4 ip \<noteq> None)"
  by (induction as) (auto split: option.splits)

definition serves_v4 :: "Interface \<Rightarrow> bool" where
  "serves_v4 i \<longleftrightarrow> if_Up i \<and> \<not> if_Loopback i \<and>
     (\<exists>addrs ip. if_Addrs i = Inr addrs \<and> Some ip \<in> set addrs \<and> \<not> IsLoopback ip \<and> To4 ip \<noteq> None)"

lemma hasUpIPv4Interface_iff: "hasUpIPv4Interface is \<longleftrightarrow> list_ex serves_v4 is"
proof (induction "is")
  case (Cons i "is")
  then show ?case by (cases "if_Addrs i") (auto simp: serves_v4_def has_v4_iff)
qed simp

lemma probeOnce_class:
  "LoopProber_probeOnce now env p = (cs, p') \<Longrightarrow>
     lp_current p' = fst (LoopProber_Probe now env p) \<and>
     m_netClass (lp_metrics p') = fst (LoopProber_Probe now env p) \<and>
     lp_callbacks p' = lp_callbacks p \<and> lp_endpoint p' = lp_endpoint p \<and> lp_gatewayIP p' = lp_gatewayIP p \<and>
     lp_gatewayPort p' = lp_gatewayPort p \<and>
     cs = (if lp_current p' = lp_current p then []
           else map (\<lambda>cb. (cb, lp_current p, lp_current p')) (lp_callbacks p))"
  by (auto simp: LoopProber_probeOnce_def NetMetrics_Update_def Let_def split: prod.splits if_splits)

text \<open>The notifications one callback got: each starts at the class the last one ended with, and is a change.\<close>

fun class_chain :: "NetClass \<Rightarrow> (NetClass \<times> NetClass) list \<Rightarrow> NetClass \<Rightarrow> bool" where
  "class_chain c [] c' \<longleftrightarrow> c = c'"
| "class_chain c ((a, b) # ps) c' \<longleftrightarrow> a = c \<and> b \<noteq> a \<and> class_chain b ps c'"

definition calls_of :: "nat \<Rightarrow> calls \<Rightarrow> (NetClass \<times> NetClass) list" where
  "calls_of cb cs = map snd (filter (\<lambda>c. fst c = cb) cs)"

lemma calls_of_append [simp]: "calls_of cb (xs @ ys) = calls_of cb xs @ calls_of cb ys"
  by (simp add: calls_of_def)

lemma calls_of_map: "distinct cbs \<Longrightarrow> cb \<in> set cbs \<Longrightarrow> calls_of cb (map (\<lambda>c. (c, x)) cbs) = [x]"
proof (induction cbs)
  case (Cons c cbs)
  then show ?case by (auto simp: calls_of_def o_def filter_empty_conv)
qed simp

lemma class_chain_append: "class_chain a xs b \<Longrightarrow> class_chain b ys c \<Longrightarrow> class_chain a (xs @ ys) c"
  by (induction a xs b rule: class_chain.induct) auto

lemma loop_chain:
  "LoopProber_loop ticks p = (cs, p') \<Longrightarrow> distinct (lp_callbacks p) \<Longrightarrow> cb \<in> set (lp_callbacks p) \<Longrightarrow>
     class_chain (lp_current p) (calls_of cb cs) (lp_current p')"
proof (induction ticks arbitrary: p cs)
  case Nil
  then show ?case by (auto simp: calls_of_def)
next
  case (Cons t ticks)
  obtain now env where t: "t = (now, env)" by (cases t)
  obtain c1 p1 where o: "LoopProber_probeOnce now env p = (c1, p1)" by fastforce
  obtain c2 where l: "LoopProber_loop ticks p1 = (c2, p')" and cs: "cs = c1 @ c2"
    using Cons.prems(1) o t by (auto split: prod.splits)
  note pc = probeOnce_class [OF o]
  have "class_chain (lp_current p) (calls_of cb c1) (lp_current p1)"
    using pc Cons.prems calls_of_map [of "lp_callbacks p" cb]
    by (auto simp: calls_of_def)
  moreover have "class_chain (lp_current p1) (calls_of cb c2) (lp_current p')"
    by (rule Cons.IH [OF l]) (use pc Cons.prems in auto)
  ultimately show ?case by (simp add: cs class_chain_append)
qed

lemma loop_metrics:
  "LoopProber_loop ticks p = (cs, p') \<Longrightarrow> m_netClass (lp_metrics p) = lp_current p \<Longrightarrow>
     m_netClass (lp_metrics p') = lp_current p'"
proof (induction ticks arbitrary: p cs)
  case (Cons t ticks)
  obtain now env where t: "t = (now, env)" by (cases t)
  obtain c1 p1 where o: "LoopProber_probeOnce now env p = (c1, p1)" by fastforce
  obtain c2 where l: "LoopProber_loop ticks p1 = (c2, p')" using Cons.prems(1) o t by (auto split: prod.splits)
  show ?case by (rule Cons.IH [OF l]) (use probeOnce_class [OF o] in simp)
qed simp

section \<open>Properties\<close>

text \<open>
  What the probe means. With a context that does not end, the class is \<open>OK\<close> exactly when some
  interface that is up and not the loopback has a usable IPv4 address and the route probe, the name and
  the gateway all answer; and the reported class names the first of the three that does not.
\<close>

theorem probe_class_meaning:
  assumes "ne_done_local env = None" "ne_done_dns env = None" "ne_done_gw env = None"
    "ne_interfaces env = Inr ifaces"
    and loc: "localOK \<longleftrightarrow> list_ex serves_v4 ifaces \<and> ne_dial_udp env ''8.8.8.8:80'' = None"
    and dns: "dnsOK \<longleftrightarrow> (\<exists>ip ips. ne_lookup_ip4 env (lp_endpoint p) = Inr (ip # ips))"
    and gw: "gwOK \<longleftrightarrow> ne_dial_tcp env (lp_gatewayIP p @ '':'' @
      itoa (if lp_gatewayPort p \<le> 0 then 443 else lp_gatewayPort p)) = None"
  shows "fst (LoopProber_Probe now env p) =
    (if \<not> localOK then NetClassLocalNetFail else if \<not> dnsOK then NetClassDNSResolveFail
     else if \<not> gwOK then NetClassCloudGatewayUnreachable else NetClassOK)"
proof -
  have l: "fst (ProbeLocalNet env) = localOK"
    using assms(1,4) by (simp add: loc ProbeLocalNet_def probeLocalNet_def hasUpIPv4Interface_iff localProbeTarget_def
        split: option.splits)
  have d: "snd (snd (ProbeDNS env (lp_endpoint p))) = None \<longleftrightarrow> dnsOK"
    using assms(2) by (auto simp: dns ProbeDNS_def split: sum.splits list.splits)
  have g: "fst (ProbeGateway env (lp_gatewayIP p) (lp_gatewayPort p)) = gwOK"
    using assms(3) by (auto simp: gw ProbeGateway_def Let_def split: option.splits)
  show ?thesis
    using d by (auto simp: LoopProber_Probe_def Let_def Classify_def l g split: prod.splits)
qed

definition demo_netenv :: netenv where
  "demo_netenv =
     \<lparr>ne_interfaces = Inr [\<lparr>if_Up = True, if_Loopback = False, if_Addrs = Inr [Some [10, 0, 0, 7]]\<rparr>],
      ne_dial_udp = (\<lambda>_. None), ne_dial_tcp = (\<lambda>_. None), ne_lookup_ip4 = (\<lambda>_. Inl (PlainError ''no such host'')),
      ne_latency = 3, ne_done_local = None, ne_done_dns = None, ne_done_gw = None\<rparr>"

theorem probe_class_meaning_witness:
  "fst (LoopProber_Probe 7 demo_netenv (NewLoopProber ''c.example.com'' [] 443 NewNetMetrics None)) =
     NetClassDNSResolveFail"
  using probe_class_meaning [of demo_netenv
      "[\<lparr>if_Up = True, if_Loopback = False, if_Addrs = Inr [Some [10, 0, 0, 7]]\<rparr>]" True False
      "NewLoopProber ''c.example.com'' [] 443 NewNetMetrics None" True 7]
  by (simp add: demo_netenv_def serves_v4_def IsLoopback_def To4_def)

text \<open>
  The prober and its listeners agree. Over any run of the loop a registered callback is told of
  every change, in order and without gaps, from the class at the start to the class at the end, and the
  class in the shared metrics is the prober's current one.
\<close>

theorem class_changes_are_notified:
  assumes "LoopProber_loop ticks p = (cs, p')" "distinct (lp_callbacks p)" "cb \<in> set (lp_callbacks p)"
    "m_netClass (lp_metrics p) = lp_current p"
  shows "class_chain (lp_current p) (map snd (filter (\<lambda>c. fst c = cb) cs)) (lp_current p') \<and>
    m_netClass (lp_metrics p') = lp_current p'"
  using loop_chain [OF assms(1-3)] loop_metrics [OF assms(1,4)] by (simp add: calls_of_def)

theorem class_changes_are_notified_witness:
  "class_chain NetClassOK [(NetClassOK, NetClassDNSResolveFail)] NetClassDNSResolveFail"
proof -
  let ?p = "LoopProber_OnClassChange (NewLoopProber ''c'' [] 443 NewNetMetrics None) 0"
  obtain cs p' where r: "LoopProber_loop [(7, demo_netenv)] ?p = (cs, p')" by fastforce
  then have "cs = [(0, NetClassOK, NetClassDNSResolveFail)]" "lp_current p' = NetClassDNSResolveFail"
    by (auto simp: LoopProber_OnClassChange_def NewLoopProber_def LoopProber_probeOnce_def LoopProber_Probe_def
        ProbeLocalNet_def probeLocalNet_def ProbeDNS_def ProbeGateway_def Classify_def demo_netenv_def
        IsLoopback_def To4_def Let_def)
  with class_changes_are_notified [OF r, of 0] show ?thesis
    by (simp add: LoopProber_OnClassChange_def NewLoopProber_def NewNetMetrics_def)
qed

text \<open>
  A disconnect is never put down to the name or the local network by the probe when the name does
  not resolve: the probe hands its class over together with the resolver's error, and the classification
  of a disconnect discards the class then. A disconnect without a class of its own is therefore never
  classified as a DNS failure, and a local failure that also takes the resolver down counts as an
  unreachable gateway.
\<close>

theorem probe_dns_failure_discarded:
  assumes "LoopProber_Probe now env p = (class, topo, perr)" "NetClassFromErr err = NetClassOK"
  shows "classifyDisconnect (Some (class, perr)) err \<noteq> NetClassDNSResolveFail \<and>
    (perr \<noteq> None \<longrightarrow> classifyDisconnect (Some (class, perr)) err = NetClassCloudGatewayUnreachable)"
proof -
  have "class = Classify (fst (ProbeLocalNet env)) (perr = None)
      (fst (ProbeGateway env (lp_gatewayIP p) (lp_gatewayPort p)))"
    using assms(1) by (auto simp: LoopProber_Probe_def Let_def split: prod.splits)
  with assms(2) show ?thesis
    by (cases perr) (simp_all add: classifyDisconnect_def Classify_def NetClass_distinct [THEN not_sym])
qed

theorem probe_dns_failure_discarded_witness:
  "fst (LoopProber_Probe 7 demo_netenv (NewLoopProber ''c'' [] 443 NewNetMetrics None)) = NetClassDNSResolveFail \<and>
   classifyDisconnect (Some (NetClassDNSResolveFail, Some (Wrap ErrDNSResolveFail ''resolve c'' (PlainError ''no such host''))))
     (PlainError ''eof'') = NetClassCloudGatewayUnreachable"
proof -
  have "\<exists>topo. LoopProber_Probe 7 demo_netenv (NewLoopProber ''c'' [] 443 NewNetMetrics None) =
     (NetClassDNSResolveFail, topo, Some (Wrap ErrDNSResolveFail ''resolve c'' (PlainError ''no such host'')))"
    by (auto simp: NewLoopProber_def LoopProber_Probe_def ProbeLocalNet_def probeLocalNet_def ProbeDNS_def
        ProbeGateway_def Classify_def demo_netenv_def IsLoopback_def To4_def Let_def)
  then obtain topo where p: "LoopProber_Probe 7 demo_netenv (NewLoopProber ''c'' [] 443 NewNetMetrics None) =
     (NetClassDNSResolveFail, topo, Some (Wrap ErrDNSResolveFail ''resolve c'' (PlainError ''no such host'')))"
    by blast
  have "NetClassFromErr (PlainError ''eof'') = NetClassOK" by (simp add: NetClassFromErr_def)
  from probe_dns_failure_discarded [OF p this] p show ?thesis by simp
qed

end
