(* ===== verification/CloudLink.thy ===== *)
theory CloudLink
  imports Dispatcher Heartbeat NetProbe Config
begin

text \<open>
  \<^verbatim>\<open>src/internal/cloudlink/cloudlink.go\<close> and \<^verbatim>\<open>domain_update.go\<close>: the link that owns the connection and
  hands it to the reporter, the heartbeat and the dispatcher. Connections are objects the components
  share, so they live in a store: a connection is its position in \<open>k_conns\<close>, and closing it is seen by
  all who hold it. What the network, the server and the file system do is in the records \<open>connect_env\<close>
  and \<open>domain_env\<close>.
\<close>

section \<open>State\<close>

record CloudLink =
  k_cfgPath :: string
  k_cfg :: AgentConfig
  k_token :: string
  k_client :: Client
  k_conns :: "Conn list"
  k_conn :: "nat option"
  k_reporter :: Reporter
  k_heartbeat :: Heartbeat
  k_dispatcher :: Dispatcher
  k_reconnect :: Reconnect
  k_audit :: "audit option"
  k_files :: "string \<rightharpoonup> bytes"
  k_out :: "Envelope list"
  k_running :: bool
  k_stopped :: bool

text \<open>\<open>NewCloudLink\<close> with \<open>init\<close>; \<open>token\<close> is what the credential manager holds, empty without one.\<close>

definition NewCloudLink ::
  "(string \<Rightarrow> string) \<Rightarrow> AgentConfig \<Rightarrow> string \<Rightarrow> string \<Rightarrow> bool \<Rightarrow> audit option \<Rightarrow> (string \<rightharpoonup> bytes) \<Rightarrow> CloudLink" where
  "NewCloudLink getenv cfg cfgPath token prober audit fs =
     \<lparr>k_cfgPath = cfgPath, k_cfg = cfg, k_token = token, k_client = NewClient getenv (cc_AgentID (c_Cloud cfg)),
      k_conns = [], k_conn = None, k_reporter = NewReporter None,
      k_heartbeat = Heartbeat_OnConnLoss (NewHeartbeat
        \<lparr>hc_AgentID = cc_AgentID (c_Cloud cfg), hc_Version = Version, hc_CloudEndpoint = cc_Endpoint (c_Cloud cfg),
         hc_Interval = c_HeartbeatInterval cfg\<rparr> None),
      k_dispatcher = NewDispatcher None, k_reconnect = NewReconnect prober True, k_audit = audit, k_files = fs,
      k_out = [], k_running = False, k_stopped = False\<rparr>"

definition close_conn :: "nat \<Rightarrow> CloudLink \<Rightarrow> CloudLink" where
  "close_conn n k = k\<lparr>k_conns := (k_conns k)[n := Conn_Close (k_conns k ! n)]\<rparr>"

definition is_open :: "CloudLink \<Rightarrow> nat \<Rightarrow> bool" where
  "is_open k n \<longleftrightarrow> n < length (k_conns k) \<and> \<not> cn_closed (k_conns k ! n)"

section \<open>Connecting\<close>

record connect_env =
  ce_lookup :: lookup
  ce_wsdial :: "string \<Rightarrow> goerror option"
  ce_read :: ws_read
  ce_handshake :: "Payload \<Rightarrow> handshakePayload"
  ce_writes :: "goerror option list"

definition CloudLink_connect :: "connect_env \<Rightarrow> CloudLink \<Rightarrow> goerror option \<times> CloudLink" where
  "CloudLink_connect ce k =
     (case Client_Dial (k_client k) (ce_lookup ce) (ce_wsdial ce) (cc_Endpoint (c_Cloud (k_cfg k))) (k_token k) of
        Inl err \<Rightarrow> (Some err, k)
      | Inr conn \<Rightarrow>
          let n = length (k_conns k); k1 = k\<lparr>k_conns := k_conns k @ [conn]\<rparr>
          in case Conn_Read conn (ce_read ce) of
               Inl err \<Rightarrow> (Some (Wrap ErrWSSHandshakeFail ''read handshake'' err), close_conn n k1)
             | Inr handshake \<Rightarrow>
                 (case HandleHandshakeResponse (ce_handshake ce) (Some handshake) of
                    (_, Some herr) \<Rightarrow> (Some herr, close_conn n k1)
                  | (_, None) \<Rightarrow>
                      let (out, rep) = Reporter_UpdateConn (ce_writes ce) (k_reporter k1) (Some n)
                      in (None, k1\<lparr>k_conn := Some n, k_reporter := rep, k_out := k_out k1 @ out,
                            k_heartbeat := Heartbeat_UpdateConn (k_heartbeat k1) (Some n),
                            k_dispatcher := Dispatcher_UpdateConn (k_dispatcher k1) (Some n)\<rparr>)))"

definition CloudLink_Start :: "connect_env \<Rightarrow> CloudLink \<Rightarrow> goerror option \<times> CloudLink" where
  "CloudLink_Start ce k =
     (if k_running k then (None, k)
      else case CloudLink_connect ce (k\<lparr>k_running := True\<rparr>) of
             (Some err, k1) \<Rightarrow> (Some err, k1)
           | (None, k1) \<Rightarrow>
               (None, k1\<lparr>k_heartbeat := snd (Heartbeat_Start (k_heartbeat k1)),
                 k_dispatcher := Dispatcher_Start (k_dispatcher k1)\<rparr>))"

text \<open>
  \<open>flushPendingResults\<close> over the registered devices and their pending tasks; each report takes one
  write result.
\<close>

fun flush_tasks :: "gotime \<Rightarrow> goerror option list \<Rightarrow> PrintTask list \<Rightarrow> CloudLink \<Rightarrow> CloudLink" where
  "flush_tasks now wrs [] k = k"
| "flush_tasks now wrs (t # ts) k =
     (if TaskStatus_IsTerminal (t_Status t) then
        (case Reporter_ReportTaskResult now (case wrs of [] \<Rightarrow> None | w # _ \<Rightarrow> w) (k_reporter k) (Some t) of
           (_, out, rep) \<Rightarrow> flush_tasks now (tl wrs) ts (k\<lparr>k_reporter := rep, k_out := k_out k @ out\<rparr>))
      else flush_tasks now wrs ts k)"

definition flushPendingResults ::
  "gotime \<Rightarrow> goerror option list \<Rightarrow> Device list \<Rightarrow> (string \<Rightarrow> PrintTask list) \<Rightarrow> CloudLink \<Rightarrow> CloudLink" where
  "flushPendingResults now wrs devs listPending k =
     (case k_conn k of
        None \<Rightarrow> k
      | Some conn \<Rightarrow> flush_tasks now wrs (concat (map (\<lambda>d. listPending (d_DeviceID d)) devs)) k)"

definition CloudLink_reconnectFn ::
  "connect_env \<Rightarrow> gotime \<Rightarrow> goerror option list \<Rightarrow> Device list \<Rightarrow> (string \<Rightarrow> PrintTask list) \<Rightarrow> CloudLink \<Rightarrow>
   goerror option \<times> CloudLink" where
  "CloudLink_reconnectFn ce now wrs devs listPending k =
     (case CloudLink_connect ce k of
        (Some err, k1) \<Rightarrow> (Some err, k1)
      | (None, k1) \<Rightarrow> (None, flushPendingResults now wrs devs listPending k1))"

text \<open>Both the link and the updater set the endpoint together with the URL derived from it.\<close>

definition set_endpoint :: "string \<Rightarrow> CloudLink \<Rightarrow> CloudLink" where
  "set_endpoint endpoint k =
     k\<lparr>k_cfg := (k_cfg k)\<lparr>c_Cloud := (c_Cloud (k_cfg k))\<lparr>cc_Endpoint := endpoint,
         cc_DerivedURL := DeriveURL (cc_Protocol (c_Cloud (k_cfg k))) endpoint\<rparr>\<rparr>\<rparr>"

definition CloudLink_switchConn :: "connect_env \<Rightarrow> string \<Rightarrow> CloudLink \<Rightarrow> goerror option \<times> CloudLink" where
  "CloudLink_switchConn ce newEndpoint k =
     (let k1 = (case k_conn k of Some n \<Rightarrow> close_conn n k | None \<Rightarrow> k);
          k2 = set_endpoint newEndpoint k1;
          k3 = k2\<lparr>k_heartbeat := (k_heartbeat k2)\<lparr>hb_cfg := (hb_cfg (k_heartbeat k2))\<lparr>hc_CloudEndpoint := newEndpoint\<rparr>\<rparr>\<rparr>
      in CloudLink_connect ce k3)"

definition CloudLink_Stop :: "CloudLink \<Rightarrow> CloudLink" where
  "CloudLink_Stop k =
     (if k_stopped k then k
      else
        let k1 = k\<lparr>k_stopped := True, k_running := False,
              k_heartbeat := snd (Heartbeat_Stop (k_heartbeat k)),
              k_dispatcher := Dispatcher_Stop (k_dispatcher k),
              k_reconnect := snd (Reconnect_Stop (k_reconnect k))\<rparr>
        in case k_conn k of Some n \<Rightarrow> close_conn n k1 | None \<Rightarrow> k1)"

section \<open>Changing the cloud domain\<close>

definition isValidDomain :: "string \<Rightarrow> bool" where
  "isValidDomain s =
     (if s = [] \<or> length s > 253 then False
      else if contains_str s ''://'' then False
      else if ParseIP s \<noteq> None then False
      else list_all (\<lambda>label. \<not> (label = [] \<or> length label > 63)) (split_str CHR ''.'' s))"

text \<open>
  \<open>validateAndProbe\<close>: a trial connection, which is closed again in every case. \<open>dns\<close> is the first
  resolution, \<open>ce\<close> what the trial dial and handshake meet.
\<close>

definition validateAndProbe :: "lookup \<Rightarrow> connect_env \<Rightarrow> string \<Rightarrow> CloudLink \<Rightarrow> goerror option \<times> CloudLink" where
  "validateAndProbe dns ce endpoint k =
     (if \<not> isValidDomain endpoint then
        (Some (New ErrDomainUpdateFail (''invalid domain '' @ go_quote endpoint)), k)
      else case Resolver_Resolve dns endpoint of
        Inl err \<Rightarrow> (Some err, k)
      | Inr ip \<Rightarrow>
     (case Client_Dial (k_client k) (ce_lookup ce) (ce_wsdial ce) endpoint (k_token k) of
        Inl err \<Rightarrow> (Some err, k)
      | Inr conn \<Rightarrow>
          let k1 = close_conn (length (k_conns k)) (k\<lparr>k_conns := k_conns k @ [conn]\<rparr>)
          in case Conn_Read conn (ce_read ce) of
               Inl err \<Rightarrow> (Some (Wrap ErrWSSHandshakeFail ''read handshake'' err), k1)
             | Inr resp \<Rightarrow> (snd (HandleHandshakeResponse (ce_handshake ce) (Some resp)), k1)))"

record domain_env =
  de_traceID :: string
  de_now :: gotime
  de_dns :: lookup
  de_probe :: connect_env
  de_save :: save_env
  de_switch :: "connect_env option"
  de_resave :: save_env
  de_ack :: "goerror option"

definition save_config :: "save_env \<Rightarrow> CloudLink \<Rightarrow> goerror option \<times> CloudLink" where
  "save_config sv k =
     (case SaveAtomic sv (k_cfgPath k) (k_cfg k) (k_files k) of (err, states) \<Rightarrow> (err, k\<lparr>k_files := last states\<rparr>))"

definition ack_config :: "domain_env \<Rightarrow> bool \<Rightarrow> string \<Rightarrow> CloudLink \<Rightarrow> CloudLink" where
  "ack_config de isApplied reason k =
     (case Reporter_ReportConfigAck (de_now de) (de_ack de) (k_reporter k) isApplied reason ''cloud.endpoint'' of
        (_, out, rep) \<Rightarrow> k\<lparr>k_reporter := rep, k_out := k_out k @ out\<rparr>)"

definition audit_rollback :: "domain_env \<Rightarrow> string \<Rightarrow> CloudLink \<Rightarrow> CloudLink" where
  "audit_rollback de endpoint k =
     k\<lparr>k_audit := map_option (\<lambda>a. AuditLogger_LogDomainRollback a endpoint (de_traceID de)) (k_audit k)\<rparr>"

definition DomainUpdater_UpdateDomain :: "domain_env \<Rightarrow> string \<Rightarrow> CloudLink \<Rightarrow> goerror option \<times> CloudLink" where
  "DomainUpdater_UpdateDomain de newEndpoint k =
     (if \<not> isValidDomain newEndpoint then
        (Some (New ErrDomainUpdateFail (''invalid domain '' @ go_quote newEndpoint)),
         ack_config de False ''invalid domain'' k)
      else case validateAndProbe (de_dns de) (de_probe de) newEndpoint k of
        (Some err, k1) \<Rightarrow> (Some err, ack_config de False (Error err) (audit_rollback de newEndpoint k1))
      | (None, k1) \<Rightarrow>
          let backup = cc_Endpoint (c_Cloud (k_cfg k1)); k2 = set_endpoint newEndpoint k1
          in case save_config (de_save de) k2 of
               (Some err, k3) \<Rightarrow>
                 (Some err, ack_config de False ''persist failed'' (audit_rollback de newEndpoint (set_endpoint backup k3)))
             | (None, k3) \<Rightarrow>
                 (case (case de_switch de of None \<Rightarrow> (None, k3) | Some ce \<Rightarrow> CloudLink_switchConn ce newEndpoint k3) of
                    (Some err, k4) \<Rightarrow>
                      let k5 = snd (save_config (de_resave de) (set_endpoint backup k4))
                      in (Some err, ack_config de False ''switch conn failed'' (audit_rollback de newEndpoint k5))
                  | (None, k4) \<Rightarrow>
                      (None, ack_config de True []
                         (k4\<lparr>k_audit := map_option (\<lambda>a. AuditLogger_LogDomainUpdate a newEndpoint (de_traceID de)) (k_audit k4)\<rparr>))))"

section \<open>Lemmas\<close>

lemma close_conn_sel [simp]:
  "k_cfg (close_conn n k) = k_cfg k" "k_conn (close_conn n k) = k_conn k" "k_reporter (close_conn n k) = k_reporter k"
  "k_heartbeat (close_conn n k) = k_heartbeat k" "k_dispatcher (close_conn n k) = k_dispatcher k"
  "k_reconnect (close_conn n k) = k_reconnect k" "k_files (close_conn n k) = k_files k"
  "k_running (close_conn n k) = k_running k" "k_stopped (close_conn n k) = k_stopped k"
  "k_client (close_conn n k) = k_client k" "k_token (close_conn n k) = k_token k"
  "k_audit (close_conn n k) = k_audit k" "k_out (close_conn n k) = k_out k" "k_cfgPath (close_conn n k) = k_cfgPath k"
  by (simp_all add: close_conn_def)

lemma Conn_Close_closed [simp]: "cn_closed (Conn_Close c)"
  by (simp add: Conn_Close_def)

lemma close_new:
  "close_conn (length (k_conns k)) (k\<lparr>k_conns := k_conns k @ [c]\<rparr>) = k\<lparr>k_conns := k_conns k @ [Conn_Close c]\<rparr>"
  by (simp add: close_conn_def)

lemma close_conn_not_open: "\<not> is_open (close_conn n k) n"
  by (simp add: is_open_def close_conn_def nth_list_update)

lemma set_endpoint_sel [simp]:
  "k_conns (set_endpoint e k) = k_conns k" "k_conn (set_endpoint e k) = k_conn k"
  "k_heartbeat (set_endpoint e k) = k_heartbeat k" "k_reporter (set_endpoint e k) = k_reporter k"
  "k_dispatcher (set_endpoint e k) = k_dispatcher k" "k_files (set_endpoint e k) = k_files k"
  "k_cfgPath (set_endpoint e k) = k_cfgPath k"
  "cc_Endpoint (c_Cloud (k_cfg (set_endpoint e k))) = e" "k_out (set_endpoint e k) = k_out k"
  "cc_Protocol (c_Cloud (k_cfg (set_endpoint e k))) = cc_Protocol (c_Cloud (k_cfg k))"
  "cc_DerivedURL (c_Cloud (k_cfg (set_endpoint e k))) = DeriveURL (cc_Protocol (c_Cloud (k_cfg k))) e"
  by (simp_all add: set_endpoint_def)



lemma UpdateConn_conn: "rp_conn (snd (Reporter_UpdateConn wrs r conn)) = conn"
proof -
  have fl: "rp_conn (snd (flush_loop wrs ms r)) = rp_conn r" for wrs ms r
    by (induction ms arbitrary: wrs r) (simp_all add: buffer_mset(3) case_prod_beta split: option.splits)
  show ?thesis by (auto simp: Reporter_UpdateConn_def Reporter_flushBuffer_def Let_def fl split: option.splits)
qed

lemma connect_fail:
  "CloudLink_connect ce k = (Some err, k') \<Longrightarrow>
     \<exists>cs. k' = k\<lparr>k_conns := k_conns k @ cs\<rparr> \<and> list_all cn_closed cs"
proof (cases "Client_Dial (k_client k) (ce_lookup ce) (ce_wsdial ce) (cc_Endpoint (c_Cloud (k_cfg k))) (k_token k)")
  case (Inl e)
  assume "CloudLink_connect ce k = (Some err, k')"
  with Inl show ?thesis by (intro exI [of _ "[]"]) (simp add: CloudLink_connect_def)
next
  case (Inr c)
  assume "CloudLink_connect ce k = (Some err, k')"
  with Inr have "k' = k\<lparr>k_conns := k_conns k @ [Conn_Close c]\<rparr>"
    by (auto simp: CloudLink_connect_def Let_def close_new split: sum.splits prod.splits option.splits)
  then show ?thesis by (intro exI [of _ "[Conn_Close c]"]) simp
qed

lemma Dial_open:
  "Client_Dial c l wsdial endpoint token = Inr conn \<Longrightarrow> \<not> cn_closed conn \<and> cn_endpoint conn = endpoint"
  by (auto simp: Client_Dial_def Let_def split: sum.splits option.splits)

lemma connect_ok_eq:
  assumes "CloudLink_connect ce k = (None, k')"
  shows "\<exists>c out rep. \<not> cn_closed c \<and> cn_endpoint c = cc_Endpoint (c_Cloud (k_cfg k)) \<and>
    rp_conn rep = Some (length (k_conns k)) \<and>
    k' = k\<lparr>k_conns := k_conns k @ [c], k_conn := Some (length (k_conns k)), k_reporter := rep, k_out := k_out k @ out,
      k_heartbeat := Heartbeat_UpdateConn (k_heartbeat k) (Some (length (k_conns k))),
      k_dispatcher := Dispatcher_UpdateConn (k_dispatcher k) (Some (length (k_conns k)))\<rparr>"
proof -
  obtain c where c: "Client_Dial (k_client k) (ce_lookup ce) (ce_wsdial ce) (cc_Endpoint (c_Cloud (k_cfg k))) (k_token k) = Inr c"
    using assms(1) by (auto simp: CloudLink_connect_def split: sum.splits)
  obtain out rep where u: "Reporter_UpdateConn (ce_writes ce) (k_reporter k) (Some (length (k_conns k))) = (out, rep)"
    by fastforce
  have "k' = k\<lparr>k_conns := k_conns k @ [c], k_conn := Some (length (k_conns k)), k_reporter := rep, k_out := k_out k @ out,
      k_heartbeat := Heartbeat_UpdateConn (k_heartbeat k) (Some (length (k_conns k))),
      k_dispatcher := Dispatcher_UpdateConn (k_dispatcher k) (Some (length (k_conns k)))\<rparr>"
    using assms(1) c u
    by (auto simp: CloudLink_connect_def Let_def split: sum.splits prod.splits option.splits)
  then show ?thesis
    using Dial_open [OF c] UpdateConn_conn [of "ce_writes ce" "k_reporter k" "Some (length (k_conns k))"] u by auto
qed

lemma connect_ok:
  assumes "CloudLink_connect ce k = (None, k')"
  shows "k_conn k' = Some (length (k_conns k))" "rp_conn (k_reporter k') = Some (length (k_conns k))"
    "hb_conn (k_heartbeat k') = Some (length (k_conns k))" "dp_conn (k_dispatcher k') = Some (length (k_conns k))"
    "hb_missCount (k_heartbeat k') = 0" "is_open k' (length (k_conns k))"
    "take (length (k_conns k)) (k_conns k') = k_conns k"
    "cn_endpoint (k_conns k' ! length (k_conns k)) = cc_Endpoint (c_Cloud (k_cfg k))"
    "k_cfg k' = k_cfg k" "k_files k' = k_files k" "k_cfgPath k' = k_cfgPath k"
    "hb_running (k_heartbeat k') = hb_running (k_heartbeat k)"
    "dp_running (k_dispatcher k') = dp_running (k_dispatcher k)"
  using connect_ok_eq [OF assms]
  by (auto simp: Heartbeat_UpdateConn_def Dispatcher_UpdateConn_def is_open_def)

lemma validate_frame:
  assumes "validateAndProbe dns ce endpoint k = (r, k')"
  shows "\<exists>cs. k' = k\<lparr>k_conns := k_conns k @ cs\<rparr> \<and> list_all cn_closed cs"
proof -
  have "k' = k \<or> (\<exists>c. k' = k\<lparr>k_conns := k_conns k @ [Conn_Close c]\<rparr>)"
    using assms by (auto simp: validateAndProbe_def Let_def close_new split: if_splits sum.splits)
  then show ?thesis
    by (elim disjE exE) (force intro: exI [of _ "[]"], force)
qed


lemma switch_start:
  "\<exists>k3. CloudLink_switchConn ce e k = CloudLink_connect ce k3 \<and> k_cfg k3 = k_cfg (set_endpoint e k) \<and>
     k_files k3 = k_files k \<and> k_cfgPath k3 = k_cfgPath k \<and> k_conn k3 = k_conn k \<and>
     hc_CloudEndpoint (hb_cfg (k_heartbeat k3)) = e \<and> length (k_conns k3) = length (k_conns k) \<and>
     (\<forall>n. k_conn k = Some n \<longrightarrow> \<not> is_open k3 n)"
proof -
  define k1 where "k1 = (case k_conn k of Some n \<Rightarrow> close_conn n k | None \<Rightarrow> k)"
  define k3 where "k3 = (set_endpoint e k1)\<lparr>k_heartbeat := (k_heartbeat (set_endpoint e k1))\<lparr>hb_cfg :=
      (hb_cfg (k_heartbeat (set_endpoint e k1)))\<lparr>hc_CloudEndpoint := e\<rparr>\<rparr>\<rparr>"
  have k1: "k_cfg k1 = k_cfg k" "k_files k1 = k_files k" "k_cfgPath k1 = k_cfgPath k" "k_conn k1 = k_conn k"
    "length (k_conns k1) = length (k_conns k)" "\<And>n. k_conn k = Some n \<Longrightarrow> \<not> is_open k1 n"
    using close_conn_not_open by (auto simp: k1_def close_conn_def split: option.splits)
  have "CloudLink_switchConn ce e k = CloudLink_connect ce k3"
    by (simp add: CloudLink_switchConn_def Let_def k1_def k3_def)
  moreover have "k_cfg k3 = k_cfg (set_endpoint e k)" by (simp add: k3_def set_endpoint_def k1)
  moreover have "\<not> is_open k3 n" if "k_conn k = Some n" for n
    using k1(6) [OF that] by (simp add: k3_def is_open_def)
  ultimately show ?thesis using k1 by (intro exI [of _ k3]) (simp add: k3_def)
qed


text \<open>A switched link: every component uses the one new, open connection to the endpoint.\<close>

definition linked :: "CloudLink \<Rightarrow> string \<Rightarrow> bool" where
  "linked k e \<longleftrightarrow> (\<exists>n. k_conn k = Some n \<and> is_open k n \<and> cn_endpoint (k_conns k ! n) = e \<and>
     rp_conn (k_reporter k) = Some n \<and> hb_conn (k_heartbeat k) = Some n \<and> dp_conn (k_dispatcher k) = Some n)"

lemma connect_linked: "CloudLink_connect ce k = (None, k') \<Longrightarrow> linked k' (cc_Endpoint (c_Cloud (k_cfg k)))"
  unfolding linked_def by (intro exI [of _ "length (k_conns k)"]) (simp add: connect_ok)


text \<open>What has been sent is never taken back: the later state has sent what the earlier one had, and perhaps more.\<close>

definition sent_ext :: "CloudLink \<Rightarrow> CloudLink \<Rightarrow> bool" where
  "sent_ext k k' \<longleftrightarrow> (\<exists>sent. k_out k' = k_out k @ sent)"

lemma sent_ext_refl [simp]: "sent_ext k k"
  by (simp add: sent_ext_def)

lemma sent_ext_same: "k_out k' = k_out k1 \<Longrightarrow> sent_ext k k1 \<Longrightarrow> sent_ext k k'"
  by (simp add: sent_ext_def)






lemma ack_config_sel [simp]:
  "k_cfg (ack_config de b reason k) = k_cfg k" "k_files (ack_config de b reason k) = k_files k"
  "k_conns (ack_config de b reason k) = k_conns k" "k_conn (ack_config de b reason k) = k_conn k"
  "k_heartbeat (ack_config de b reason k) = k_heartbeat k" "k_dispatcher (ack_config de b reason k) = k_dispatcher k"
  by (simp_all add: ack_config_def split: prod.splits)




lemma audit_rollback_sel [simp]: "k_cfg (audit_rollback de e k) = k_cfg k"
  "k_files (audit_rollback de e k) = k_files k" "k_conns (audit_rollback de e k) = k_conns k"
  "k_conn (audit_rollback de e k) = k_conn k" "k_heartbeat (audit_rollback de e k) = k_heartbeat k"
  "k_out (audit_rollback de e k) = k_out k"
  by (simp_all add: audit_rollback_def)


text \<open>The update after a successful trial connection, as one step from the saved configuration.\<close>

lemma update_valid:
  assumes "isValidDomain e" "validateAndProbe (de_dns de) (de_probe de) e k = (None, k1)"
  shows "DomainUpdater_UpdateDomain de e k =
    (case save_config (de_save de) (set_endpoint e k1) of
       (Some err, k3) \<Rightarrow> (Some err, ack_config de False ''persist failed''
          (audit_rollback de e (set_endpoint (cc_Endpoint (c_Cloud (k_cfg k))) k3)))
     | (None, k3) \<Rightarrow>
         (case (case de_switch de of None \<Rightarrow> (None, k3) | Some ce \<Rightarrow> CloudLink_switchConn ce e k3) of
            (Some err, k4) \<Rightarrow> (Some err, ack_config de False ''switch conn failed'' (audit_rollback de e
               (snd (save_config (de_resave de) (set_endpoint (cc_Endpoint (c_Cloud (k_cfg k))) k4)))))
          | (None, k4) \<Rightarrow> (None, ack_config de True []
               (k4\<lparr>k_audit := map_option (\<lambda>a. AuditLogger_LogDomainUpdate a e (de_traceID de)) (k_audit k4)\<rparr>))))"
proof -
  have c: "k_cfg k1 = k_cfg k" using validate_frame [OF assms(2)] by auto
  show ?thesis
    unfolding DomainUpdater_UpdateDomain_def assms(2) Let_def prod.case option.case c using assms(1) by simp
qed




section \<open>Properties\<close>

text \<open>
  (C18) Connecting is all or nothing. A failure changes nothing except that the connection it may have
  opened is in the store, closed; after a success the link, the reporter, the heartbeat and the
  dispatcher all use the same new connection, which is open, leads to the configured endpoint, and has
  no missed heartbeat counted.
\<close>

theorem connect_all_or_nothing:
  "(case CloudLink_connect ce k of
      (Some err, k') \<Rightarrow> \<exists>cs. k' = k\<lparr>k_conns := k_conns k @ cs\<rparr> \<and> list_all cn_closed cs
    | (None, k') \<Rightarrow> linked k' (cc_Endpoint (c_Cloud (k_cfg k))) \<and> hb_missCount (k_heartbeat k') = 0 \<and>
        k_cfg k' = k_cfg k \<and> k_files k' = k_files k)"
proof (cases "CloudLink_connect ce k")
  case (Pair r k')
  then show ?thesis
    using connect_fail [of ce k _ k'] connect_linked [of ce k k'] connect_ok(5,9,10) [of ce k k']
    by (cases r) auto
qed


lemma flush_tasks_keep: "k_conns (flush_tasks now wrs ts k) = k_conns k \<and> k_conn (flush_tasks now wrs ts k) = k_conn k"
  by (induction ts arbitrary: wrs k) (simp_all split: prod.splits)

lemma flush_keep:
  "k_conns (flushPendingResults now wrs devs lp k) = k_conns k"
  "k_conn (flushPendingResults now wrs devs lp k) = k_conn k"
  using flush_tasks_keep by (auto simp: flushPendingResults_def split: option.splits)

lemma is_open_append: "is_open k n \<Longrightarrow> take (length (k_conns k)) (k_conns k') = k_conns k \<Longrightarrow> is_open k' n"
  unfolding is_open_def by (metis length_take min_less_iff_conj nth_take)

lemma save_config_keep: "save_config sv k = (r, k') \<Longrightarrow>
  k_conns k' = k_conns k \<and> k_conn k' = k_conn k \<and> k_heartbeat k' = k_heartbeat k \<and> k_cfg k' = k_cfg k"
  by (auto simp: save_config_def split: prod.splits)

text \<open>
  A switch that fails costs the connection: the old one has been closed before the new one was tried.
  When the trial connection and the saving succeed and the switch does not, the link still refers to
  the old connection, which is closed, the heartbeat announces the new endpoint, and the configuration
  has the old one.
\<close>

theorem failed_switch_loses_connection:
  assumes "isValidDomain e" "validateAndProbe (de_dns de) (de_probe de) e k = (None, k1)"
    "save_config (de_save de) (set_endpoint e k1) = (None, k3)" "de_switch de = Some ce"
    "CloudLink_switchConn ce e k3 = (Some err, k4)" "k_conn k = Some n" "n < length (k_conns k)"
  shows "\<exists>k'. DomainUpdater_UpdateDomain de e k = (Some err, k') \<and> k_conn k' = Some n \<and> \<not> is_open k' n \<and>
    hc_CloudEndpoint (hb_cfg (k_heartbeat k')) = e \<and> cc_Endpoint (c_Cloud (k_cfg k')) = cc_Endpoint (c_Cloud (k_cfg k))"
proof -
  obtain r5 k5 where s5: "save_config (de_resave de) (set_endpoint (cc_Endpoint (c_Cloud (k_cfg k))) k4) = (r5, k5)"
    by fastforce
  have u: "DomainUpdater_UpdateDomain de e k = (Some err, ack_config de False ''switch conn failed'' (audit_rollback de e k5))"
    by (simp add: update_valid [OF assms(1,2)] assms(3-5) s5)
  have k1: "k_conn k1 = Some n" "n < length (k_conns k1)" using validate_frame [OF assms(2)] assms(6,7) by auto
  then have k3: "k_conn k3 = Some n" "n < length (k_conns k3)" using save_config_keep [OF assms(3)] by simp_all
  obtain kc where c: "CloudLink_connect ce kc = (Some err, k4)" "k_conn kc = Some n" "\<not> is_open kc n"
    "hc_CloudEndpoint (hb_cfg (k_heartbeat kc)) = e" "length (k_conns kc) = length (k_conns k3)"
    using switch_start [of ce e k3] assms(5) k3 by auto
  from connect_fail [OF c(1)] obtain cs where k4: "k4 = kc\<lparr>k_conns := k_conns kc @ cs\<rparr>" by auto
  have "\<not> is_open k4 n" using c(3,5) k3(2) by (simp add: k4 is_open_def nth_append)
  then have "\<not> is_open k5 n" "k_conn k5 = Some n" "k_heartbeat k5 = k_heartbeat k4"
    "cc_Endpoint (c_Cloud (k_cfg k5)) = cc_Endpoint (c_Cloud (k_cfg k))"
    using save_config_keep [OF s5] c(2) by (simp_all add: is_open_def k4)
  then show ?thesis using u c(4) k4 by (simp add: is_open_def)
qed

text \<open>
  A reconnect leaves the connection it replaces open: nothing closes it, and after the end of the link,
  which closes the current connection only, it is still open.
\<close>

theorem reconnect_leaks_connection:
  assumes "CloudLink_reconnectFn ce now wrs devs listPending k = (None, k')" "k_conn k = Some n" "is_open k n"
  shows "is_open k' n \<and> k_conn k' \<noteq> Some n \<and> is_open (CloudLink_Stop k') n"
proof -
  obtain k1 where c: "CloudLink_connect ce k = (None, k1)" and k': "k' = flushPendingResults now wrs devs listPending k1"
    using assms(1) by (auto simp: CloudLink_reconnectFn_def split: prod.splits option.splits)
  have n: "n < length (k_conns k)" using assms(3) by (simp add: is_open_def)
  have o: "is_open k' n" "k_conn k' = Some (length (k_conns k))"
    using is_open_append [OF assms(3) connect_ok(7) [OF c]] connect_ok(1) [OF c] by (simp_all add: k' is_open_def flush_keep)
  then have "is_open (CloudLink_Stop k') n"
    using n by (simp add: CloudLink_Stop_def Let_def is_open_def close_conn_def)
  then show ?thesis using o n by simp
qed

text \<open>
  A failed start is final: the link counts as running although neither the heartbeat nor the dispatcher
  was started, and every later \<open>Start\<close> returns success without doing anything.
\<close>

theorem failed_start_is_final:
  assumes "\<not> k_running k" "CloudLink_Start ce k = (Some err, k')"
  shows "k_heartbeat k' = k_heartbeat k \<and> k_dispatcher k' = k_dispatcher k \<and> k_conn k' = k_conn k \<and>
    CloudLink_Start ce' k' = (None, k')"
proof -
  have "CloudLink_connect ce (k\<lparr>k_running := True\<rparr>) = (Some err, k')"
    using assms by (simp add: CloudLink_Start_def split: prod.splits option.splits)
  from connect_fail [OF this] show ?thesis by (auto simp: CloudLink_Start_def)
qed

text \<open>
  Stopping ends everything once: the current connection is closed, the heartbeat, the dispatcher and the
  reconnector are not running, and a second \<open>Stop\<close> changes nothing.
\<close>

theorem stop_ends_everything:
  assumes "\<not> k_stopped k" "k_conn k = Some n"
  shows "\<not> is_open (CloudLink_Stop k) n \<and> \<not> hb_running (k_heartbeat (CloudLink_Stop k)) \<and>
    \<not> dp_running (k_dispatcher (CloudLink_Stop k)) \<and> \<not> rc_running (k_reconnect (CloudLink_Stop k)) \<and>
    \<not> k_running (CloudLink_Stop k) \<and> CloudLink_Stop (CloudLink_Stop k) = CloudLink_Stop k"
  using assms close_conn_not_open
  by (simp add: CloudLink_Stop_def Let_def Heartbeat_Stop_def Dispatcher_Stop_def Reconnect_Stop_def)

text \<open>
  The two checks of an endpoint disagree: a domain update accepts and saves a name without a dot, which
  the validation at the next start refuses, so that the agent does not come up again.
\<close>

theorem accepted_domain_fails_at_restart:
  assumes "isValidDomain e" "CHR ''.'' \<notin> set e" "readFile path = Inr raw" "unmarshal raw = Inr cfg"
    "cc_Endpoint (c_Cloud cfg) = e" "getenv ''CPA_CLOUD_ENDPOINT'' = []"
  shows "\<exists>err. Load readFile unmarshal getenv path = Inl err \<and> CodeFromErr err = Some ErrConfigInvalid"
proof -
  let ?c = "set_derived (ApplyEnvOverrides getenv (ApplyFixedDefaults cfg))"
  have "cc_Endpoint (c_Cloud ?c) = e"
    using ApplyEnvOverrides_endpoint [of getenv "ApplyFixedDefaults cfg"] assms(5,6)
    by (simp add: set_derived_def ApplyFixedDefaults_def)
  then have "\<not> valid_config ?c" using assms(2) by (simp add: valid_config_def)
  then obtain err where "Validate ?c = Some err" using Validate_iff by blast
  then show ?thesis using Validate_code by (simp add: Load_def assms(3,4) Let_def)
qed

section \<open>Witnesses\<close>

definition demo_ce :: "ws_read \<Rightarrow> connect_env" where
  "demo_ce rd = \<lparr>ce_lookup = LookupIPs [''203.0.113.7''], ce_wsdial = (\<lambda>_. None), ce_read = rd,
     ce_handshake = (\<lambda>_. \<lparr>hs_Code = 0, hs_Reason = [], hs_Status = [], hs_Detail = []\<rparr>), ce_writes = []\<rparr>"

definition demo_ok :: connect_env where
  "demo_ok = demo_ce (ReadMsg \<lparr>e_Type = ''auth_ok'', e_TraceID = [], e_TS = 1, e_Payload = PRaw []\<rparr>)"

definition demo_link :: CloudLink where
  "demo_link = NewCloudLink (\<lambda>_. []) (set_derived demo_cfg) ''c'' ''tok'' True None [''c'' \<mapsto> [9]]"

definition demo_de :: "connect_env \<Rightarrow> domain_env" where
  "demo_de ce = \<lparr>de_traceID = ''t'', de_now = 4, de_dns = LookupIPs [''203.0.113.7''], de_probe = demo_ok,
     de_save = demo_save_env None, de_switch = Some ce, de_resave = demo_save_env None, de_ack = None\<rparr>"

definition demo_live :: CloudLink where
  "demo_live = snd (CloudLink_connect demo_ok demo_link)"

definition demo_bad :: connect_env where
  "demo_bad = demo_ce ReadEOF"

lemma demo_live_conn: "k_conn demo_live = Some 0" "is_open demo_live 0"
  by code_simp+


theorem failed_switch_loses_connection_witness:
  "\<exists>err k'. DomainUpdater_UpdateDomain (demo_de demo_bad) ''new.example.com'' demo_live = (Some err, k') \<and>
     k_conn k' = Some 0 \<and> \<not> is_open k' 0"
proof -
  let ?e = "''new.example.com''"
  obtain r1 k1 where v: "validateAndProbe (de_dns (demo_de demo_bad)) (de_probe (demo_de demo_bad)) ?e demo_live = (r1, k1)"
    by fastforce
  moreover have "fst (validateAndProbe (de_dns (demo_de demo_bad)) (de_probe (demo_de demo_bad)) ?e demo_live) = None"
    by code_simp
  ultimately have v': "validateAndProbe (de_dns (demo_de demo_bad)) (de_probe (demo_de demo_bad)) ?e demo_live = (None, k1)"
    by simp
  define k3 where "k3 = snd (save_config (de_save (demo_de demo_bad)) (set_endpoint ?e k1))"
  have k1: "k1 = snd (validateAndProbe (de_dns (demo_de demo_bad)) (de_probe (demo_de demo_bad)) ?e demo_live)" using v by simp
  have "fst (save_config (de_save (demo_de demo_bad)) (set_endpoint ?e k1)) = None" unfolding k1 by code_simp
  then have s: "save_config (de_save (demo_de demo_bad)) (set_endpoint ?e k1) = (None, k3)"
    unfolding k3_def by (metis prod.collapse)
  have "fst (CloudLink_switchConn demo_bad ?e k3) \<noteq> None" unfolding k3_def k1 by code_simp
  then obtain err k4 where "CloudLink_switchConn demo_bad ?e k3 = (Some err, k4)" by (metis option.exhaust prod.collapse)
  from failed_switch_loses_connection [OF _ v' s _ this, of 0] demo_live_conn
  have "isValidDomain ?e \<Longrightarrow> ?thesis" by (auto simp: demo_de_def is_open_def)
  moreover have "isValidDomain ?e" by code_simp
  ultimately show ?thesis by blast
qed

theorem reconnect_leaks_connection_witness:
  "is_open (CloudLink_Stop (snd (CloudLink_reconnectFn demo_ok 7 [] [] (\<lambda>_. []) demo_live))) 0"
proof -
  have "fst (CloudLink_reconnectFn demo_ok 7 [] [] (\<lambda>_. []) demo_live) = None" by code_simp
  then have "CloudLink_reconnectFn demo_ok 7 [] [] (\<lambda>_. []) demo_live =
      (None, snd (CloudLink_reconnectFn demo_ok 7 [] [] (\<lambda>_. []) demo_live))" by (metis prod.collapse)
  from reconnect_leaks_connection [OF this demo_live_conn] show ?thesis by simp
qed

theorem failed_start_is_final_witness:
  "fst (CloudLink_Start demo_bad demo_link) \<noteq> None \<and>
   CloudLink_Start demo_ok (snd (CloudLink_Start demo_bad demo_link)) = (None, snd (CloudLink_Start demo_bad demo_link))"
proof -
  have f: "fst (CloudLink_Start demo_bad demo_link) \<noteq> None" by code_simp
  then obtain err where "CloudLink_Start demo_bad demo_link = (Some err, snd (CloudLink_Start demo_bad demo_link))"
    by (metis option.exhaust prod.collapse)
  moreover have "\<not> k_running demo_link" by (simp add: demo_link_def NewCloudLink_def)
  ultimately show ?thesis using failed_start_is_final [of demo_link demo_bad] f by blast
qed

theorem stop_ends_everything_witness: "\<not> is_open (CloudLink_Stop demo_live) 0"
proof -
  have "\<not> k_stopped demo_live" by code_simp
  from stop_ends_everything [OF this demo_live_conn(1)] show ?thesis by simp
qed

theorem accepted_domain_fails_at_restart_witness:
  "\<exists>err. Load (\<lambda>_. Inr [1]) (\<lambda>_. Inr (k_cfg (set_endpoint ''localhost'' demo_link))) (\<lambda>_. []) ''c'' = Inl err"
proof -
  have "isValidDomain ''localhost''" by code_simp
  from accepted_domain_fails_at_restart [OF this, of "\<lambda>_. Inr [1]" "''c''" "[1]"
      "\<lambda>_. Inr (k_cfg (set_endpoint ''localhost'' demo_link))" "k_cfg (set_endpoint ''localhost'' demo_link)" "\<lambda>_. []"]
  show ?thesis by auto
qed

end
