(* ===== verification/Lifecycle.thy ===== *)
theory Lifecycle
  imports CloudLink OpsApi Credential Pipeline
begin

text \<open>
  \<^verbatim>\<open>src/internal/lifecycle\<close>: how the agent comes up and goes down. \<open>Run\<close> is modelled up to the point
  where it waits for a signal: an error it returns, or the running application. What the outside does
  in the meantime is in \<open>run_env\<close>.
\<close>

section \<open>The application\<close>

record 'db App =
  ap_cfg :: AgentConfig
  ap_cfgPath :: string
  ap_metrics :: NetMetrics
  ap_mgr :: Manager
  ap_queue :: "'db Queue"
  ap_cred :: "CredManager option"
  ap_pendingConfig :: bool
  ap_prober :: "LoopProber option"
  ap_executor :: "'db pipe option"
  ap_link :: "CloudLink option"
  ap_ops :: bool
  ap_db :: bool

definition credentialEnvKey :: string where "credentialEnvKey = ''CPA_MASTER_KEY''"
definition credentialEncPath :: string where "credentialEncPath = ''/etc/cloud-print-agent/credentials.enc''"

record 'db run_env =
  re_readFile :: "string \<Rightarrow> goerror + bytes"
  re_unmarshal :: "bytes \<Rightarrow> goerror + AgentConfig"
  re_getenv :: "string \<Rightarrow> string"
  re_logdir :: "goerror option"
  re_auditdir :: "goerror option"
  re_open :: "goerror + 'db"
  re_bbolt :: "'db bbolt"
  re_gob :: gob
  re_now :: gotime
  re_aead :: aead
  re_codec :: codec
  re_credread :: "goerror option"
  re_files :: "string \<rightharpoonup> bytes"
  re_connect :: connect_env
  re_listen :: "goerror option"

section \<open>Starting\<close>

definition initStorage :: "'db run_env \<Rightarrow> goerror + 'db" where
  "initStorage re =
     (case re_open re of Inl err \<Rightarrow> Inl (Wrap ErrStorageIO ''open storage db'' err) | Inr db \<Rightarrow> Inr db)"

text \<open>The devices of the configuration; one that is refused is logged and skipped.\<close>

definition add_devices :: "gotime \<Rightarrow> Device list \<Rightarrow> Manager \<Rightarrow> Manager" where
  "add_devices now devs m = foldl (\<lambda>m d. snd (Manager_Add now m d)) m devs"

text \<open>\<open>opsServer.Start\<close>: it listens on the local port or fails.\<close>

definition start_ops :: "'db run_env \<Rightarrow> 'db App \<Rightarrow> goerror + 'db App" where
  "start_ops re a = (case re_listen re of Some err \<Rightarrow> Inl err | None \<Rightarrow> Inr (a\<lparr>ap_ops := True\<rparr>))"

definition runPendingConfig :: "'db run_env \<Rightarrow> 'db App \<Rightarrow> goerror + 'db App" where
  "runPendingConfig re a = start_ops re a"

text \<open>The rest of \<open>Run\<close> with credentials: prober, executor, cloud link, operations API.\<close>

definition run_connected :: "'db run_env \<Rightarrow> audit \<Rightarrow> CredManager \<Rightarrow> 'db App \<Rightarrow> goerror + 'db App" where
  "run_connected re audit cred a0 =
     (let cfg = ap_cfg a0;
          a1 = a0\<lparr>ap_prober := Some (snd (LoopProber_Start (NewLoopProber (cc_Endpoint (c_Cloud cfg)) []
                 (c_CloudOutboundPort cfg) (ap_metrics a0) (Some audit))))\<rparr>;
          a2 = a1\<lparr>ap_executor := Some (Executor_Start (ap_queue a1) (ap_mgr a1) (int defaultWorkerCount))\<rparr>;
          link = NewCloudLink (re_getenv re) cfg (ap_cfgPath a2) (GetDeviceToken cred) True (Some audit) (re_files re);
          (_, link1) = CloudLink_Start (re_connect re) link
      in start_ops re (a2\<lparr>ap_link := Some link1\<rparr>))"

definition Run :: "'db run_env \<Rightarrow> string \<Rightarrow> goerror + 'db App" where
  "Run re configPath =
     (case Load (re_readFile re) (re_unmarshal re) (re_getenv re) configPath of
        Inl err \<Rightarrow> Inl err
      | Inr cfg \<Rightarrow>
     (case NewLogger (re_logdir re) (sc_LogDir (c_Storage cfg)) (lc_Level (c_Log cfg)) of
        Inl err \<Rightarrow> Inl err
      | Inr lvl \<Rightarrow>
     (case NewAuditLogger (re_auditdir re) (sc_LogDir (c_Storage cfg)) of
        Inl err \<Rightarrow> Inl err
      | Inr audit \<Rightarrow>
     (case initStorage re of
        Inl err \<Rightarrow> Inl err
      | Inr db \<Rightarrow>
          let mgr = add_devices (re_now re) (c_Devices cfg) NewManager;
              (_, queue) = Recoverer_Recover (re_bbolt re) (re_gob re) (NewQueue (c_QueueCapacity cfg) (Some db));
              a = \<lparr>ap_cfg = cfg, ap_cfgPath = configPath, ap_metrics = NewNetMetrics, ap_mgr = mgr, ap_queue = queue,
                   ap_cred = None, ap_pendingConfig = False, ap_prober = None, ap_executor = None, ap_link = None,
                   ap_ops = False, ap_db = True\<rparr>
          in case NewCredManager (re_aead re) (re_codec re) (re_getenv re) (re_credread re) credentialEnvKey
                    credentialEncPath (re_files re) of
               Inl credErr \<Rightarrow> runPendingConfig re (a\<lparr>ap_pendingConfig := True\<rparr>)
             | Inr cred \<Rightarrow> run_connected re audit cred (a\<lparr>ap_cred := Some cred\<rparr>)))))"

section \<open>Stopping\<close>

text \<open>
  \<open>Executor.Stop\<close>: the queue is closed and, once \<open>wg.Wait\<close> returns, every goroutine has ended: a
  consumer drops the task it holds, a worker has finished the one it executes and takes no other, so
  that what is in the channel stays there.
\<close>

definition Executor_Stop :: "'db pipe \<Rightarrow> 'db pipe" where
  "Executor_Stop p = p\<lparr>ps_queue := Queue_Close (ps_queue p), ps_consumers := {}, ps_hold := Map.empty, ps_running := []\<rparr>"

definition stop_link :: "'db App \<Rightarrow> 'db App" where
  "stop_link a = a\<lparr>ap_link := map_option CloudLink_Stop (ap_link a)\<rparr>"

definition stop_executor :: "'db App \<Rightarrow> 'db App" where
  "stop_executor a =
     (case ap_executor a of
        None \<Rightarrow> a
      | Some p \<Rightarrow> a\<lparr>ap_executor := Some (Executor_Stop p), ap_queue := Queue_Close (ap_queue a)\<rparr>)"

definition stop_prober :: "'db App \<Rightarrow> 'db App" where
  "stop_prober a = a\<lparr>ap_prober := map_option (\<lambda>p. snd (LoopProber_Stop p)) (ap_prober a)\<rparr>"

definition close_queue :: "'db App \<Rightarrow> 'db App" where
  "close_queue a = a\<lparr>ap_queue := Queue_Close (ap_queue a)\<rparr>"

definition stop_ops :: "'db App \<Rightarrow> 'db App" where
  "stop_ops a = a\<lparr>ap_ops := False\<rparr>"

definition close_db :: "'db App \<Rightarrow> 'db App" where
  "close_db a = a\<lparr>ap_db := False\<rparr>"

text \<open>
  \<open>Shutdown\<close> runs these in a goroutine and gives up after ten seconds: \<open>n\<close> of them are done by then.
\<close>

definition shutdown_steps :: "('db App \<Rightarrow> 'db App) list" where
  "shutdown_steps = [stop_link, stop_executor, stop_prober, close_queue, stop_ops, close_db]"

definition Shutdown :: "nat \<Rightarrow> 'db App \<Rightarrow> 'db App" where
  "Shutdown n a = foldl (\<lambda>a f. f a) a (take n shutdown_steps)"

section \<open>Watchdog\<close>

text \<open>\<open>WatchdogInterval\<close> of what systemd says, and the interval \<open>Run\<close> starts the watchdog with.\<close>

definition WatchdogInterval :: "goerror + duration \<Rightarrow> duration option" where
  "WatchdogInterval sd = (case sd of Inl err \<Rightarrow> None | Inr d \<Rightarrow> if d \<le> 0 then None else Some d)"

text \<open>\<open>StartWatchdog\<close>: the notifications sent over a number of ticks.\<close>

definition StartWatchdog :: "duration \<Rightarrow> nat \<Rightarrow> string list" where
  "StartWatchdog interval ticks = (if interval \<le> 0 then [] else replicate ticks ''WATCHDOG=1'')"

section \<open>Lemmas\<close>

lemma add_devices_inv: "mgr_inv m \<Longrightarrow> mgr_inv (add_devices now devs m)"
  by (induction devs arbitrary: m) (simp_all add: add_devices_def Add_inv)

lemma add_devices_get:
  "mgr_inv m \<Longrightarrow> Manager_Get (add_devices now devs m) i \<noteq> None \<longleftrightarrow>
     Manager_Get m i \<noteq> None \<or> (\<exists>d \<in> set devs. d_DeviceID d = i \<and> Manager_validate (Some d) = None)"
proof (induction devs arbitrary: m)
  case (Cons d devs)
  have "Manager_Get (snd (Manager_Add now m d)) i \<noteq> None \<longleftrightarrow>
      Manager_Get m i \<noteq> None \<or> d_DeviceID d = i \<and> Manager_validate (Some d) = None"
    by (auto simp: Manager_Add_def Manager_Get_def update_conv' split: option.splits)
  with Cons.IH [OF Add_inv [OF Cons.prems], of now d] show ?case by (auto simp: add_devices_def)
qed (simp add: add_devices_def)

lemma NewManager_inv: "mgr_inv NewManager"
  by (simp add: mgr_inv_def NewManager_def)

lemma NewLogger_ok: "valid_config cfg \<Longrightarrow> \<exists>lvl. NewLogger None (sc_LogDir (c_Storage cfg)) (lc_Level (c_Log cfg)) = Inr lvl"
  by (auto simp: valid_config_def NewLogger_def parseLevel_def)

lemma Load_valid: "Load rf un ge path = Inr cfg \<Longrightarrow> valid_config cfg"
  by (auto simp: Load_def Let_def Validate_iff split: sum.splits option.splits)

text \<open>The stages of \<open>Run\<close> before the credentials are looked at.\<close>

definition base_app :: "'db run_env \<Rightarrow> string \<Rightarrow> AgentConfig \<Rightarrow> 'db \<Rightarrow> 'db App" where
  "base_app re path cfg db =
     \<lparr>ap_cfg = cfg, ap_cfgPath = path, ap_metrics = NewNetMetrics,
      ap_mgr = add_devices (re_now re) (c_Devices cfg) NewManager,
      ap_queue = snd (Recoverer_Recover (re_bbolt re) (re_gob re) (NewQueue (c_QueueCapacity cfg) (Some db))),
      ap_cred = None, ap_pendingConfig = False, ap_prober = None, ap_executor = None, ap_link = None,
      ap_ops = False, ap_db = True\<rparr>"

lemma Run_stages:
  assumes "Load (re_readFile re) (re_unmarshal re) (re_getenv re) path = Inr cfg"
    "NewLogger (re_logdir re) (sc_LogDir (c_Storage cfg)) (lc_Level (c_Log cfg)) = Inr lvl"
    "NewAuditLogger (re_auditdir re) (sc_LogDir (c_Storage cfg)) = Inr audit" "re_open re = Inr db"
  shows "Run re path =
    (case NewCredManager (re_aead re) (re_codec re) (re_getenv re) (re_credread re) credentialEnvKey credentialEncPath (re_files re) of
       Inl credErr \<Rightarrow> runPendingConfig re ((base_app re path cfg db)\<lparr>ap_pendingConfig := True\<rparr>)
     | Inr cred \<Rightarrow> run_connected re audit cred ((base_app re path cfg db)\<lparr>ap_cred := Some cred\<rparr>))"
  using assms
  by (cases "NewCredManager (re_aead re) (re_codec re) (re_getenv re) (re_credread re) credentialEnvKey credentialEncPath (re_files re)")
    (simp_all add: Run_def initStorage_def base_app_def Let_def case_prod_beta)

lemma Run_cases:
  assumes "Run re path = Inr a"
  obtains cfg lvl audit db where "Load (re_readFile re) (re_unmarshal re) (re_getenv re) path = Inr cfg"
    "NewLogger (re_logdir re) (sc_LogDir (c_Storage cfg)) (lc_Level (c_Log cfg)) = Inr lvl"
    "NewAuditLogger (re_auditdir re) (sc_LogDir (c_Storage cfg)) = Inr audit" "re_open re = Inr db"
  using assms by (auto simp: Run_def initStorage_def split: sum.splits)

text \<open>What \<open>Run\<close> adds to the base application in each mode.\<close>

lemma pending_mode:
  "runPendingConfig re (b\<lparr>ap_pendingConfig := True\<rparr>) = Inr a \<Longrightarrow> a = b\<lparr>ap_pendingConfig := True, ap_ops := True\<rparr>"
  by (simp add: runPendingConfig_def start_ops_def split: option.splits)

lemma connected_mode:
  assumes "run_connected re audit cred (b\<lparr>ap_cred := Some cred\<rparr>) = Inr a"
  shows "\<exists>pr ex err link. a = b\<lparr>ap_cred := Some cred, ap_prober := Some pr, ap_executor := Some ex, ap_link := Some link, ap_ops := True\<rparr> \<and>
    CloudLink_Start (re_connect re) (NewCloudLink (re_getenv re) (ap_cfg b) (ap_cfgPath b) (GetDeviceToken cred) True (Some audit) (re_files re)) =
      (err, link)"
  using assms by (auto simp: run_connected_def start_ops_def Let_def split: prod.splits option.splits)

lemma Run_modes:
  assumes "Run re path = Inr a"
  obtains (pending) cfg db where "Load (re_readFile re) (re_unmarshal re) (re_getenv re) path = Inr cfg"
      "a = (base_app re path cfg db)\<lparr>ap_pendingConfig := True, ap_ops := True\<rparr>"
  | (connected) cfg db audit cred pr ex err link where
      "Load (re_readFile re) (re_unmarshal re) (re_getenv re) path = Inr cfg"
      "a = (base_app re path cfg db)\<lparr>ap_cred := Some cred, ap_prober := Some pr, ap_executor := Some ex,
         ap_link := Some link, ap_ops := True\<rparr>"
      "CloudLink_Start (re_connect re) (NewCloudLink (re_getenv re) cfg path (GetDeviceToken cred) True
         (Some audit) (re_files re)) = (err, link)"
proof -
  obtain cfg lvl audit db where l: "Load (re_readFile re) (re_unmarshal re) (re_getenv re) path = Inr cfg"
    and st: "NewLogger (re_logdir re) (sc_LogDir (c_Storage cfg)) (lc_Level (c_Log cfg)) = Inr lvl"
      "NewAuditLogger (re_auditdir re) (sc_LogDir (c_Storage cfg)) = Inr audit" "re_open re = Inr db"
    by (rule Run_cases [OF assms])
  note r = assms [unfolded Run_stages [OF l st]]
  have b: "ap_cfg (base_app re path cfg db) = cfg" "ap_cfgPath (base_app re path cfg db) = path"
    by (simp_all add: base_app_def)
  show thesis
  proof (cases "NewCredManager (re_aead re) (re_codec re) (re_getenv re) (re_credread re) credentialEnvKey credentialEncPath (re_files re)")
    case (Inl e)
    then show thesis using r pending(1) [OF l pending_mode] by simp
  next
    case (Inr cred)
    then have "run_connected re audit cred ((base_app re path cfg db)\<lparr>ap_cred := Some cred\<rparr>) = Inr a" using r by simp
    from connected_mode [OF this] obtain pr ex err link
      where "a = (base_app re path cfg db)\<lparr>ap_cred := Some cred, ap_prober := Some pr, ap_executor := Some ex,
          ap_link := Some link, ap_ops := True\<rparr>"
        "CloudLink_Start (re_connect re) (NewCloudLink (re_getenv re) cfg path (GetDeviceToken cred) True
          (Some audit) (re_files re)) = (err, link)"
      unfolding b by blast
    then show thesis by (rule connected(1) [OF l])
  qed
qed

lemma Run_total:
  assumes "Load (re_readFile re) (re_unmarshal re) (re_getenv re) path = Inr cfg"
    "re_logdir re = None" "re_auditdir re = None" "re_open re = Inr db" "re_listen re = None"
  shows "\<exists>a. Run re path = Inr a"
proof -
  have v: "valid_config cfg" by (rule Load_valid [OF assms(1)])
  obtain lvl where "NewLogger (re_logdir re) (sc_LogDir (c_Storage cfg)) (lc_Level (c_Log cfg)) = Inr lvl"
    using NewLogger_ok [OF v] assms(2) by auto
  moreover have "NewAuditLogger (re_auditdir re) (sc_LogDir (c_Storage cfg)) = Inr []"
    using v assms(3) by (simp add: NewAuditLogger_def valid_config_def)
  ultimately have "Run re path = (case NewCredManager (re_aead re) (re_codec re) (re_getenv re) (re_credread re)
      credentialEnvKey credentialEncPath (re_files re) of
       Inl credErr \<Rightarrow> runPendingConfig re ((base_app re path cfg db)\<lparr>ap_pendingConfig := True\<rparr>)
     | Inr cred \<Rightarrow> run_connected re [] cred ((base_app re path cfg db)\<lparr>ap_cred := Some cred\<rparr>))"
    by (rule Run_stages [OF assms(1) _ _ assms(4)])
  moreover have "\<exists>a. start_ops re b = Inr a" for b using assms(5) by (simp add: start_ops_def)
  ultimately show ?thesis
    by (auto simp: runPendingConfig_def run_connected_def Let_def case_prod_beta split: sum.splits)
qed

section \<open>Properties\<close>

text \<open>
  (C19) A running agent is in order, in either mode: its configuration is valid, its registry holds exactly
  the valid devices of the configuration and satisfies its invariant, the queue with the recovered
  tasks satisfies its own, the operations API is up; and without credentials neither the prober nor
  the executor nor the cloud link exists, with credentials all three do.
\<close>

theorem startup_outcome:
  assumes "Run re path = Inr a"
  shows "valid_config (ap_cfg a) \<and> mgr_inv (ap_mgr a) \<and> queue_inv (ap_queue a) \<and> ap_ops a \<and> ap_db a \<and>
    dom (Manager_Get (ap_mgr a)) = {d_DeviceID d |d. d \<in> set (c_Devices (ap_cfg a)) \<and> Manager_validate (Some d) = None} \<and>
    (if ap_pendingConfig a
     then ap_cred a = None \<and> ap_prober a = None \<and> ap_executor a = None \<and> ap_link a = None
     else ap_cred a \<noteq> None \<and> ap_prober a \<noteq> None \<and> ap_executor a \<noteq> None \<and> ap_link a \<noteq> None)"
proof -
  have b: "valid_config (ap_cfg b) \<and> mgr_inv (ap_mgr b) \<and> queue_inv (ap_queue b) \<and> ap_db b \<and>
    dom (Manager_Get (ap_mgr b)) = {d_DeviceID d |d. d \<in> set (c_Devices (ap_cfg b)) \<and> Manager_validate (Some d) = None}"
    if "Load (re_readFile re) (re_unmarshal re) (re_getenv re) path = Inr cfg" "b = base_app re path cfg db" for b cfg db
    using Load_valid [OF that(1)] add_devices_inv [OF NewManager_inv] Recover_inv [OF NewQueue_inv]
      add_devices_get [OF NewManager_inv, of "re_now re" "c_Devices cfg"]
    by (auto simp: that(2) base_app_def dom_def Manager_Get_def NewManager_def)
  from assms show ?thesis
  proof (cases rule: Run_modes)
    case (pending cfg db)
    then show ?thesis using b [OF _ refl] by (simp add: base_app_def)
  next
    case (connected cfg db audit cred pr ex err link)
    then show ?thesis using b [OF _ refl] by (simp add: base_app_def)
  qed
qed

text \<open>
  The agent comes up without the cloud: with a configuration that loads, a writable log directory, a
  database that opens and a free operations port it is running, whatever the credentials, the recovery
  of the tasks and the connection to the cloud do.
\<close>

theorem startup_needs_no_cloud:
  assumes "Load (re_readFile re) (re_unmarshal re) (re_getenv re) path = Inr cfg"
    "re_logdir re = None" "re_auditdir re = None" "re_open re = Inr db" "re_listen re = None"
  shows "\<exists>a. Run re path = Inr a"
  by (rule Run_total [OF assms])

text \<open>
  An agent that starts while the cloud is out of reach stays offline: its link has no connection, no
  heartbeat, no dispatcher and no reconnect goroutine, nothing in it that would try again, and starting
  the link once more does nothing.
\<close>

theorem offline_start_stays_offline:
  assumes "Run re path = Inr a" "ap_link a = Some k" "k_conn k = None"
  shows "\<not> hb_running (k_heartbeat k) \<and> \<not> dp_running (k_dispatcher k) \<and> \<not> rc_running (k_reconnect k) \<and>
    CloudLink_Start ce k = (None, k)"
proof -
  obtain cfg cred audit err where s: "CloudLink_Start (re_connect re) (NewCloudLink (re_getenv re) cfg path
      (GetDeviceToken cred) True (Some audit) (re_files re)) = (err, k)"
    using assms(1)
  proof (cases rule: Run_modes)
    case (pending cfg db)
    then show thesis using assms(2) by (simp add: base_app_def)
  next
    case (connected cfg db audit cred pr ex err link)
    then show thesis using assms(2) that by simp
  qed
  let ?l = "NewCloudLink (re_getenv re) cfg path (GetDeviceToken cred) True (Some audit) (re_files re)"
  have r: "\<not> k_running ?l" by (simp add: NewCloudLink_def)
  obtain e k1 where c: "CloudLink_connect (re_connect re) (?l\<lparr>k_running := True\<rparr>) = (e, k1)" by fastforce
  have "e \<noteq> None"
    using connect_ok(1) [of "re_connect re" "?l\<lparr>k_running := True\<rparr>" k1] c s r assms(3)
    by (cases e) (auto simp: CloudLink_Start_def)
  then obtain e' where c': "CloudLink_connect (re_connect re) (?l\<lparr>k_running := True\<rparr>) = (Some e', k1)" using c by auto
  then have "k = k1" using s r by (simp add: CloudLink_Start_def)
  with connect_fail [OF c'] obtain cs where k: "k = ?l\<lparr>k_running := True, k_conns := cs\<rparr>" by auto
  show ?thesis
    by (simp add: k CloudLink_Start_def)
      (simp add: NewCloudLink_def NewHeartbeat_def Heartbeat_OnConnLoss_def NewDispatcher_def NewReconnect_def)
qed

text \<open>
  Shutting down goes from the outside in: the database is closed last and only after the queue has
  been closed and the operations API stopped, however much of the shutdown fits in its ten seconds;
  after the whole of it the queue accepts nothing, the link is stopped and the prober is not running.
\<close>

theorem shutdown_ordered:
  assumes "ap_db a" "Shutdown n a = a'"
  shows "(ap_db a' \<longleftrightarrow> n < 6) \<and> (4 \<le> n \<longrightarrow> q_closed (ap_queue a')) \<and>
    (6 \<le> n \<longrightarrow> \<not> ap_ops a' \<and> (\<forall>k. ap_link a = Some k \<longrightarrow> ap_link a' = Some (CloudLink_Stop k)) \<and>
       (\<forall>p. ap_prober a' = Some p \<longrightarrow> \<not> lp_running p))"
proof -
  have s: "n \<in> {0, 1, 2, 3, 4, 5} \<or> take n (shutdown_steps :: ('db App \<Rightarrow> 'db App) list) = shutdown_steps \<and> 6 \<le> n"
    by (auto simp: shutdown_steps_def)
  have q: "q_closed (Queue_Close q)" for q :: "'db Queue" by (simp add: Queue_Close_def)
  have p: "\<not> lp_running (snd (LoopProber_Stop p))" for p by (simp add: LoopProber_Stop_def)
  note d = stop_link_def stop_executor_def stop_prober_def close_queue_def stop_ops_def close_db_def
  from s show ?thesis
  proof (elim disjE)
    assume "n \<in> {0, 1, 2, 3, 4, 5}"
    then show ?thesis using assms q
      by (auto simp: Shutdown_def shutdown_steps_def numeral_eq_Suc d split: option.splits)
  next
    assume "take n (shutdown_steps :: ('db App \<Rightarrow> 'db App) list) = shutdown_steps \<and> 6 \<le> n"
    then show ?thesis using assms q p
      by (auto simp: Shutdown_def shutdown_steps_def d split: option.splits)
  qed
qed

section \<open>Witnesses\<close>

text \<open>A machine with a configuration, an empty database and credentials, on the network \<open>ce\<close>.\<close>

definition demo_getenv :: "string \<Rightarrow> string" where
  "demo_getenv k = (if k = credentialEnvKey then b64_encode (replicate 32 5) else [])"

definition demo_run :: "connect_env \<Rightarrow> mem_db run_env" where
  "demo_run ce = \<lparr>re_readFile = (\<lambda>_. Inr [1]), re_unmarshal = (\<lambda>_. Inr demo_cfg),
     re_getenv = demo_getenv,
     re_logdir = None, re_auditdir = None, re_open = Inr mem_empty, re_bbolt = mem_bbolt, re_gob = AB_gob,
     re_now = 1, re_aead = demo_aead, re_codec = demo_codec, re_credread = None,
     re_files = [credentialEncPath \<mapsto> [1]], re_connect = ce, re_listen = None\<rparr>"

definition demo_loaded :: AgentConfig where
  "demo_loaded = set_derived (ApplyEnvOverrides demo_getenv (ApplyFixedDefaults demo_cfg))"

lemma demo_run_simps:
  "re_getenv (demo_run ce) = demo_getenv" "re_logdir (demo_run ce) = None" "re_auditdir (demo_run ce) = None"
  "re_open (demo_run ce) = Inr mem_empty" "re_listen (demo_run ce) = None" "re_connect (demo_run ce) = ce"
  "re_files (demo_run ce) = [credentialEncPath \<mapsto> [1]]"
  by (simp_all add: demo_run_def)

lemma demo_valid: "Validate demo_loaded = None"
  by code_simp

lemma demo_load: "Load (re_readFile (demo_run ce)) (re_unmarshal (demo_run ce)) (re_getenv (demo_run ce)) ''c'' = Inr demo_loaded"
  using demo_valid by (simp add: Load_def demo_run_def demo_loaded_def Let_def)

lemma demo_runs: "\<exists>a. Run (demo_run ce) ''c'' = Inr a"
  by (rule Run_total [OF demo_load demo_run_simps(2-5)])

lemma demo_cred:
  "\<exists>cred. NewCredManager (re_aead (demo_run ce)) (re_codec (demo_run ce)) (re_getenv (demo_run ce)) (re_credread (demo_run ce))
     credentialEnvKey credentialEncPath (re_files (demo_run ce)) = Inr cred \<and> GetDeviceToken cred = ''tok''"
proof -
  have "cred_Load demo_aead demo_codec None credentialEncPath (replicate masterKeyLen 5) [credentialEncPath \<mapsto> [1]] =
      Inr \<lparr>cr_DeviceToken = ''tok'', cr_MTLSCert = [], cr_MTLSKey = []\<rparr>" by code_simp
  moreover have "b64_encode (replicate masterKeyLen 5) \<noteq> []"
    using b64_encode_empty [of "replicate masterKeyLen 5"] by (simp add: masterKeyLen_def)
  moreover have "masterKeyLen = 32" by (simp add: masterKeyLen_def)
  ultimately show ?thesis by (simp add: NewCredManager_def demo_run_def demo_getenv_def b64_roundtrip GetDeviceToken_def)
qed

lemma demo_offline_link:
  "k_conn (snd (CloudLink_Start demo_bad (NewCloudLink demo_getenv demo_loaded ''c'' ''tok'' True (Some [])
     [credentialEncPath \<mapsto> [1]]))) = None"
  by code_simp

theorem offline_start_stays_offline_witness:
  "\<exists>a k. Run (demo_run demo_bad) ''c'' = Inr a \<and> ap_link a = Some k \<and> \<not> rc_running (k_reconnect k) \<and>
     CloudLink_Start demo_ok k = (None, k)"
proof -
  obtain a where r: "Run (demo_run demo_bad) ''c'' = Inr a" using demo_runs by blast
  obtain cred where cred: "NewCredManager (re_aead (demo_run demo_bad)) (re_codec (demo_run demo_bad)) (re_getenv (demo_run demo_bad))
      (re_credread (demo_run demo_bad)) credentialEnvKey credentialEncPath (re_files (demo_run demo_bad)) = Inr cred"
    and t: "GetDeviceToken cred = ''tok''" using demo_cred by blast
  obtain lvl where lvl: "NewLogger (re_logdir (demo_run demo_bad)) (sc_LogDir (c_Storage demo_loaded)) (lc_Level (c_Log demo_loaded)) = Inr lvl"
    using NewLogger_ok [OF Load_valid [OF demo_load]] unfolding demo_run_simps by blast
  have "NewAuditLogger (re_auditdir (demo_run demo_bad)) (sc_LogDir (c_Storage demo_loaded)) = Inr []"
    using Load_valid [OF demo_load] by (simp add: NewAuditLogger_def valid_config_def demo_run_simps)
  from r [unfolded Run_stages [OF demo_load lvl this demo_run_simps(4)] cred sum.case]
  obtain err k where k: "ap_link a = Some k" "CloudLink_Start demo_bad (NewCloudLink demo_getenv demo_loaded ''c'' ''tok'' True (Some [])
      [credentialEncPath \<mapsto> [1]]) = (err, k)"
    by (drule_tac connected_mode) (auto simp: base_app_def demo_run_simps t)
  then have "k_conn k = None" using demo_offline_link by simp
  from offline_start_stays_offline [OF r k(1) this] r k(1) show ?thesis by blast
qed

theorem startup_outcome_witness:
  "\<exists>a. Run (demo_run demo_ok) ''c'' = Inr a \<and> mgr_inv (ap_mgr a) \<and> queue_inv (ap_queue a)"
proof -
  obtain a where "Run (demo_run demo_ok) ''c'' = Inr a" using demo_runs by blast
  with startup_outcome [OF this] show ?thesis by blast
qed

theorem startup_needs_no_cloud_witness: "\<exists>a. Run (demo_run demo_bad) ''c'' = Inr a"
  by (rule startup_needs_no_cloud [OF demo_load demo_run_simps(2-5)])

theorem shutdown_ordered_witness:
  "\<exists>a. Run (demo_run demo_ok) ''c'' = Inr a \<and> ap_db (Shutdown 5 a) \<and> \<not> ap_db (Shutdown 6 a)"
proof -
  obtain a where r: "Run (demo_run demo_ok) ''c'' = Inr a" using demo_runs by blast
  have "ap_db a" using r by (cases rule: Run_modes) (simp_all add: base_app_def)
  from r shutdown_ordered [OF this refl, of 5] shutdown_ordered [OF this refl, of 6] show ?thesis by auto
qed

end
