(* ===== verification/Process.thy ===== *)
theory Process
  imports Lifecycle
begin

text \<open>
  The process around the agent: the rest of \<open>Run\<close> in \<^verbatim>\<open>src/internal/lifecycle/app.go\<close> after the start, with
  what it tells systemd (\<^verbatim>\<open>systemd.go\<close>) and how it waits for a signal (\<^verbatim>\<open>signal.go\<close>); and the loggers a
  context carries (\<^verbatim>\<open>src/internal/observability/trace.go\<close>).
\<close>

section \<open>Signals\<close>

text \<open>The two signals that are asked for; \<open>CtxDone\<close> is the end of the context. The list is what comes, in order.\<close>

datatype signal = SIGTERM | SIGINT
datatype signal_event = Received signal | CtxDone

fun WaitForSignal :: "signal_event list \<Rightarrow> signal option" where
  "WaitForSignal [] = None"
| "WaitForSignal (Received sig # evs) = Some sig"
| "WaitForSignal (CtxDone # evs) = Some SIGTERM"

fun signal_String :: "signal \<Rightarrow> string" where
  "signal_String SIGTERM = ''terminated''"
| "signal_String SIGINT = ''interrupt''"

text \<open>
  \<open>SetupGracefulShutdown\<close>: whether the context it returns has been cancelled, and what it has logged if
  there is an application with a logger.
\<close>

definition SetupGracefulShutdown :: "bool \<Rightarrow> signal_event list \<Rightarrow> bool \<times> (string \<times> string) list" where
  "SetupGracefulShutdown has_logger evs =
     (case WaitForSignal evs of
        None \<Rightarrow> (False, [])
      | Some sig \<Rightarrow> (True, if has_logger then [(''received signal, initiating graceful shutdown'', signal_String sig)] else []))"

section \<open>Systemd\<close>

text \<open>\<open>sd\<close> is \<open>SdNotify\<close>: whether the message was sent, and an error.\<close>

definition NotifyReady :: "(string \<Rightarrow> bool \<times> goerror option) \<Rightarrow> goerror option" where
  "NotifyReady sd = snd (sd ''READY=1'')"

definition NotifyWatchdog :: "(string \<Rightarrow> bool \<times> goerror option) \<Rightarrow> goerror option" where
  "NotifyWatchdog sd = snd (sd ''WATCHDOG=1'')"

section \<open>The life of the process\<close>

text \<open>
  The process has ended with an error, is waiting for a signal, or was stopped by one; with the messages
  handed to systemd. \<open>wd\<close> is what systemd says about the watchdog, \<open>ticks\<close> how often its ticker has fired,
  \<open>n\<close> how many steps of the shutdown are done in time. An error of \<open>NotifyReady\<close> is only logged.
\<close>

datatype 'db process = Failed goerror | Waiting "'db App" | Stopped signal "'db App"

definition watchdog_messages :: "goerror + duration \<Rightarrow> nat \<Rightarrow> string list" where
  "watchdog_messages wd ticks = (case WatchdogInterval wd of None \<Rightarrow> [] | Some d \<Rightarrow> StartWatchdog (d div 3) ticks)"

definition run_process ::
  "'db run_env \<Rightarrow> string \<Rightarrow> goerror + duration \<Rightarrow> nat \<Rightarrow> signal_event list \<Rightarrow> nat \<Rightarrow> string list \<times> 'db process" where
  "run_process re path wd ticks evs n =
     (case Run re path of
        Inl err \<Rightarrow> ([], Failed err)
      | Inr a \<Rightarrow>
          (''READY=1'' # (if ap_pendingConfig a then [] else watchdog_messages wd ticks),
           case WaitForSignal evs of None \<Rightarrow> Waiting a | Some sig \<Rightarrow> Stopped sig (Shutdown n a)))"

section \<open>Loggers in a context\<close>

text \<open>
  A logger by the fields attached to it, or one that writes nothing. A context by its two values; a nil
  context is \<open>None\<close>, and a nil logger too. \<open>fresh\<close> is the id generated by this call.
\<close>

datatype logger = Nop | Logger "field list"

record Ctx =
  cx_trace :: "string option"
  cx_logger :: "logger option"

definition FieldTraceID :: "string \<Rightarrow> field" where
  "FieldTraceID v = (''trace_id'', v)"

fun logger_With :: "logger \<Rightarrow> field \<Rightarrow> logger" where
  "logger_With Nop f = Nop"
| "logger_With (Logger fs) f = Logger (fs @ [f])"

text \<open>\<open>None\<close> is the panic of \<open>context.WithValue\<close> on a nil context.\<close>

definition WithLogger :: "string \<Rightarrow> Ctx option \<Rightarrow> logger option \<Rightarrow> Ctx option option" where
  "WithLogger fresh ctx lg =
     (case lg of
        None \<Rightarrow> Some ctx
      | Some l \<Rightarrow>
          let traceID = TraceIDFromCtx fresh (map_option cx_trace ctx)
          in case ctx of None \<Rightarrow> None | Some c \<Rightarrow> Some (Some (c\<lparr>cx_logger := Some (logger_With l (FieldTraceID traceID))\<rparr>)))"

definition LoggerFromCtx :: "string \<Rightarrow> Ctx option \<Rightarrow> logger option \<Rightarrow> logger" where
  "LoggerFromCtx fresh ctx base =
     (case Option.bind ctx cx_logger of
        Some l \<Rightarrow> l
      | None \<Rightarrow> (case base of None \<Rightarrow> Nop | Some l \<Rightarrow> logger_With l (FieldTraceID (TraceIDFromCtx fresh (map_option cx_trace ctx)))))"

section \<open>The single metrics\<close>

definition NetMetrics_GetDNSLatencyMs :: "NetMetrics \<Rightarrow> int" where
  "NetMetrics_GetDNSLatencyMs m = m_dnsLatencyMs m"

definition NetMetrics_GetResolvedIP :: "NetMetrics \<Rightarrow> string" where
  "NetMetrics_GetResolvedIP m = m_resolvedIP m"

definition NetMetrics_GetGatewayReach :: "NetMetrics \<Rightarrow> bool" where
  "NetMetrics_GetGatewayReach m = m_gatewayReach m"

definition NetMetrics_GetLocalNetReach :: "NetMetrics \<Rightarrow> bool" where
  "NetMetrics_GetLocalNetReach m = m_localNetReach m"

definition NetMetrics_GetLastCheckAt :: "NetMetrics \<Rightarrow> gotime" where
  "NetMetrics_GetLastCheckAt m = m_lastCheckAt m"

section \<open>Properties\<close>

text \<open>The mode the agent is in tells whether the credentials could be opened.\<close>

lemma pending_iff_no_credentials:
  assumes "Run re path = Inr a"
  shows "ap_pendingConfig a \<longleftrightarrow>
    (\<exists>err. NewCredManager (re_aead re) (re_codec re) (re_getenv re) (re_credread re) credentialEnvKey credentialEncPath (re_files re) = Inl err)"
proof -
  obtain cfg lvl audit db where r: "Load (re_readFile re) (re_unmarshal re) (re_getenv re) path = Inr cfg"
    "NewLogger (re_logdir re) (sc_LogDir (c_Storage cfg)) (lc_Level (c_Log cfg)) = Inr lvl"
    "NewAuditLogger (re_auditdir re) (sc_LogDir (c_Storage cfg)) = Inr audit" "re_open re = Inr db"
    using assms by (auto simp: Run_def initStorage_def split: sum.splits)
  show ?thesis
  proof (cases "NewCredManager (re_aead re) (re_codec re) (re_getenv re) (re_credread re) credentialEnvKey credentialEncPath (re_files re)")
    case (Inl err)
    then have "ap_pendingConfig a" using assms Run_stages [OF r] pending_mode by fastforce
    with Inl show ?thesis by simp
  next
    case (Inr cred)
    then have "run_connected re audit cred ((base_app re path cfg db)\<lparr>ap_cred := Some cred\<rparr>) = Inr a"
      using assms Run_stages [OF r] by simp
    from connected_mode [OF this] have "\<not> ap_pendingConfig a" by (auto simp: base_app_def)
    with Inr show ?thesis by simp
  qed
qed

text \<open>
  (C20) The watchdog is fed only when there are credentials. A process that has come up has told systemd that it
  is ready; with a watchdog of at least three nanoseconds it then sends a sign of life at every tick when
  it could open its credentials, and never when it waits for them: under a watchdog such a process is
  killed again and again.
\<close>

theorem watchdog_needs_credentials:
  assumes "Run re path = Inr a" "3 \<le> d"
  shows "fst (run_process re path (Inr d) ticks evs n) =
    ''READY=1'' # (case NewCredManager (re_aead re) (re_codec re) (re_getenv re) (re_credread re) credentialEnvKey credentialEncPath (re_files re) of
       Inl err \<Rightarrow> [] | Inr cred \<Rightarrow> replicate ticks ''WATCHDOG=1'')"
proof -
  have "watchdog_messages (Inr d) ticks = replicate ticks ''WATCHDOG=1''"
    using assms(2) pos_imp_zdiv_pos_iff [of 3 d] by (simp add: watchdog_messages_def WatchdogInterval_def StartWatchdog_def)
  then show ?thesis using assms(1) pending_iff_no_credentials [OF assms(1)] by (simp add: run_process_def split: sum.splits)
qed

text \<open>
  Either signal ends the process with a shutdown, the end of the context too, and nothing else does: while
  no signal has come the agent that came up keeps waiting.
\<close>

theorem process_ends_by_signal:
  assumes "Run re path = Inr a"
  shows "snd (run_process re path wd ticks [] n) = Waiting a"
    "snd (run_process re path wd ticks (Received sig # evs) n) = Stopped sig (Shutdown n a)"
    "snd (run_process re path wd ticks (CtxDone # evs) n) = Stopped SIGTERM (Shutdown n a)"
  using assms by (simp_all add: run_process_def)

text \<open>
  The logger put into a context is the one taken out of it, whatever the base, with the trace id of the
  context. In a context without one the logger gets an id of its own, which the context does not keep:
  the next call for the id of this context gives another.
\<close>

theorem context_logger:
  assumes "WithLogger fresh (Some c) (Some (Logger fs)) = Some ctx'"
  shows "LoggerFromCtx fresh' ctx' base = Logger (fs @ [FieldTraceID (TraceIDFromCtx fresh (Some (cx_trace c)))])"
    "TraceIDFromCtx fresh' (map_option cx_trace ctx') = (case cx_trace c of Some t \<Rightarrow> if t = [] then fresh' else t | None \<Rightarrow> fresh')"
  using assms by (auto simp: WithLogger_def LoggerFromCtx_def TraceIDFromCtx_def Let_def split: option.splits)

text \<open>The single metrics are the components of the tuple \<open>Get\<close> and the fields of the snapshot.\<close>

theorem metrics_views_agree:
  "NetMetrics_Get m = (NetMetrics_GetDNSLatencyMs m, NetMetrics_GetResolvedIP m, NetMetrics_GetGatewayReach m,
     NetMetrics_GetLocalNetReach m, NetMetrics_GetNetClass m, NetMetrics_GetLastCheckAt m)"
  "NetMetrics_Get (NetMetrics_Snapshot m) = NetMetrics_Get m"
  by (simp_all add: NetMetrics_Get_def NetMetrics_GetDNSLatencyMs_def NetMetrics_GetResolvedIP_def NetMetrics_GetGatewayReach_def
      NetMetrics_GetLocalNetReach_def NetMetrics_GetNetClass_def NetMetrics_GetLastCheckAt_def NetMetrics_Snapshot_def)

section \<open>Witnesses\<close>

definition no_cred_run :: "mem_db run_env" where
  "no_cred_run = (demo_run demo_ok)\<lparr>re_credread := Some (PlainError ''permission denied'')\<rparr>"

lemma no_cred_runs: "\<exists>a. Run no_cred_run ''c'' = Inr a"
  by (rule Run_total [of no_cred_run]) (use demo_load [of demo_ok] in \<open>simp_all add: no_cred_run_def demo_run_simps\<close>)

lemma no_cred: "\<exists>err. NewCredManager (re_aead no_cred_run) (re_codec no_cred_run) (re_getenv no_cred_run) (re_credread no_cred_run)
    credentialEnvKey credentialEncPath (re_files no_cred_run) = Inl err"
  by (simp add: no_cred_run_def NewCredManager_def cred_Load_def read_file_def split: option.splits)

theorem watchdog_needs_credentials_witness:
  "fst (run_process no_cred_run ''c'' (Inr 60000000000) 8 [] 6) = [''READY=1''] \<and>
   fst (run_process (demo_run demo_ok) ''c'' (Inr 60000000000) 2 [] 6) = [''READY=1'', ''WATCHDOG=1'', ''WATCHDOG=1'']"
proof -
  obtain a b where "Run no_cred_run ''c'' = Inr a" "Run (demo_run demo_ok) ''c'' = Inr b" using no_cred_runs demo_runs by blast
  then show ?thesis
    using watchdog_needs_credentials [of no_cred_run "''c''" a 60000000000 8 "[]" 6]
      watchdog_needs_credentials [of "demo_run demo_ok" "''c''" b 60000000000 2 "[]" 6] no_cred demo_cred [of demo_ok]
    by (auto simp: numeral_2_eq_2)
qed

end
