(* ===== verification/Dial.thy ===== *)
theory Dial
  imports CloudConn
begin

text \<open>
  What \<open>Dial\<close> of \<^verbatim>\<open>src/internal/cloudlink/client.go\<close> hands to the WebSocket library and what it writes to the
  log: the TLS settings, the header with the token, and the entries about the attempt.
\<close>

section \<open>The options\<close>

text \<open>The TLS configuration and the header; versions have their numbers in the protocol.\<close>

record DialOptions =
  do_MinVersion :: int
  do_ServerName :: string
  do_InsecureSkipVerify :: bool
  do_HTTPHeader :: "(string \<times> string list) list"

definition VersionTLS12 :: int where "VersionTLS12 = 0x0303"

definition Client_dialOptions :: "Client \<Rightarrow> string \<Rightarrow> DialOptions" where
  "Client_dialOptions c token =
     \<lparr>do_MinVersion = VersionTLS12, do_ServerName = [], do_InsecureSkipVerify = cl_insecureSkip c,
      do_HTTPHeader = [(''Authorization'', [''Bearer '' @ token])]\<rparr>"

text \<open>\<open>Dial\<close> then sets the name the certificate is checked against.\<close>

definition dial_opts :: "Client \<Rightarrow> string \<Rightarrow> string \<Rightarrow> DialOptions" where
  "dial_opts c endpoint token = (Client_dialOptions c token)\<lparr>do_ServerName := endpoint\<rparr>"

definition Conn_Endpoint :: "Conn \<Rightarrow> string" where
  "Conn_Endpoint c = cn_endpoint c"

definition Conn_ResolvedIP :: "Conn \<Rightarrow> string" where
  "Conn_ResolvedIP c = cn_resolved c"

section \<open>The log\<close>

text \<open>The entries \<open>Dial\<close> writes, with their fields; \<open>lat\<close> is the time the resolution took.\<close>

definition Client_Dial_log ::
  "Client \<Rightarrow> lookup \<Rightarrow> int \<Rightarrow> (string \<Rightarrow> goerror option) \<Rightarrow> string \<Rightarrow> string \<Rightarrow> (string \<times> (string \<times> string) list) list" where
  "Client_Dial_log c l lat wsdial endpoint token =
     (case Resolver_Resolve l endpoint of
        Inl err \<Rightarrow> []
      | Inr ip \<Rightarrow>
          let wssURL = Client_buildWSSURL c endpoint token
          in (''dns resolved before dial'', [(''endpoint'', endpoint), (''ip'', ip), (''latency_ms'', itoa lat)]) #
             (case wsdial wssURL of
                Some err \<Rightarrow> [(''wss dial failed'', [(''endpoint'', endpoint), (''url'', wssURL), (''error'', Error err)])]
              | None \<Rightarrow> [(''wss connected'', [(''endpoint'', endpoint), (''ip'', ip)])]))"

section \<open>Properties\<close>

lemma QueryEscape_alnum: "list_all alnum s \<Longrightarrow> QueryEscape s = s"
  by (induction s) (simp_all add: QueryEscape_def query_char_def)

lemma contains_infix: "contains_str (u @ s @ v) s"
  by (auto simp: contains_str_iff)

lemma url_has_token: "\<exists>u v. Client_buildWSSURL c endpoint token = u @ QueryEscape token @ v"
proof -
  have "encode_values [(''agent_id'', cl_agentID c), (''token'', token), (''v'', cloudProtocolV)] =
      (QueryEscape ''agent_id'' @ ''='' @ QueryEscape (cl_agentID c) @ ''&'' @ QueryEscape ''token'' @ ''='') @
      QueryEscape token @ (''&'' @ QueryEscape ''v'' @ ''='' @ QueryEscape cloudProtocolV)"
    by (simp add: encode_values_def)
  then show ?thesis unfolding Client_buildWSSURL_def Let_def by (metis append.assoc)
qed

text \<open>
  A connection is opened with TLS 1.2 at least, against the certificate of the configured name, unless the
  environment switches the check off; the token travels in the header, and the connection knows where it leads.
\<close>

theorem dial_is_verified:
  "do_MinVersion (dial_opts (NewClient getenv i) endpoint token) = 0x0303 \<and>
   do_ServerName (dial_opts (NewClient getenv i) endpoint token) = endpoint \<and>
   (do_InsecureSkipVerify (dial_opts (NewClient getenv i) endpoint token) \<longleftrightarrow> getenv ''CPA_TLS_INSECURE'' \<in> {''true'', ''1''}) \<and>
   do_HTTPHeader (dial_opts (NewClient getenv i) endpoint token) = [(''Authorization'', [''Bearer '' @ token])] \<and>
   (\<forall>conn. Client_Dial c l wsdial endpoint token = Inr conn \<longrightarrow>
      Conn_Endpoint conn = endpoint \<and> Resolver_Resolve l endpoint = Inr (Conn_ResolvedIP conn))"
  by (auto simp: dial_opts_def Client_dialOptions_def VersionTLS12_def NewClient_def Let_def Client_Dial_def Conn_Endpoint_def
      Conn_ResolvedIP_def split: sum.splits option.splits)

text \<open>
  (C21) A failed connection writes the device token to the log. The URL carries the token, and when the server
  cannot be reached both the log entry and the text of the returned error contain the URL: a token of
  letters and digits is there as it is, although the configuration view of the operations API masks it.
\<close>

theorem dial_failure_shows_token:
  assumes "Resolver_Resolve l endpoint = Inr ip" "wsdial (Client_buildWSSURL c endpoint token) = Some e" "list_all alnum token"
  shows "\<exists>err url. Client_Dial c l wsdial endpoint token = Inl err \<and> contains_str (Error err) token \<and>
    (''wss dial failed'', [(''endpoint'', endpoint), (''url'', url), (''error'', Error e)]) \<in> set (Client_Dial_log c l lat wsdial endpoint token) \<and>
    contains_str url token"
proof -
  let ?url = "Client_buildWSSURL c endpoint token"
  obtain u v where u: "?url = u @ token @ v" using url_has_token [of c endpoint token] QueryEscape_alnum [OF assms(3)] by auto
  have "Client_Dial c l wsdial endpoint token = Inl (Wrap ErrWSSHandshakeFail (''wss dial '' @ ?url) e)"
    using assms(1,2) by (simp add: Client_Dial_def)
  moreover have "Error (Wrap ErrWSSHandshakeFail (''wss dial '' @ ?url) e) =
      (''[WSS_HANDSHAKE_FAIL] '' @ ''wss dial '' @ u) @ token @ (v @ '': '' @ Error e)"
    by (simp add: Wrap_def u)
  moreover have "(''wss dial failed'', [(''endpoint'', endpoint), (''url'', ?url), (''error'', Error e)])
      \<in> set (Client_Dial_log c l lat wsdial endpoint token)"
    using assms(1,2) by (simp add: Client_Dial_log_def Let_def)
  ultimately show ?thesis using contains_infix u by metis
qed

section \<open>Witnesses\<close>

theorem dial_failure_shows_token_witness:
  "\<exists>err. Client_Dial (NewClient (\<lambda>_. []) ''a'') (LookupIPs [''10.0.0.1'']) (\<lambda>_. Some (PlainError ''refused'')) ''cloud'' ''tok1'' = Inl err \<and>
     contains_str (Error err) ''tok1''"
proof -
  have "list_all alnum ''tok1''" by (simp add: alnum_def)
  from dial_failure_shows_token [OF _ _ this, of "LookupIPs [''10.0.0.1'']" "''cloud''" "''10.0.0.1''" "\<lambda>_. Some (PlainError ''refused'')"
      "NewClient (\<lambda>_. []) ''a''" "PlainError ''refused''" 0]
  show ?thesis by (auto simp: Resolver_Resolve_def)
qed

end
