(* ===== verification/Verify.thy ===== *)
theory Verify
  imports NetProbe Protocol GoTime
begin

text \<open>
  The programs under \<^verbatim>\<open>src/test/verify\<close> that check an installation by hand: the name service, the gateway and
  printing to a RAW port. Each is the list of the lines it prints, with the stream, and its exit code; the
  last argument is the time it measures. What the listener of the RAW program has received by its
  deadline, and how many connections it has seen, is given.
\<close>

datatype line = Out string | Err string

section \<open>The name service\<close>

definition verifyEndpoint :: string where "verifyEndpoint = ''print.oascii.com''"
definition expectedGateway :: string where "expectedGateway = ''210.22.123.254''"

definition dns_verify :: "netenv \<Rightarrow> duration \<Rightarrow> line list \<times> int" where
  "dns_verify env elapsed =
     (case ProbeDNS env verifyEndpoint of
        (ip, latencyMs, Some err) \<Rightarrow> ([Err (''[FAIL] dns resolve '' @ verifyEndpoint @ '': '' @ Error err)], 1)
      | (ip, latencyMs, None) \<Rightarrow>
          ([Out (''[OK] dns resolve '' @ verifyEndpoint @ '' -> '' @ ip @ '' (probe='' @ itoa latencyMs @ ''ms, total='' @
              duration_string elapsed @ '')''),
            (if ip \<noteq> expectedGateway
             then Err (''[WARN] resolved IP '' @ ip @ '' != expected gateway '' @ expectedGateway)
             else Out (''[OK] resolved IP matches expected gateway '' @ expectedGateway)),
            (if latencyMs > 2000
             then Err (''[WARN] dns latency '' @ itoa latencyMs @ ''ms exceeds 2000ms threshold'')
             else Out (''[OK] dns latency '' @ itoa latencyMs @ ''ms within threshold'')),
            Out ''[DONE] dns_verify passed''], 0))"

section \<open>The gateway\<close>

definition gatewayIP :: string where "gatewayIP = ''210.22.123.254''"
definition gatewayPort :: int where "gatewayPort = 443"

definition gateway_verify :: "netenv \<Rightarrow> duration \<Rightarrow> line list \<times> int" where
  "gateway_verify env elapsed =
     (let gw = gatewayIP @ '':'' @ itoa gatewayPort
      in case ProbeGateway env gatewayIP gatewayPort of
           (ok, Some err) \<Rightarrow> ([Err (''[FAIL] gateway probe '' @ gw @ '': '' @ Error err)], 1)
         | (ok, None) \<Rightarrow>
             if \<not> ok then ([Err (''[FAIL] gateway '' @ gw @ '' unreachable (elapsed='' @ duration_string elapsed @ '')'')], 1)
             else ([Out (''[OK] gateway '' @ gw @ '' reachable (elapsed='' @ duration_string elapsed @ '')''),
                    Out ''[DONE] gateway_verify passed''], 0))"

section \<open>The RAW port\<close>

definition rawProbePort :: int where "rawProbePort = 9100"

definition raw_payload :: bytes where
  "raw_payload = bytes_of (''VERIFY-RAW-9100-PRINT-JOB'' @ [CHR 0x0A] @ ''TestPage'' @ [CHR 0x0A, CHR 0x0C])"

text \<open>The checks after sending, which end the program with the first that fails.\<close>

definition raw_received :: "bytes \<Rightarrow> int \<Rightarrow> line list \<times> int" where
  "raw_received received conns =
     (if received \<noteq> raw_payload then
        ([Err (''[FAIL] device received '' @ itoa (int (length received)) @ '' bytes, expected '' @
           itoa (int (length raw_payload)) @ '' bytes'')], 1)
      else
        let l1 = Out (''[OK] device received '' @ itoa (int (length received)) @ '' bytes matching payload'')
        in if conns < 1 then ([l1, Err ''[FAIL] no connections observed by mock device''], 1)
           else ([l1, Out (''[OK] mock device observed '' @ itoa conns @ '' connections''), Out ''[DONE] raw_probe_verify passed''], 0))"

definition after :: "line list \<Rightarrow> line list \<times> int \<Rightarrow> line list \<times> int" where
  "after ls r = (ls @ fst r, snd r)"

definition raw_probe_verify ::
  "goerror option \<Rightarrow> env \<Rightarrow> (int \<Rightarrow> env) \<Rightarrow> env \<Rightarrow> bytes \<Rightarrow> int \<Rightarrow> line list \<times> int" where
  "raw_probe_verify listen env1 envs env3 received conns =
     (case listen of
        Some err \<Rightarrow> ([Err (''[FAIL] listen on 9100: '' @ Error err)], 1)
      | None \<Rightarrow>
     after [Out ''[STEP 1] probe 127.0.0.1:9100'']
     (case RawAdapter_Probe env1 ''127.0.0.1'' rawProbePort of
        (ok, Some err) \<Rightarrow> ([Err (''[FAIL] probe error: '' @ Error err)], 1)
      | (ok, None) \<Rightarrow>
     if \<not> ok then ([Err ''[FAIL] probe returned false, expected port 9100 reachable''], 1)
     else after [Out ''[OK] probe 9100 reachable'', Out ''[STEP 2] probe protocol order (9100 -> 515 -> 631)'']
     (case ProbeProtocol envs ''127.0.0.1'' of
        (proto, status, Some err) \<Rightarrow> ([Err (''[FAIL] probe protocol error: '' @ Error err)], 1)
      | (proto, status, None) \<Rightarrow>
     if proto \<noteq> ProtocolRAW then ([Err (''[FAIL] expected RAW, got '' @ proto)], 1)
     else if status \<noteq> DeviceStatusOnline then ([Err (''[FAIL] expected ONLINE, got '' @ status)], 1)
     else after [Out (''[OK] probe protocol detected '' @ proto @ '' / '' @ status @ '' (short-circuit at 9100)''),
                 Out ''[STEP 3] send print data via RAW 9100'']
     (case RawAdapter_Send env3 ''127.0.0.1'' rawProbePort (Inr raw_payload)
             \<lparr>pp_Copies = 1, pp_Orientation = [], pp_Extra = Map.empty\<rparr> of
        Some err \<Rightarrow> ([Err (''[FAIL] send error: '' @ Error err)], 1)
      | None \<Rightarrow> raw_received received conns))))"

section \<open>What the programs accept\<close>

lemma after_code [simp]: "snd (after ls r) = snd r"
  by (simp add: after_def)

lemma loopback_port: "host_port ''127.0.0.1'' 9100 = ''127.0.0.1:9100''"
  by (simp add: host_port_def itoa_def itoa_nat.simps)

lemma probe_loop_source: "fst (probe_loop pps envs ip) = ProtocolUnknown \<or> fst (probe_loop pps envs ip) \<in> fst ` set pps"
  by (induction pps) (force split: sum.split)+

lemma probes_raw: "ProbeProtocol envs ip = (ProtocolRAW, DeviceStatusOnline, None) \<longleftrightarrow> probePort (envs 9100) ip 9100 = Inr True"
proof -
  have "ProtocolRAW \<noteq> ProtocolUnknown" "ProtocolRAW \<notin> {ProtocolLPR, ProtocolIPP}" by (simp_all add: go_consts)
  then have "probe_loop [(ProtocolLPR, 515), (ProtocolIPP, 631)] envs ip \<noteq> (ProtocolRAW, r)" for r
    using probe_loop_source [of "[(ProtocolLPR, 515), (ProtocolIPP, 631)]" envs ip] by force
  then show ?thesis
    using \<open>ProtocolRAW \<noteq> ProtocolUnknown\<close> by (cases "probePort (envs 9100) ip 9100") (simp_all add: ProbeProtocol_def probeOrder_def del: probe_loop.simps(1))
qed

text \<open>
  The name service check passes whenever the name resolves: an address other than the expected one and a
  slow answer are only warnings.
\<close>

theorem dns_verify_accepts:
  "snd (dns_verify env elapsed) = 0 \<longleftrightarrow> (\<exists>ip ips. ne_done_dns env = None \<and> ne_lookup_ip4 env verifyEndpoint = Inr (ip # ips))"
  by (auto simp: dns_verify_def ProbeDNS_def split: option.splits sum.splits list.splits)

text \<open>The gateway check passes exactly when a connection to its address can be opened in time.\<close>

theorem gateway_verify_accepts:
  "snd (gateway_verify env elapsed) = 0 \<longleftrightarrow> ne_done_gw env = None \<and> ne_dial_tcp env ''210.22.123.254:443'' = None"
proof -
  have "itoa 443 = ''443''" by (simp add: itoa_def itoa_nat.simps)
  then show ?thesis
    by (auto simp: gateway_verify_def ProbeGateway_def gatewayIP_def gatewayPort_def Let_def split: option.splits)
qed

text \<open>
  The RAW check passes exactly when the port could be opened for listening, all three steps of the adapter
  reach it in time, the write succeeds, and the listener has received the very bytes that were sent.
\<close>

theorem raw_probe_verify_accepts:
  "snd (raw_probe_verify listen env1 envs env3 received conns) = 0 \<longleftrightarrow>
     listen = None \<and> en_done env1 = None \<and> en_dial env1 ''127.0.0.1:9100'' = None \<and>
     probePort (envs 9100) ''127.0.0.1'' 9100 = Inr True \<and>
     en_dial env3 ''127.0.0.1:9100'' = None \<and> en_done env3 = None \<and> en_write env3 [] raw_payload = None \<and>
     received = raw_payload \<and> 1 \<le> conns"
proof -
  let ?params = "\<lparr>pp_Copies = 1, pp_Orientation = [], pp_Extra = Map.empty\<rparr>"
  have "snd (raw_probe_verify listen env1 envs env3 received conns) = 0 \<longleftrightarrow>
      listen = None \<and> RawAdapter_Probe env1 ''127.0.0.1'' rawProbePort = (True, None) \<and>
      ProbeProtocol envs ''127.0.0.1'' = (ProtocolRAW, DeviceStatusOnline, None) \<and>
      RawAdapter_Send env3 ''127.0.0.1'' rawProbePort (Inr raw_payload) ?params = None \<and> received = raw_payload \<and> 1 \<le> conns"
    by (auto simp: raw_probe_verify_def raw_received_def Let_def split: option.splits prod.splits if_splits)
  then show ?thesis
    by (auto simp: RawAdapter_Probe_def tcp_probe_def RawAdapter_Send_def rawProbePort_def loopback_port probes_raw io_copy_def Let_def
        split: option.splits)
qed

end
