(* ===== verification/Spec2Isabelle.thy ===== *)
theory Spec2Isabelle
  imports QueueSpec QueueSync TaskData AgentWork OpsWire Process Dial Verify
begin

text \<open>
  Verification of the cloud print agent, a daemon that receives print tasks from a cloud server over a
  web socket, queues them per printer, sends them to the printers and reports the results.

  \<^bold>\<open>The parts and how they interact.\<close> \<^verbatim>\<open>src/internal/lifecycle\<close> loads the configuration, opens the
  database, fills the device registry, recovers interrupted tasks into the queue, opens the
  credentials, and starts the network prober, the executor, the cloud link and the operations API. The
  cloud link owns the connection and hands it to the reporter, the heartbeat and the dispatcher. The
  dispatcher turns messages into operations on the queue and on the registry and answers them; the
  executor takes tasks from the queue, chooses a print adapter by the device's protocol, retries, and
  gives the results to the reporter; the heartbeat counts devices and pending tasks and, after three
  missed beats, has the reconnector dial again, which asks the prober why the connection was lost. The
  operations API shows the same registry, queue and metrics to clients on the host.

  \<^bold>\<open>Theories and sources\<close>, under \<^verbatim>\<open>src/internal\<close> unless a path is given. Definitions have the names of
  the code, methods as \<open>Type_method\<close>; a structure is a record with one field per field of the code
  except locks, loggers and back pointers; the receiver is an argument and its new state a result.
  \<^item> \<open>Prelude\<close>: Go's integers, strings, clocks and lists, and the lemmas they need. \<open>Domain\<close>
    (\<^verbatim>\<open>domain/domain.go\<close>): the data. \<open>Errs\<close> (\<^verbatim>\<open>errs/errs.go\<close>): error values with their cause chains.
    \<open>Interfaces\<close>: the locales in which one component states what it needs of another (\<open>queue_ops\<close> and
    \<open>device_mutator\<close> for the dispatcher, \<open>device_lister\<close> and \<open>pending_counter\<close> for the heartbeat,
    \<open>print_adapter\<close> for the executor); each is interpreted in the theory of its provider.
  \<^item> \<open>Storage\<close> (\<^verbatim>\<open>storage/*.go\<close>): the task repository over bbolt, and \<open>RecoverAll\<close>. Saving and loading
    round-trip, recovery is exact.
  \<^item> \<open>TaskQueue\<close> (\<^verbatim>\<open>taskqueue/queue.go\<close>, \<^verbatim>\<open>recover.go\<close>, the hooks of \<^verbatim>\<open>persist.go\<close>): the queue per device
    and the recovery into it: invariant, conservation and order over any sequence of operations, every
    branch of every operation, what survives a restart. \<open>QueueSpec\<close>: the abstract queue, which the
    operations refine answer by answer. \<open>QueueSync\<close>: the condition variable as a step relation, with no
    lost wake-up. \<open>TaskData\<close> (rest of \<^verbatim>\<open>persist.go\<close>): the documents as files.
  \<^item> \<open>NetAddr\<close>: Go's address syntax. \<open>Protocol\<close> (\<^verbatim>\<open>protocol/*.go\<close>): the RAW, LPR, IPP and CUPS adapters
    down to the bytes they write, which a receiver reads back, and their errors. \<open>DeviceMgr\<close>
    (\<^verbatim>\<open>device/*.go\<close>): registry, health checks, probing, debouncing.
  \<^item> \<open>Executor\<close> (\<^verbatim>\<open>executor/execute.go\<close>, \<^verbatim>\<open>retry.go\<close>): one task from its first attempt to its result.
    \<open>Pipeline\<close> (\<^verbatim>\<open>executor/executor.go\<close>): what \<open>Start\<close> sets up.
  \<^item> \<open>CloudConn\<close> (\<^verbatim>\<open>cloudlink/client.go\<close>, \<^verbatim>\<open>resolve.go\<close>, \<^verbatim>\<open>handshake.go\<close>), \<open>Reporter\<close>, \<open>Heartbeat\<close>,
    \<open>Reconnect\<close>, \<open>Dispatcher\<close> (the files of these names), \<open>CloudLink\<close> (\<^verbatim>\<open>cloudlink.go\<close>,
    \<^verbatim>\<open>domain_update.go\<close>). Connections are shared objects, so the link keeps a store of them and the
    components hold positions in it. The lemmas on the dispatcher and the heartbeat are proved in
    locales over the interfaces and used through their interpretations \<open>agent\<close> and \<open>hbview\<close>.
  \<^item> \<open>Observability\<close> (\<^verbatim>\<open>observability/*.go\<close>), \<open>NetProbe\<close> (\<^verbatim>\<open>netprobe/*.go\<close>), \<open>Config\<close> (\<^verbatim>\<open>config/*.go\<close>),
    \<open>Credential\<close> (\<^verbatim>\<open>credential/*.go\<close> and \<^verbatim>\<open>src/cmd/init-credential/main.go\<close>), \<open>OpsApi\<close>
    (\<^verbatim>\<open>opsapi/*.go\<close>), \<open>Lifecycle\<close> (\<^verbatim>\<open>lifecycle/app.go\<close>, \<^verbatim>\<open>systemd.go\<close>).
  \<^item> \<open>Agent\<close> (the goroutines of \<^verbatim>\<open>executor/executor.go\<close>, and \<open>Run\<close> in \<^verbatim>\<open>lifecycle/app.go\<close>): consumers, channel and
    workers (\<open>exec_step\<close>), and dispatcher, queue, executor, task loop and reporter put together as \<open>Run\<close> does
    (\<open>agent_step\<close>): messages, the executor's moves, the registration of the result callback, the link's use of the
    reporter, and the shutdown, with every branch of the code that the end of the context takes: every task is accounted for,
    the order of a device is kept. \<open>AgentWork\<close>: results are reported, work gets done, and what prevents it.
  \<^item> \<open>Json\<close>: \<open>encoding/json\<close> as far as the sources use it, the text of a value and its parser, strings
    with their escapes and UTF-8, and decoding into structures by their tables of fields; the locale
    \<open>leaf_codec\<close> says what a field type owes to the structure it is in. \<open>Wire\<close>: the field names and
    \<open>omitempty\<close> marks of \<^verbatim>\<open>domain.go\<close>, of the dispatcher, the handshake and the credentials file, and what
    the agent does with the text of a message. \<open>JsonSpace\<close>: all the texts of a value, with white space between
    the tokens, as an inductive relation that the parser reads back; the indented text is one of them; a text
    that is cut off is not read.
    \<open>GoTime\<close>: the calendar and the texts of instants and durations.
  \<^item> \<open>OpsWire\<close>: the responses of \<open>OpsApi\<close> as the texts they are sent as, the parsers of log lines, and the
    server's start and stop. \<open>Dial\<close>: the options and the log of \<open>Dial\<close> in \<^verbatim>\<open>client.go\<close>. \<open>Process\<close> (\<^verbatim>\<open>lifecycle/signal.go\<close>,
    \<^verbatim>\<open>systemd.go\<close>, the end of \<open>Run\<close>, \<^verbatim>\<open>observability/trace.go\<close>): signals, messages to systemd, loggers in
    contexts. \<open>Verify\<close> (\<^verbatim>\<open>src/test/verify\<close>): the programs that check an installation.

  \<^bold>\<open>The outside.\<close> What the network, a printer, the file system, the clock or the random source do is an
  argument: a function or a record of outcomes, over which the theorems quantify. Third-party code is a
  record of its operations with its documented laws as hypotheses, and a witness shows that they can
  hold: bbolt (\<open>bbolt_laws\<close>, instance \<open>mem_bbolt\<close>), gob (\<open>gob_laws\<close>), AES-GCM (\<open>aead_ok\<close>),
  \<open>sort.Slice\<close> of the log view (\<open>sorter_ok\<close>), the lines zap writes (\<open>log_line\<close>). Where a theory takes standard
  library code as an argument, a later one supplies it: the codec of the credentials file (\<open>codec_ok\<close>) is
  the JSON codec of \<open>Wire\<close>, the format of instants in \<open>Wire\<close> (\<open>timefmt_ok\<close>) is \<open>rfc_tf\<close>, the decoders of the
  dispatcher are \<open>wire_un\<close>, the parsers of the log view \<open>go_parsers\<close>. YAML is a function without laws.

  \<^bold>\<open>Time and concurrency.\<close> A loop that waits for ticks, messages or timers takes the list of what it
  meets, one element per pass, and tells at the end of the list that it goes on. The only fuel is that of
  the JSON parser: twice the length of the text is enough, and more does not change the result
  (\<open>jvalue_fuel\<close>).
  Goroutines that share state are step relations (\<open>cv_step\<close>, \<open>rc_step\<close>, \<open>exec_step\<close>, \<open>agent_step\<close>), and
  theorems hold in all reachable states; a component used under one lock is a sequence of operations. Integers that
  can overflow are reduced by \<open>wrap64\<close>; \<open>ovf\<close> in \<open>Reconnect\<close> is the result of converting a float beyond
  the range, which Go leaves open.

  \<^bold>\<open>What the theorems show.\<close> The numbered properties, in order: the queue refines its specification,
  conserves and orders tasks; in the composed agent every accepted task is queued, cancelled, under way,
  decided, or lost to a shutdown in one of two known ways, decided tasks are reported, and work is finished unless
  offline printers hold the workers; the
  text of a task message arrives complete unless it exceeds the read limit, what cannot be decoded is refused, and what the agent writes, to
  the cloud or to a client of the operations API, can be read; tasks are restored across a restart; messages keep the invariants of queue and registry and are answered truthfully; connecting
  and changing the domain are transactional; the agent starts in order and without the cloud; files,
  records, credentials, requests and URLs round-trip; reporter, heartbeat, reconnector and prober keep
  their counts, thresholds and classes; the operations API agrees with the heartbeat and serves the host
  only. Some properties state what goes wrong where the code does not do what it means to (a dispatcher
  that ends at the first read error, a backoff that overflows, pending tasks lost at a restart, a message
  that stops the agent, a document too large to be received, a watchdog that is not fed without credentials, a token in the log, log times that
  cannot be read); further
  theorems of this kind stand in the theories beside them.

  \<^bold>\<open>Not modelled.\<close> The codecs of YAML and gob, the log writers (zap, lumberjack), chi's matching of a path to
  a route (its outcome, a route, an unknown path or another method, is an input), the HTTP server, the web socket and the systemd socket: third-party or operating-system code the
  sources only call, whose results are inputs. Constructors that only copy their arguments into a structure
  have no definition of their own. Deadlines appear
  as their outcomes, not as durations. The read limit of the web socket is a parameter of \<open>receive_envelope\<close>, whose
  documented value is 32768. The file system has no cache: that \<open>SaveAtomic\<close> calls \<open>Sync\<close> shows in its errors
  only, and its property is about a process that stops, not about a loss of power. The zone of an instant is a function of the instant.
  Locks are not modelled as such: each operation is one step. The code releases a lock midway in
  \<open>Dequeue\<close>, when it waits, which \<open>QueueSync\<close> treats; in \<open>flushBuffer\<close> and \<open>Send\<close> of the reporter, which write to the
  connection without their lock and are single steps here; and in \<open>Enqueue\<close>, as follows.
  In \<open>Agent\<close> accepting a task is one step although the code stores it and signals after the lock is
  released, and the results of a task's execution are delivered together. A received payload is kept as its
  compact text; the texts of the JSON package's errors are not modelled, and an instant out of range is
  noticed when the message is written, not when its payload is marshalled.
  Of the programs under \<^verbatim>\<open>src/test/verify\<close>, \<^verbatim>\<open>wss_verify.go\<close> does not compile and is left out.
\<close>

section \<open>From the execution of a task to the message about it\<close>

text \<open>
  The callback \<open>Run\<close> registers with the executor: it hands the task to the reporter, which sends or
  keeps the message. The state is what has been sent, the reporter, and the outcomes of the writes to
  come, none left meaning success.
\<close>

type_synonym report_state = "Envelope list \<times> Reporter \<times> goerror option list"

definition report_callback :: "gotime \<Rightarrow> report_state \<Rightarrow> PrintTask \<Rightarrow> report_state" where
  "report_callback now w task =
     (case w of (out, rep, wrs) \<Rightarrow>
        (case Reporter_ReportTaskResult now (case wrs of [] \<Rightarrow> None | wr # _ \<Rightarrow> wr) rep (Some task) of
           (_, sent, rep') \<Rightarrow> (out @ sent, rep', tl wrs)))"

text \<open>All the results of a task's execution, given to the registered callbacks one after the other.\<close>

definition deliver :: "(report_state \<Rightarrow> PrintTask \<Rightarrow> report_state) list \<Rightarrow> exec_event list \<Rightarrow> report_state \<Rightarrow> report_state" where
  "deliver cbs ev w = foldl (\<lambda>w t. fireTaskResult cbs t w) w (results ev)"

lemma buffer_keeps_last: "msg \<in> set (rp_buf (Reporter_buffer r msg))"
  by (simp add: Reporter_buffer_def Let_def)

lemma report_sent_or_kept:
  "report_callback now w t = (out, rep, wrs) \<Longrightarrow> task_result_envelope now t \<in> set (out @ rp_buf rep)"
  by (auto simp: report_callback_def Reporter_ReportTaskResult_def Reporter_Send_def buffer_keeps_last
      split: prod.splits option.splits list.splits)

lemma deliver_last:
  "deliver (OnTaskResult [] (report_callback now)) (ev @ [TaskResult t]) w =
     report_callback now (deliver (OnTaskResult [] (report_callback now)) ev w) t"
  by (simp add: deliver_def OnTaskResult_def fireTaskResult_def)

text \<open>
  The fate of a task reaches the cloud or is kept for it. A pending task with at most three retries
  behind it, whose device is not offline and while the agent is not shutting down, is decided within its
  remaining attempts, and when the executor has handed its results to the reporter the message with that
  last result has been sent or is in the reporter's buffer, whatever the printer, the connection and the
  writes did, and whatever the reporter held before.
\<close>

theorem final_result_sent_or_kept:
  assumes "0 \<le> t_RetryCount t" "t_RetryCount t \<le> 3" "\<not> TaskStatus_IsTerminal (t_Status t)"
    and "\<forall>a \<in> set as. online_attempt (t_DeviceID t) a" "4 - t_RetryCount t \<le> int (length as)"
    and "deliver (OnTaskResult [] (report_callback now)) (snd (executeTaskLoop audit as t)) w = (out, rep, wrs)"
  shows "\<exists>t'. fst (executeTaskLoop audit as t) = Returned t' \<and> t_TaskID t' = t_TaskID t \<and>
    (t_Status t' = TaskStatusSuccess \<or> t_Status t' = TaskStatusFailed) \<and>
    task_result_envelope now t' \<in> set (out @ rp_buf rep)"
proof -
  obtain t' ev where e: "executeTaskLoop audit as t = (Returned t', ev @ [TaskResult t'])" "t_TaskID t' = t_TaskID t"
    "t_Status t' = TaskStatusSuccess \<or> t_Status t' = TaskStatusFailed"
    using loop_ends [OF assms(1-5)] by blast
  then have "report_callback now (deliver (OnTaskResult [] (report_callback now)) ev w) t' = (out, rep, wrs)"
    using assms(6) by (simp add: deliver_last)
  then have "task_result_envelope now t' \<in> set (out @ rp_buf rep)" by (rule report_sent_or_kept)
  with e show ?thesis by auto
qed

theorem final_result_sent_or_kept_witness:
  "\<exists>t' out rep wrs. deliver (OnTaskResult [] (report_callback 7))
       (snd (executeTaskLoop True (replicate 4 (att NewManager)) task_B)) ([], NewReporter None, []) = (out, rep, wrs) \<and>
     t_TaskID t' = t_TaskID task_B \<and> task_result_envelope 7 t' \<in> set (out @ rp_buf rep)"
proof -
  obtain out rep wrs where "deliver (OnTaskResult [] (report_callback 7))
      (snd (executeTaskLoop True (replicate 4 (att NewManager)) task_B)) ([], NewReporter None, []) = (out, rep, wrs)"
    using prod_cases3 by blast
  with final_result_sent_or_kept [of task_B "replicate 4 (att NewManager)" 7 True "([], NewReporter None, [])" out rep wrs]
  show ?thesis using online_none task_B_sel by auto
qed

end
